(* ===== verification/Pipe_Prelude.thy ===== *)
theory Pipe_Prelude
  imports "HOL-Library.Word" "HOL-Library.While_Combinator"
begin

text \<open>
  Shared vocabulary of the development: the
  names of the machine types the sources use, and the generic facts on lists,
  maps and relations that more than one component needs.

  \<^item> \<open>std::size_t\<close>, \<open>std::uint64_t\<close> and \<open>std::uint32_t\<close> values that only count or
    index elements of a container are natural numbers; an explicit narrowing
    cast is written with \<open>u32\<close>.  Values whose wrap-around or extreme values are
    part of an algorithm (the ring buffer's positions, the frame identifiers) are
    machine words.
  \<^item> \<open>std::shared_ptr<T>\<close> is an address, a natural number; a pointer that may
    be null is an \<open>option\<close>.
\<close>

section \<open>Machine types\<close>

type_synonym ptr = nat
type_synonym FrameId = "64 word"
type_synonym StreamId = nat

definition u32 :: "nat \<Rightarrow> nat" where
  "u32 n = n mod 2 ^ 32"

lemma u32_id [simp]: "n < 2 ^ 32 \<Longrightarrow> u32 n = n"
  by (simp add: u32_def)

section \<open>Lists and maps\<close>

text \<open>
  \<open>find_index P xs\<close> is the position of the first element that satisfies \<open>P\<close>:
  the loops of the sources that scan a vector and \<open>break\<close> at a match.
\<close>

fun find_index :: "('a \<Rightarrow> bool) \<Rightarrow> 'a list \<Rightarrow> nat option" where
  "find_index P [] = None"
| "find_index P (x # xs) = (if P x then Some 0 else map_option Suc (find_index P xs))"

lemma find_index_Some_iff:
  "find_index P xs = Some i \<longleftrightarrow> i < length xs \<and> P (xs ! i) \<and> (\<forall>j<i. \<not> P (xs ! j))"
proof (induction xs arbitrary: i)
  case (Cons x xs)
  show ?case
  proof (cases i)
    case 0
    then show ?thesis by auto
  next
    case (Suc k)
    have "(\<forall>j<Suc k. \<not> P ((x # xs) ! j)) \<longleftrightarrow> \<not> P x \<and> (\<forall>j<k. \<not> P (xs ! j))"
      by (auto simp: less_Suc_eq_0_disj)
    then show ?thesis using Suc Cons.IH [of k] by auto
  qed
qed simp

lemma find_index_None_iff: "find_index P xs = None \<longleftrightarrow> (\<forall>x\<in>set xs. \<not> P x)"
  by (induction xs) auto

lemma append_sep_inject:
  "x \<notin> set xs \<Longrightarrow> x \<notin> set ys \<Longrightarrow> xs @ x # zs = ys @ x # ws \<longleftrightarrow> xs = ys \<and> zs = ws"
proof (induction xs arbitrary: ys)
  case Nil
  then show ?case by (cases ys) auto
next
  case (Cons a xs)
  then show ?case by (cases ys) auto
qed

lemma find_SomeD: "find P xs = Some x \<Longrightarrow> P x \<and> x \<in> set xs"
  by (induction xs) (auto split: if_splits)

text \<open>\<open>push_unique\<close> is the deduplicating \<open>push_back\<close> of the sources: \<open>std::find\<close>, then append.\<close>

definition push_unique :: "'a \<Rightarrow> 'a list \<Rightarrow> 'a list" where
  "push_unique x xs = (if x \<in> set xs then xs else xs @ [x])"

lemma set_push_unique [simp]: "set (push_unique x xs) = insert x (set xs)"
  by (auto simp: push_unique_def)

lemma distinct_push_unique [simp]: "distinct (push_unique x xs) = distinct xs"
  by (auto simp: push_unique_def)

lemma nth_list_update_if: "i < length xs \<Longrightarrow> xs[i := v] ! j = (if j = i then v else xs ! j)"
  by auto

lemma count_list_map_filter:
  "count_list (map f (filter P xs)) v = length (filter (\<lambda>x. P x \<and> f x = v) xs)"
  by (induction xs) auto

text \<open>Updating one position of a vector that is a function of distinct keys.\<close>

lemma map_update_distinct:
  "distinct xs \<Longrightarrow> i < length xs \<Longrightarrow> (map f xs)[i := v] = map (f(xs ! i := v)) xs"
  by (rule nth_equalityI) (auto simp: nth_list_update nth_eq_iff_index_eq)

text \<open>A hash map filled from a vector, \<open>m[key(v[i])] = i\<close>, inverts the vector.\<close>

definition index_map :: "('a \<Rightarrow> 'k) \<Rightarrow> 'a list \<Rightarrow> nat \<Rightarrow> 'k \<Rightarrow> nat option" where
  "index_map key xs n = fold (\<lambda>i m. m(key (xs ! i) \<mapsto> i)) [0..<n] Map.empty"

lemma index_map_Some_iff:
  assumes "distinct (map key xs)" and "n \<le> length xs"
  shows "index_map key xs n k = Some i \<longleftrightarrow> i < n \<and> key (xs ! i) = k"
  using assms(2)
proof (induction n)
  case (Suc n)
  have "key (xs ! i) \<noteq> key (xs ! n)" if "i < n" for i
    using assms(1) that Suc.prems nth_eq_iff_index_eq [OF assms(1), of i n] by simp
  then show ?case using Suc by (auto simp: index_map_def less_Suc_eq)
qed (simp add: index_map_def)

lemma index_map_mem_iff:
  assumes "distinct (map key xs)"
  shows "index_map key xs (length xs) k = None \<longleftrightarrow> k \<notin> key ` set xs"
proof -
  have "index_map key xs (length xs) k \<noteq> None \<longleftrightarrow> (\<exists>i<length xs. key (xs ! i) = k)"
    using index_map_Some_iff [OF assms order_refl] by auto
  also have "\<dots> \<longleftrightarrow> k \<in> key ` set xs" by (metis in_set_conv_nth image_iff)
  finally show ?thesis by blast
qed

section \<open>Relations\<close>

lemma acyclic_hom:
  assumes "acyclic s" and "\<And>x y. (x, y) \<in> r \<Longrightarrow> (f x, f y) \<in> s"
  shows "acyclic r"
proof -
  have "(f x, f y) \<in> s\<^sup>+" if "(x, y) \<in> r\<^sup>+" for x y
    using that by (induction rule: trancl_induct) (auto intro: assms(2) trancl_into_trancl)
  then show ?thesis using assms(1) by (auto simp: acyclic_def)
qed

lemma acyclic_if_rank:
  fixes rank :: "'a \<Rightarrow> nat"
  assumes "\<And>u v. (u, v) \<in> r \<Longrightarrow> rank u < rank v"
  shows "acyclic r"
proof -
  have "r \<subseteq> measure rank" using assms by auto
  then have "wf r" by (rule wf_subset [OF wf_measure])
  then show ?thesis by (rule wf_acyclic)
qed

lemma cyclic_if_no_minimal:
  assumes "finite r" and "S \<noteq> {}" and "\<And>v. v \<in> S \<Longrightarrow> \<exists>u\<in>S. (u, v) \<in> r"
  shows "\<not> acyclic r"
proof
  assume "acyclic r"
  with \<open>finite r\<close> have "wf r" by (rule finite_acyclic_wf)
  moreover obtain x where "x \<in> S" using \<open>S \<noteq> {}\<close> by auto
  ultimately obtain z where "z \<in> S" "\<And>y. (y, z) \<in> r \<Longrightarrow> y \<notin> S" by (rule wfE_min) auto
  then show False using assms(3) by blast
qed

end
