(* ===== verification/Errors.thy ===== *)
theory Errors
  imports Pipe_Prelude
begin

text \<open>
  \<open>include/ai_pipe/error.hpp\<close>: the error codes with their numeric values and
  names, the \<open>Error\<close> class and the two \<open>Result\<close> templates.

  \<open>Result<T>\<close> is a tagged union, so its model is a datatype; \<open>Result<void>\<close> holds
  only an \<open>Error\<close> whose code \<open>Ok\<close> means success, so its model is a wrapper around
  an error.  \<open>value()\<close> and \<open>error()\<close> on the wrong tag are failed assertions, the
  value \<open>None\<close>.
\<close>

section \<open>Error codes\<close>

datatype ErrorCode =
    Ok | InternalError
  | InvalidArgument | InvalidState | NotInitialized | AlreadyInitialized
  | GraphCycleDetected | GraphEmpty | InvalidConfiguration
  | AlreadyRunning | ExecutionFailed | ExecutionTimeout | ExecutionStopped | ExecutionAborted
  | StreamingNotSupported | NotStreaming | QueueRejected | QueueFull | NodeNotFound
  | PortNotFound | NoDownstreamConnection | EndOfStreamSignaled
  | NodeException | NodeUnknownException | InputUnavailable
  | PluginLoadFailed | PluginSymbolMissing | PluginVersionMismatch | PluginInUse

fun errorCodeValue :: "ErrorCode \<Rightarrow> 16 word" where
  "errorCodeValue Ok = 0"
| "errorCodeValue InternalError = 1"
| "errorCodeValue InvalidArgument = 100"
| "errorCodeValue InvalidState = 101"
| "errorCodeValue NotInitialized = 102"
| "errorCodeValue AlreadyInitialized = 103"
| "errorCodeValue GraphCycleDetected = 104"
| "errorCodeValue GraphEmpty = 105"
| "errorCodeValue InvalidConfiguration = 106"
| "errorCodeValue AlreadyRunning = 200"
| "errorCodeValue ExecutionFailed = 201"
| "errorCodeValue ExecutionTimeout = 202"
| "errorCodeValue ExecutionStopped = 203"
| "errorCodeValue ExecutionAborted = 204"
| "errorCodeValue StreamingNotSupported = 300"
| "errorCodeValue NotStreaming = 301"
| "errorCodeValue QueueRejected = 302"
| "errorCodeValue QueueFull = 303"
| "errorCodeValue NodeNotFound = 304"
| "errorCodeValue PortNotFound = 305"
| "errorCodeValue NoDownstreamConnection = 306"
| "errorCodeValue EndOfStreamSignaled = 307"
| "errorCodeValue NodeException = 400"
| "errorCodeValue NodeUnknownException = 401"
| "errorCodeValue InputUnavailable = 402"
| "errorCodeValue PluginLoadFailed = 500"
| "errorCodeValue PluginSymbolMissing = 501"
| "errorCodeValue PluginVersionMismatch = 502"
| "errorCodeValue PluginInUse = 503"

fun errorCodeToString :: "ErrorCode \<Rightarrow> string" where
  "errorCodeToString Ok = ''Ok''"
| "errorCodeToString InternalError = ''InternalError''"
| "errorCodeToString InvalidArgument = ''InvalidArgument''"
| "errorCodeToString InvalidState = ''InvalidState''"
| "errorCodeToString NotInitialized = ''NotInitialized''"
| "errorCodeToString AlreadyInitialized = ''AlreadyInitialized''"
| "errorCodeToString GraphCycleDetected = ''GraphCycleDetected''"
| "errorCodeToString GraphEmpty = ''GraphEmpty''"
| "errorCodeToString InvalidConfiguration = ''InvalidConfiguration''"
| "errorCodeToString AlreadyRunning = ''AlreadyRunning''"
| "errorCodeToString ExecutionFailed = ''ExecutionFailed''"
| "errorCodeToString ExecutionTimeout = ''ExecutionTimeout''"
| "errorCodeToString ExecutionStopped = ''ExecutionStopped''"
| "errorCodeToString ExecutionAborted = ''ExecutionAborted''"
| "errorCodeToString StreamingNotSupported = ''StreamingNotSupported''"
| "errorCodeToString NotStreaming = ''NotStreaming''"
| "errorCodeToString QueueRejected = ''QueueRejected''"
| "errorCodeToString QueueFull = ''QueueFull''"
| "errorCodeToString NodeNotFound = ''NodeNotFound''"
| "errorCodeToString PortNotFound = ''PortNotFound''"
| "errorCodeToString NoDownstreamConnection = ''NoDownstreamConnection''"
| "errorCodeToString EndOfStreamSignaled = ''EndOfStreamSignaled''"
| "errorCodeToString NodeException = ''NodeException''"
| "errorCodeToString NodeUnknownException = ''NodeUnknownException''"
| "errorCodeToString InputUnavailable = ''InputUnavailable''"
| "errorCodeToString PluginLoadFailed = ''PluginLoadFailed''"
| "errorCodeToString PluginSymbolMissing = ''PluginSymbolMissing''"
| "errorCodeToString PluginVersionMismatch = ''PluginVersionMismatch''"
| "errorCodeToString PluginInUse = ''PluginInUse''"

section \<open>The Error class\<close>

record error_t =
  err_code :: ErrorCode
  err_message :: string
  err_nodeName :: string

definition mkError :: "ErrorCode \<Rightarrow> string \<Rightarrow> string \<Rightarrow> error_t" where
  "mkError c m n = \<lparr> err_code = c, err_message = m, err_nodeName = n \<rparr>"

definition Error_isOk :: "error_t \<Rightarrow> bool" where
  "Error_isOk e = (err_code e = Ok)"

definition Error_toString :: "error_t \<Rightarrow> string" where
  "Error_toString e =
     errorCodeToString (err_code e)
     @ (if err_message e \<noteq> [] then '': '' @ err_message e else [])
     @ (if err_nodeName e \<noteq> [] then '' [node: '' @ err_nodeName e @ '']'' else [])"

definition Error_ok :: error_t where
  "Error_ok = mkError Ok [] []"

definition Error_invalidArgument :: "string \<Rightarrow> error_t" where
  "Error_invalidArgument msg = mkError InvalidArgument msg []"

definition Error_invalidState :: "string \<Rightarrow> error_t" where
  "Error_invalidState msg = mkError InvalidState msg []"

definition Error_notInitialized :: "string \<Rightarrow> error_t" where
  "Error_notInitialized msg = mkError NotInitialized msg []"

definition Error_alreadyRunning :: "string \<Rightarrow> error_t" where
  "Error_alreadyRunning msg = mkError AlreadyRunning msg []"

definition Error_executionFailed :: "string \<Rightarrow> string \<Rightarrow> error_t" where
  "Error_executionFailed msg node = mkError ExecutionFailed msg node"

definition Error_nodeException :: "string \<Rightarrow> string \<Rightarrow> error_t" where
  "Error_nodeException msg node = mkError NodeException msg node"

definition Error_nodeNotFound :: "string \<Rightarrow> error_t" where
  "Error_nodeNotFound node_name = mkError NodeNotFound (''Unknown node: '' @ node_name) node_name"

definition Error_portNotFound :: "string \<Rightarrow> string \<Rightarrow> error_t" where
  "Error_portNotFound port_name node_name =
     mkError PortNotFound (''Port '' @ [CHR 0x27] @ port_name @ [CHR 0x27] @ '' not found on node: '' @ node_name) node_name"

section \<open>Result\<close>

datatype 'a result = ResOk 'a | ResErr error_t

fun isOk :: "'a result \<Rightarrow> bool" where
  "isOk (ResOk v) = True"
| "isOk (ResErr e) = False"

definition isErr :: "'a result \<Rightarrow> bool" where
  "isErr r = (\<not> isOk r)"

fun result_value :: "'a result \<Rightarrow> 'a option" where
  "result_value (ResOk v) = Some v"
| "result_value (ResErr e) = None"

fun valueOr :: "'a result \<Rightarrow> 'a \<Rightarrow> 'a" where
  "valueOr (ResOk v) d = v"
| "valueOr (ResErr e) d = d"

fun result_error :: "'a result \<Rightarrow> error_t option" where
  "result_error (ResOk v) = None"
| "result_error (ResErr e) = Some e"

fun errorCode :: "'a result \<Rightarrow> ErrorCode" where
  "errorCode (ResOk v) = Ok"
| "errorCode (ResErr e) = err_code e"

fun errorMessage :: "'a result \<Rightarrow> string" where
  "errorMessage (ResOk v) = []"
| "errorMessage (ResErr e) = Error_toString e"

definition err :: "ErrorCode \<Rightarrow> string \<Rightarrow> 'a result" where
  "err c m = ResErr (mkError c m [])"

definition err_at :: "ErrorCode \<Rightarrow> string \<Rightarrow> string \<Rightarrow> 'a result" where
  "err_at c m n = ResErr (mkError c m n)"

section \<open>Result<void>\<close>

datatype void_result = VoidResult error_t

fun void_error :: "void_result \<Rightarrow> error_t" where
  "void_error (VoidResult e) = e"

definition void_ok :: void_result where
  "void_ok = VoidResult Error_ok"

definition void_err :: "ErrorCode \<Rightarrow> string \<Rightarrow> void_result" where
  "void_err c m = VoidResult (mkError c m [])"

definition void_err_at :: "ErrorCode \<Rightarrow> string \<Rightarrow> string \<Rightarrow> void_result" where
  "void_err_at c m n = VoidResult (mkError c m n)"

definition void_isOk :: "void_result \<Rightarrow> bool" where
  "void_isOk r = Error_isOk (void_error r)"

definition void_errorCode :: "void_result \<Rightarrow> ErrorCode" where
  "void_errorCode r = err_code (void_error r)"

definition void_errorMessage :: "void_result \<Rightarrow> string" where
  "void_errorMessage r = (if void_isOk r then [] else Error_toString (void_error r))"

section \<open>Facts\<close>

lemma err_code_mkError [simp]: "err_code (mkError c m n) = c"
  by (simp add: mkError_def)

lemma err_message_mkError [simp]: "err_message (mkError c m n) = m"
  by (simp add: mkError_def)

lemma err_nodeName_mkError [simp]: "err_nodeName (mkError c m n) = n"
  by (simp add: mkError_def)

lemma isOk_err [simp]: "isOk (err c m) = False" "isOk (err_at c m n) = False"
  by (simp_all add: err_def err_at_def)

lemma errorCode_err [simp]: "errorCode (err c m) = c" "errorCode (err_at c m n) = c"
  by (simp_all add: err_def err_at_def)

lemma err_neq_ResOk [simp]: "err c m \<noteq> ResOk v" "err_at c m n \<noteq> ResOk v"
  by (simp_all add: err_def err_at_def)

lemma void_isOk_simps [simp]:
  "void_isOk void_ok"
  "void_isOk (void_err c m) = (c = Ok)"
  "void_isOk (void_err_at c m n) = (c = Ok)"
  by (simp_all add: void_isOk_def void_ok_def void_err_def void_err_at_def Error_isOk_def Error_ok_def)

lemma void_errorCode_simps [simp]:
  "void_errorCode void_ok = Ok"
  "void_errorCode (void_err c m) = c"
  "void_errorCode (void_err_at c m n) = c"
  by (simp_all add: void_errorCode_def void_ok_def void_err_def void_err_at_def Error_ok_def)

lemma void_isOk_iff: "void_isOk r \<longleftrightarrow> void_errorCode r = Ok"
  by (simp add: void_isOk_def Error_isOk_def void_errorCode_def)

text \<open>The names are the only thing a log line shows of a code: no two codes share one.\<close>

definition all_codes :: "ErrorCode list" where
  "all_codes = [Ok, InternalError, InvalidArgument, InvalidState, NotInitialized, AlreadyInitialized,
     GraphCycleDetected, GraphEmpty, InvalidConfiguration, AlreadyRunning, ExecutionFailed, ExecutionTimeout,
     ExecutionStopped, ExecutionAborted, StreamingNotSupported, NotStreaming, QueueRejected, QueueFull,
     NodeNotFound, PortNotFound, NoDownstreamConnection, EndOfStreamSignaled, NodeException,
     NodeUnknownException, InputUnavailable, PluginLoadFailed, PluginSymbolMissing, PluginVersionMismatch,
     PluginInUse]"

lemma mem_all_codes: "c \<in> set all_codes"
  by (cases c) (simp_all add: all_codes_def)

lemma errorCodeToString_inject: "errorCodeToString a = errorCodeToString b \<longleftrightarrow> a = b"
proof -
  have "distinct (map errorCodeToString all_codes)" by code_simp
  then show ?thesis using mem_all_codes [of a] mem_all_codes [of b] by (auto simp: distinct_map inj_on_def)
qed

lemma errorCodeValue_inject: "errorCodeValue a = errorCodeValue b \<longleftrightarrow> a = b"
proof -
  have "distinct (map errorCodeValue all_codes)" by code_simp
  then show ?thesis using mem_all_codes [of a] mem_all_codes [of b] by (auto simp: distinct_map inj_on_def)
qed

end
