(* ===== verification/Kahn.thy ===== *)
theory Kahn
  imports Pipe_Prelude
begin

text \<open>
  Both \<open>Graph::hasCycle\<close> and \<open>CompiledGraph::compile\<close> run Kahn's algorithm, the
  first over a hash map of in-degrees keyed by node pointer, the second over a
  vector of in-degrees indexed by node number.  This theory proves the
  algorithm correct once, over the interface the two instances share: a store of
  counters that can be read and decremented.

  Edges are counted with their multiplicity: \<open>succs u\<close> lists \<open>v\<close> once per
  parallel edge from \<open>u\<close> to \<open>v\<close>, and an in-degree counts parallel edges
  individually.
\<close>

section \<open>The algorithm\<close>

fun kahn_visit :: "('s \<Rightarrow> 'v \<Rightarrow> int) \<Rightarrow> ('s \<Rightarrow> 'v \<Rightarrow> 's) \<Rightarrow> 's \<Rightarrow> 'v list \<Rightarrow> 'v list \<Rightarrow> 's \<times> 'v list" where
  "kahn_visit get dec s ready [] = (s, ready)"
| "kahn_visit get dec s ready (v # vs) =
     (let s' = dec s v
      in kahn_visit get dec s' (if get s' v = 0 then ready @ [v] else ready) vs)"

fun kahn_step :: "('s \<Rightarrow> 'v \<Rightarrow> int) \<Rightarrow> ('s \<Rightarrow> 'v \<Rightarrow> 's) \<Rightarrow> ('v \<Rightarrow> 'v list)
    \<Rightarrow> 's \<times> 'v list \<times> 'v list \<Rightarrow> 's \<times> 'v list \<times> 'v list" where
  "kahn_step get dec succs (s, [], order) = (s, [], order)"
| "kahn_step get dec succs (s, v # ready, order) =
     (let (s', ready') = kahn_visit get dec s ready (succs v) in (s', ready', order @ [v]))"

definition kahn_running :: "'s \<times> 'v list \<times> 'v list \<Rightarrow> bool" where
  "kahn_running st = (fst (snd st) \<noteq> [])"

definition edge_rel :: "'v list \<Rightarrow> ('v \<Rightarrow> 'v list) \<Rightarrow> ('v \<times> 'v) set" where
  "edge_rel nodes succs = {(u, v). u \<in> set nodes \<and> v \<in> set (succs u)}"

definition in_edges :: "'v list \<Rightarrow> ('v \<Rightarrow> 'v list) \<Rightarrow> 'v \<Rightarrow> nat" where
  "in_edges nodes succs v = (\<Sum>u\<leftarrow>nodes. count_list (succs u) v)"

text \<open>A topological order: every predecessor of a listed node is listed before it.\<close>

definition topo_sorted :: "('v \<times> 'v) set \<Rightarrow> 'v list \<Rightarrow> bool" where
  "topo_sorted r vs = (\<forall>xs v ys. vs = xs @ v # ys \<longrightarrow> (\<forall>u. (u, v) \<in> r \<longrightarrow> u \<in> set xs))"

lemma finite_edge_rel [simp]: "finite (edge_rel nodes succs)"
proof -
  have "edge_rel nodes succs = (\<Union>u\<in>set nodes. Pair u ` set (succs u))"
    by (auto simp: edge_rel_def)
  then show ?thesis by simp
qed

lemma topo_sorted_snoc:
  assumes "topo_sorted r vs" and "\<And>u. (u, v) \<in> r \<Longrightarrow> u \<in> set vs"
  shows "topo_sorted r (vs @ [v])"
  unfolding topo_sorted_def
proof (intro allI impI)
  fix xs w ys u assume eq: "vs @ [v] = xs @ w # ys" and uw: "(u, w) \<in> r"
  show "u \<in> set xs"
  proof (cases ys rule: rev_cases)
    case Nil
    then show ?thesis using eq uw assms(2) by simp
  next
    case (snoc ys' y)
    then have "vs = xs @ w # ys'" using eq by simp
    then show ?thesis using assms(1) uw by (auto simp: topo_sorted_def)
  qed
qed

lemma topo_sorted_index:
  assumes "topo_sorted r vs" and "distinct vs" and "i < length vs" and "j < length vs"
    and "(vs ! i, vs ! j) \<in> r"
  shows "i < j"
proof -
  have "vs = take j vs @ vs ! j # drop (Suc j) vs" using assms(4) by (rule id_take_nth_drop)
  then have "vs ! i \<in> set (take j vs)" using assms(1,5) by (metis topo_sorted_def)
  then obtain k where "k < j" "k < length vs" "vs ! k = vs ! i" by (auto simp: in_set_conv_nth)
  then show ?thesis using assms(2,3) by (simp add: nth_eq_iff_index_eq)
qed

lemma topo_sorted_acyclic:
  assumes "topo_sorted r vs" and "distinct vs" and "Field r \<subseteq> set vs"
  shows "acyclic r"
proof (rule acyclic_if_rank [where rank = "\<lambda>v. the (find_index ((=) v) vs)"])
  fix u v assume uv: "(u, v) \<in> r"
  then have "u \<in> set vs" "v \<in> set vs" using assms(3) by (auto simp: Field_def)
  then obtain i j where "find_index ((=) u) vs = Some i" "find_index ((=) v) vs = Some j"
    by (metis find_index_None_iff not_None_eq)
  moreover from this have "i < length vs" "j < length vs" "vs ! i = u" "vs ! j = v"
    by (simp_all add: find_index_Some_iff)
  ultimately show "the (find_index ((=) u) vs) < the (find_index ((=) v) vs)"
    using topo_sorted_index [OF assms(1,2)] uv by simp
qed

section \<open>Correctness over a store of counters\<close>

text \<open>
  The interface: \<open>V\<close> are the keys of the store, \<open>ok\<close> its well-formedness (a
  vector has the right length); a decrement changes the one counter it names.
\<close>

locale counter_store =
  fixes get :: "'s \<Rightarrow> 'v \<Rightarrow> int"
    and dec :: "'s \<Rightarrow> 'v \<Rightarrow> 's"
    and ok :: "'s \<Rightarrow> bool"
    and V :: "'v set"
  assumes get_dec: "ok s \<Longrightarrow> v \<in> V \<Longrightarrow> w \<in> V \<Longrightarrow> get (dec s v) w = (if v = w then get s w - 1 else get s w)"
    and ok_dec: "ok s \<Longrightarrow> v \<in> V \<Longrightarrow> ok (dec s v)"
begin

lemma visit_correct:
  assumes "kahn_visit get dec s ready vs = (s', ready')" and "ok s" and "set vs \<subseteq> V"
    and "\<And>v. v \<in> set vs \<Longrightarrow> int (count_list vs v) \<le> get s v"
  shows "ok s' \<and> (\<forall>v\<in>V. get s' v = get s v - int (count_list vs v)) \<and>
         (\<exists>new. ready' = ready @ new \<and> distinct new \<and>
                set new = {v \<in> set vs. get s v = int (count_list vs v)})"
  using assms
proof (induction vs arbitrary: s ready)
  case Nil
  then show ?case by auto
next
  case (Cons x xs)
  have x: "x \<in> V" and xs: "set xs \<subseteq> V" using Cons.prems by auto
  have get1: "get (dec s x) v = (if x = v then get s v - 1 else get s v)" if "v \<in> V" for v
    using get_dec Cons.prems(2) x that by simp
  have bound: "int (count_list xs v) \<le> get (dec s x) v" if "v \<in> set xs" for v
    using Cons.prems(4) [of v] get1 [of v] xs that by (auto split: if_splits)
  let ?r = "if get (dec s x) x = 0 then ready @ [x] else ready"
  have run: "kahn_visit get dec (dec s x) ?r xs = (s', ready')"
    using Cons.prems(1) by (simp add: Let_def)
  from Cons.IH [OF run ok_dec [OF Cons.prems(2) x] xs bound]
  obtain new where ok: "ok s'" and gets: "\<forall>v\<in>V. get s' v = get (dec s x) v - int (count_list xs v)"
    and new: "ready' = ?r @ new" "distinct new" "set new = {v \<in> set xs. get (dec s x) v = int (count_list xs v)}"
    by blast
  have zero: "get (dec s x) x = 0 \<Longrightarrow> count_list xs x = 0" using bound [of x] by (cases "x \<in> set xs") auto
  define new' where "new' = (if get (dec s x) x = 0 then [x] else []) @ new"
  have "ready' = ready @ new'" using new(1) by (simp add: new'_def)
  moreover have "distinct new'" using new zero by (auto simp: new'_def count_list_0_iff)
  moreover have "set new' = {v \<in> set (x # xs). get s v = int (count_list (x # xs) v)}"
    using new(3) zero get1 [OF x] get1 xs
    by (auto simp: new'_def count_list_0_iff subset_iff split: if_splits)
  moreover have "\<forall>v\<in>V. get s' v = get s v - int (count_list (x # xs) v)"
    using gets get1 by auto
  ultimately show ?case using ok by blast
qed

text \<open>The loop invariant, for nodes \<open>nodes\<close> with successors \<open>succs\<close>.\<close>

definition kahn_inv :: "'v list \<Rightarrow> ('v \<Rightarrow> 'v list) \<Rightarrow> 's \<times> 'v list \<times> 'v list \<Rightarrow> bool" where
  "kahn_inv nodes succs st = (case st of (s, ready, order) \<Rightarrow>
     ok s \<and> distinct (order @ ready) \<and> set (order @ ready) \<subseteq> set nodes \<and>
     topo_sorted (edge_rel nodes succs) order \<and>
     (\<forall>v\<in>set nodes. get s v = (\<Sum>u\<in>set nodes - set order. int (count_list (succs u) v))) \<and>
     (\<forall>v\<in>set nodes. v \<in> set order \<union> set ready \<longleftrightarrow> get s v = 0))"

lemma kahn_invI:
  assumes "ok s" and "distinct (order @ ready)" and "set (order @ ready) \<subseteq> set nodes"
    and "topo_sorted (edge_rel nodes succs) order"
    and "\<And>v. v \<in> set nodes \<Longrightarrow> get s v = (\<Sum>u\<in>set nodes - set order. int (count_list (succs u) v))"
    and "\<And>v. v \<in> set nodes \<Longrightarrow> v \<in> set order \<union> set ready \<longleftrightarrow> get s v = 0"
  shows "kahn_inv nodes succs (s, ready, order)"
  using assms unfolding kahn_inv_def prod.case by blast

lemma kahn_invD:
  assumes "kahn_inv nodes succs (s, ready, order)"
  shows "ok s" and "distinct (order @ ready)" and "set (order @ ready) \<subseteq> set nodes"
    and "topo_sorted (edge_rel nodes succs) order"
    and "v \<in> set nodes \<Longrightarrow> get s v = (\<Sum>u\<in>set nodes - set order. int (count_list (succs u) v))"
    and "v \<in> set nodes \<Longrightarrow> v \<in> set order \<union> set ready \<longleftrightarrow> get s v = 0"
  using assms unfolding kahn_inv_def prod.case by blast+

lemma kahn_inv_init:
  assumes "distinct nodes" and "ok s" and "\<And>v. v \<in> set nodes \<Longrightarrow> get s v = int (in_edges nodes succs v)"
  shows "kahn_inv nodes succs (s, filter (\<lambda>v. get s v = 0) nodes, [])"
  using assms
  by (auto simp: kahn_inv_def topo_sorted_def in_edges_def sum_list_distinct_conv_sum_set of_nat_sum)

lemma kahn_inv_step:
  assumes inv: "kahn_inv nodes succs (s, v # ready, order)" and V: "set nodes \<subseteq> V"
    and closed: "\<And>u. u \<in> set nodes \<Longrightarrow> set (succs u) \<subseteq> set nodes"
  shows "kahn_inv nodes succs (kahn_step get dec succs (s, v # ready, order))"
proof -
  let ?c = "\<lambda>u w. int (count_list (succs u) w)"
  let ?rest = "set nodes - set order"
  obtain s' ready' where visit: "kahn_visit get dec s ready (succs v) = (s', ready')"
    by (cases "kahn_visit get dec s ready (succs v)")
  have ok: "ok s" and dist: "distinct (order @ v # ready)" and sub: "set (order @ v # ready) \<subseteq> set nodes"
    and topo: "topo_sorted (edge_rel nodes succs) order"
    and get: "\<And>w. w \<in> set nodes \<Longrightarrow> get s w = (\<Sum>u\<in>?rest. ?c u w)"
    and zero: "\<And>w. w \<in> set nodes \<Longrightarrow> w \<in> set order \<union> set (v # ready) \<longleftrightarrow> get s w = 0"
    using kahn_invD [OF inv] by blast+
  have v: "v \<in> ?rest" "v \<in> set nodes" "set (succs v) \<subseteq> set nodes" using dist sub closed by auto
  have split: "get s w = ?c v w + (\<Sum>u\<in>set nodes - set (order @ [v]). ?c u w)" if "w \<in> set nodes" for w
  proof -
    have "?rest - {v} = set nodes - set (order @ [v])" by auto
    then show ?thesis using get [OF that] v(1) sum.remove [of ?rest v "\<lambda>u. ?c u w"] by simp
  qed
  have le: "?c v w \<le> get s w" if "w \<in> set nodes" for w
    using split [OF that] by (simp add: sum_nonneg)
  from visit_correct [OF visit ok] v(3) V le
  obtain new where ok': "ok s'" and get': "\<forall>w\<in>V. get s' w = get s w - ?c v w"
    and new: "ready' = ready @ new" "distinct new" "set new = {w \<in> set (succs v). get s w = ?c v w}"
    by (metis (no_types, lifting) subset_eq)
  have fresh: "w \<notin> set order \<union> set (v # ready)" if "w \<in> set new" for w
  proof -
    have "get s w > 0" "w \<in> set nodes" using that new(3) v(3) by (auto simp: count_list_0_iff less_le)
    then show ?thesis using zero by force
  qed
  have preds: "u \<in> set order" if "(u, v) \<in> edge_rel nodes succs" for u
  proof (rule ccontr)
    assume "u \<notin> set order"
    then have "u \<in> ?rest" and "?c u v > 0" using that by (auto simp: edge_rel_def count_list_0_iff less_le)
    then have "(\<Sum>u\<in>?rest. ?c u v) > 0" by (intro sum_pos2 [of _ u]) auto
    then show False using get [OF v(2)] zero [OF v(2)] by simp
  qed
  have zero': "w \<in> set (order @ [v]) \<union> set ready' \<longleftrightarrow> get s' w = 0" if "w \<in> set nodes" for w
  proof -
    have g: "get s' w = get s w - ?c v w" using get' V that by blast
    show ?thesis
    proof (cases "get s w = 0")
      case True
      then have "?c v w = 0" using le [OF that] by simp
      then show ?thesis using g True zero [OF that] new(1) by auto
    next
      case False
      then have "w \<notin> set order \<union> set (v # ready)" using zero [OF that] by simp
      moreover have "w \<in> set new \<longleftrightarrow> get s w = ?c v w"
        using False new(3) by (cases "w \<in> set (succs v)") (auto simp: count_list_0_iff)
      ultimately show ?thesis using g new(1) by auto
    qed
  qed
  have "distinct ((order @ [v]) @ ready')" using dist new fresh by auto
  moreover have "set ((order @ [v]) @ ready') \<subseteq> set nodes" using sub new(1,3) v(3) by auto
  moreover have "get s' w = (\<Sum>u\<in>set nodes - set (order @ [v]). ?c u w)" if "w \<in> set nodes" for w
    using get' split [OF that] V that by (simp add: subset_iff)
  ultimately have "kahn_inv nodes succs (s', ready', order @ [v])"
    using ok' topo_sorted_snoc [OF topo preds] zero' by (intro kahn_invI)
  then show ?thesis by (simp add: visit)
qed

lemma kahn_loop:
  assumes "distinct nodes" and "ok s" and "set nodes \<subseteq> V"
    and "\<And>u. u \<in> set nodes \<Longrightarrow> set (succs u) \<subseteq> set nodes"
    and "\<And>v. v \<in> set nodes \<Longrightarrow> get s v = int (in_edges nodes succs v)"
  shows "\<exists>s' order. while_option kahn_running (kahn_step get dec succs)
           (s, filter (\<lambda>v. get s v = 0) nodes, []) = Some (s', [], order) \<and>
           kahn_inv nodes succs (s', [], order)"
proof -
  let ?P = "kahn_inv nodes succs"
  let ?f = "\<lambda>st. length nodes - length (snd (snd st))"
  let ?st0 = "(s, filter (\<lambda>v. get s v = 0) nodes, [])"
  have step: "?P (kahn_step get dec succs st) \<and> ?f (kahn_step get dec succs st) < ?f st"
    if P: "?P st" and b: "kahn_running st" for st
  proof -
    obtain t v ready order where st: "st = (t, v # ready, order)"
      using b by (cases st) (auto simp: kahn_running_def neq_Nil_conv)
    have d: "distinct (order @ v # ready)" and sub: "set (order @ v # ready) \<subseteq> set nodes"
      using kahn_invD(2,3) P st by blast+
    have "length (order @ v # ready) \<le> length nodes"
      using card_mono [OF finite_set sub] distinct_card [OF d] distinct_card [OF assms(1)] by simp
    then have "length order < length nodes" by simp
    then show ?thesis
      using kahn_inv_step [OF P [unfolded st] assms(3,4)] by (auto simp: st split: prod.splits)
  qed
  have init: "?P ?st0" using kahn_inv_init [OF assms(1,2,5)] .
  obtain t where t: "while_option kahn_running (kahn_step get dec succs) ?st0 = Some t"
    using measure_while_option_Some [of ?P kahn_running "kahn_step get dec succs" ?f, OF step init] by auto
  then have "?P t" using while_option_rule [of ?P, OF _ t init] step by blast
  moreover have "\<not> kahn_running t" using while_option_stop [OF t] .
  ultimately show ?thesis using t by (cases t) (auto simp: kahn_running_def)
qed

lemma kahn_complete_iff:
  assumes inv: "kahn_inv nodes succs (s, [], order)" and "distinct nodes"
    and closed: "\<And>u. u \<in> set nodes \<Longrightarrow> set (succs u) \<subseteq> set nodes"
  shows "length order = length nodes \<longleftrightarrow> acyclic (edge_rel nodes succs)"
proof -
  let ?r = "edge_rel nodes succs"
  have dist: "distinct order" and sub: "set order \<subseteq> set nodes" and topo: "topo_sorted ?r order"
    using kahn_invD(2-4) [OF inv] by simp_all
  have "length order = length nodes \<longleftrightarrow> set order = set nodes"
    using dist sub assms(2) by (metis card_subset_eq distinct_card finite_set)
  also have "\<dots> \<longleftrightarrow> acyclic ?r"
  proof
    assume "set order = set nodes"
    then have "Field ?r \<subseteq> set order" using closed by (auto simp: Field_def edge_rel_def)
    then show "acyclic ?r" using topo_sorted_acyclic topo dist by blast
  next
    assume ac: "acyclic ?r"
    have "\<exists>u\<in>set nodes - set order. (u, v) \<in> ?r" if "v \<in> set nodes - set order" for v
    proof -
      have "get s v = (\<Sum>u\<in>set nodes - set order. int (count_list (succs u) v))"
        using kahn_invD(5) [OF inv] that by blast
      moreover have "get s v \<noteq> 0" using kahn_invD(6) [OF inv, of v] that by simp
      ultimately have "(\<Sum>u\<in>set nodes - set order. int (count_list (succs u) v)) \<noteq> 0" by simp
      then have "\<exists>u\<in>set nodes - set order. int (count_list (succs u) v) \<noteq> 0" by (meson sum.neutral)
      then obtain u where "u \<in> set nodes - set order" "count_list (succs u) v \<noteq> 0" by auto
      then show ?thesis by (auto simp: edge_rel_def count_list_0_iff)
    qed
    then have "set nodes - set order = {}"
      using cyclic_if_no_minimal [OF finite_edge_rel, of "set nodes - set order" nodes succs] ac by metis
    then show "set order = set nodes" using sub by auto
  qed
  finally show ?thesis .
qed

text \<open>
  Kahn's algorithm is totally correct: it ends, lists every node at most once and
  after its predecessors, and lists all of them exactly on acyclic graphs.
\<close>

theorem kahn_correct:
  assumes "distinct nodes" and "ok s" and "set nodes \<subseteq> V"
    and "\<And>u. u \<in> set nodes \<Longrightarrow> set (succs u) \<subseteq> set nodes"
    and "\<And>v. v \<in> set nodes \<Longrightarrow> get s v = int (in_edges nodes succs v)"
  obtains s' order where
    "while_option kahn_running (kahn_step get dec succs) (s, filter (\<lambda>v. get s v = 0) nodes, []) = Some (s', [], order)"
    "distinct order" "set order \<subseteq> set nodes" "topo_sorted (edge_rel nodes succs) order"
    "length order = length nodes \<longleftrightarrow> acyclic (edge_rel nodes succs)"
proof -
  obtain s' order where run: "while_option kahn_running (kahn_step get dec succs)
      (s, filter (\<lambda>v. get s v = 0) nodes, []) = Some (s', [], order)"
    and inv: "kahn_inv nodes succs (s', [], order)"
    using kahn_loop [OF assms] by blast
  have "distinct order" "set order \<subseteq> set nodes" "topo_sorted (edge_rel nodes succs) order"
    using kahn_invD(2-4) [OF inv] by simp_all
  then show thesis using that [OF run] kahn_complete_iff [OF inv assms(1,4)] by blast
qed

end

end
