(* ===== verification/Graphs.thy ===== *)
theory Graphs
  imports Kahn Errors
begin

text \<open>
  \<open>include/ai_pipe/{graph,edge,i_logic_node}.hpp\<close> and \<open>src/graph.cpp\<close>: the mutable
  graph an application assembles.

  A node is a \<open>shared_ptr\<close> to an object that implements the abstract class
  \<open>ILogicNode\<close>; the implementations are application code.  The graph only stores
  the pointers and calls the constant queries of the interface, so a node is an
  address and the implementations are the parameter \<open>ni\<close> that gives the answers
  of these queries per address.  Each hash map of the class is a map, the set of
  edge keys a set, each vector a list.  Every operation returns the graph it
  leaves and its C++ result.

  The invariant \<open>wf_graph\<close> says that the derived containers agree with the node
  and the edge list; every operation keeps it.
\<close>

section \<open>Nodes and edges\<close>

datatype type_index = TypeVoid | TypeId nat

record logic_node =
  getName :: string
  getExpectedInputPorts :: "string list"
  getExpectedOutputPorts :: "string list"
  portPayloadType :: "string \<Rightarrow> type_index"

type_synonym node_env = "ptr \<Rightarrow> logic_node"

record Edge =
  source_node :: ptr
  source_port :: string
  dest_node :: ptr
  dest_port :: string

definition mkEdge :: "ptr \<Rightarrow> string \<Rightarrow> ptr \<Rightarrow> string \<Rightarrow> Edge" where
  "mkEdge s sp d dp = \<lparr> source_node = s, source_port = sp, dest_node = d, dest_port = dp \<rparr>"

section \<open>The graph\<close>

record Graph =
  m_nodes :: "ptr list"
  m_edges :: "Edge list"
  m_nodeMap :: "string \<Rightarrow> ptr option"
  m_adjListOut :: "ptr \<Rightarrow> ptr list option"
  m_adjListIn :: "ptr \<Rightarrow> ptr list option"
  m_inDegree :: "ptr \<Rightarrow> int option"
  m_edgeKeys :: "string set"

definition emptyGraph :: Graph where
  "emptyGraph = \<lparr> m_nodes = [], m_edges = [], m_nodeMap = Map.empty, m_adjListOut = Map.empty,
     m_adjListIn = Map.empty, m_inDegree = Map.empty, m_edgeKeys = {} \<rparr>"

definition addNode :: "node_env \<Rightarrow> Graph \<Rightarrow> ptr option \<Rightarrow> bool \<times> Graph" where
  "addNode ni g node = (case node of
     None \<Rightarrow> (False, g)
   | Some p \<Rightarrow>
       if m_nodeMap g (getName (ni p)) \<noteq> None then (False, g)
       else (True, g \<lparr> m_nodes := m_nodes g @ [p],
                       m_nodeMap := (m_nodeMap g)(getName (ni p) \<mapsto> p),
                       m_adjListOut := (m_adjListOut g)(p \<mapsto> []),
                       m_adjListIn := (m_adjListIn g)(p \<mapsto> []),
                       m_inDegree := (m_inDegree g)(p \<mapsto> 0) \<rparr>))"

definition getNode :: "Graph \<Rightarrow> string \<Rightarrow> ptr option" where
  "getNode g name = (case m_nodeMap g name of Some p \<Rightarrow> Some p | None \<Rightarrow> None)"

definition getNodes :: "Graph \<Rightarrow> ptr list" where
  "getNodes g = m_nodes g"

definition getEdges :: "Graph \<Rightarrow> Edge list" where
  "getEdges g = m_edges g"

definition nul :: char where
  "nul = CHR 0x00"

definition edgeKey :: "string \<Rightarrow> string \<Rightarrow> string \<Rightarrow> string \<Rightarrow> string" where
  "edgeKey source_node_name source_port_name dest_node_name dest_port_name =
     source_node_name @ [nul] @ source_port_name @ [nul] @ dest_node_name @ [nul] @ dest_port_name"

text \<open>\<open>m[k].push_back(x)\<close> on a hash map of vectors: a missing key starts empty.\<close>

definition map_push_back :: "('k \<Rightarrow> 'v list option) \<Rightarrow> 'k \<Rightarrow> 'v \<Rightarrow> ('k \<Rightarrow> 'v list option)" where
  "map_push_back m k x = m(k \<mapsto> (case m k of None \<Rightarrow> [] | Some xs \<Rightarrow> xs) @ [x])"

text \<open>\<open>m[k]\<close> on a hash map of counters: a missing key reads as zero.\<close>

definition map_count :: "('k \<Rightarrow> int option) \<Rightarrow> 'k \<Rightarrow> int" where
  "map_count m k = (case m k of None \<Rightarrow> 0 | Some n \<Rightarrow> n)"

definition addEdge :: "node_env \<Rightarrow> Graph \<Rightarrow> string \<Rightarrow> string \<Rightarrow> string \<Rightarrow> string \<Rightarrow> bool \<times> Graph" where
  "addEdge ni g source_node_name source_port_name dest_node_name dest_port_name =
     (case (getNode g source_node_name, getNode g dest_node_name) of
        (None, _) \<Rightarrow> (False, g)
      | (Some s, None) \<Rightarrow> (False, g)
      | (Some s, Some d) \<Rightarrow>
          (let expected_output_ports = getExpectedOutputPorts (ni s);
               expected_input_ports = getExpectedInputPorts (ni d)
           in if expected_output_ports = [] \<and> source_port_name \<noteq> [] then (False, g)
              else if source_port_name \<noteq> [] \<and> source_port_name \<notin> set expected_output_ports then (False, g)
              else if expected_input_ports = [] \<and> dest_port_name \<noteq> [] then (False, g)
              else if dest_port_name \<noteq> [] \<and> dest_port_name \<notin> set expected_input_ports then (False, g)
              else if source_port_name \<noteq> [] \<and> dest_port_name \<noteq> [] \<and>
                   portPayloadType (ni s) source_port_name \<noteq> TypeVoid \<and>
                   portPayloadType (ni d) dest_port_name \<noteq> TypeVoid \<and>
                   portPayloadType (ni s) source_port_name \<noteq> portPayloadType (ni d) dest_port_name
                then (False, g)
              else let edge_key = edgeKey source_node_name source_port_name dest_node_name dest_port_name
                in if edge_key \<in> m_edgeKeys g then (False, g)
                   else (True, g \<lparr> m_edgeKeys := insert edge_key (m_edgeKeys g),
                           m_edges := m_edges g @ [mkEdge s source_port_name d dest_port_name],
                           m_adjListOut := map_push_back (m_adjListOut g) s d,
                           m_adjListIn := map_push_back (m_adjListIn g) d s,
                           m_inDegree := (m_inDegree g)(d \<mapsto> map_count (m_inDegree g) d + 1) \<rparr>)))"

definition getInDegree :: "Graph \<Rightarrow> ptr option \<Rightarrow> int" where
  "getInDegree g node = (case node of None \<Rightarrow> 0
     | Some p \<Rightarrow> (case m_inDegree g p of Some n \<Rightarrow> n | None \<Rightarrow> 0))"

definition getOutDegree :: "Graph \<Rightarrow> ptr option \<Rightarrow> int" where
  "getOutDegree g node = (case node of None \<Rightarrow> 0
     | Some p \<Rightarrow> (case m_adjListOut g p of Some ns \<Rightarrow> int (length ns) | None \<Rightarrow> 0))"

definition getOutgoingNeighbors :: "Graph \<Rightarrow> ptr option \<Rightarrow> ptr list" where
  "getOutgoingNeighbors g node = (case node of None \<Rightarrow> []
     | Some p \<Rightarrow> (case m_adjListOut g p of Some ns \<Rightarrow> ns | None \<Rightarrow> []))"

definition getIncomingNeighbors :: "Graph \<Rightarrow> ptr option \<Rightarrow> ptr list" where
  "getIncomingNeighbors g node = (case node of None \<Rightarrow> []
     | Some p \<Rightarrow> (case m_adjListIn g p of Some ns \<Rightarrow> ns | None \<Rightarrow> []))"

definition getIncomingEdges :: "Graph \<Rightarrow> ptr option \<Rightarrow> Edge list" where
  "getIncomingEdges g node = filter (\<lambda>e. Some (dest_node e) = node) (m_edges g)"

definition getOutgoingEdges :: "Graph \<Rightarrow> ptr option \<Rightarrow> Edge list" where
  "getOutgoingEdges g node = filter (\<lambda>e. Some (source_node e) = node) (m_edges g)"

section \<open>Cycle detection\<close>

text \<open>The inner \<open>for\<close> loop of \<open>hasCycle\<close>: decrement, and queue the node at zero.\<close>

fun hasCycle_visit :: "(ptr \<Rightarrow> int option) \<Rightarrow> ptr list \<Rightarrow> ptr list \<Rightarrow> (ptr \<Rightarrow> int option) \<times> ptr list" where
  "hasCycle_visit remaining ready [] = (remaining, ready)"
| "hasCycle_visit remaining ready (neighbor # ns) =
     (let n = map_count remaining neighbor - 1
      in hasCycle_visit (remaining(neighbor \<mapsto> n)) (if n = 0 then ready @ [neighbor] else ready) ns)"

text \<open>One iteration of its \<open>while\<close> loop, on (remaining, ready, processed).\<close>

fun hasCycle_step :: "Graph \<Rightarrow> (ptr \<Rightarrow> int option) \<times> ptr list \<times> nat \<Rightarrow> (ptr \<Rightarrow> int option) \<times> ptr list \<times> nat" where
  "hasCycle_step g (remaining, [], processed) = (remaining, [], processed)"
| "hasCycle_step g (remaining, current # ready, processed) =
     (case m_adjListOut g current of
        None \<Rightarrow> (remaining, ready, processed + 1)
      | Some ns \<Rightarrow> (let (remaining', ready') = hasCycle_visit remaining ready ns
                   in (remaining', ready', processed + 1)))"

definition hasCycle :: "Graph \<Rightarrow> bool option" where
  "hasCycle g =
     (let ready = filter (\<lambda>node. case m_inDegree g node of None \<Rightarrow> True | Some n \<Rightarrow> n = 0) (m_nodes g)
      in map_option (\<lambda>(remaining, ready, processed). processed \<noteq> length (m_nodes g))
           (while_option (\<lambda>(remaining, ready, processed). ready \<noteq> []) (hasCycle_step g)
              (m_inDegree g, ready, 0)))"

definition clear_graph :: "Graph \<Rightarrow> Graph" where
  "clear_graph g = g \<lparr> m_edgeKeys := {}, m_nodes := [], m_edges := [], m_nodeMap := Map.empty,
     m_adjListOut := Map.empty, m_adjListIn := Map.empty, m_inDegree := Map.empty \<rparr>"

section \<open>Building a graph\<close>

text \<open>The mutations an application can apply to a graph, in any order.\<close>

datatype graph_op = AddNode "ptr option" | AddEdge string string string string | Clear

fun run_graph_op :: "node_env \<Rightarrow> graph_op \<Rightarrow> Graph \<Rightarrow> Graph" where
  "run_graph_op ni (AddNode p) g = snd (addNode ni g p)"
| "run_graph_op ni (AddEdge s sp d dp) g = snd (addEdge ni g s sp d dp)"
| "run_graph_op ni Clear g = clear_graph g"

definition build_graph :: "node_env \<Rightarrow> graph_op list \<Rightarrow> Graph" where
  "build_graph ni ops = fold (run_graph_op ni) ops emptyGraph"

section \<open>Specification\<close>

definition graph_rel :: "Graph \<Rightarrow> (ptr \<times> ptr) set" where
  "graph_rel g = (\<lambda>e. (source_node e, dest_node e)) ` set (m_edges g)"

definition edge_name_key :: "node_env \<Rightarrow> Edge \<Rightarrow> string" where
  "edge_name_key ni e = edgeKey (getName (ni (source_node e))) (source_port e) (getName (ni (dest_node e))) (dest_port e)"

text \<open>The conditions under which an edge between two nodes of the graph is legal.\<close>

definition edge_ports_ok :: "node_env \<Rightarrow> Edge \<Rightarrow> bool" where
  "edge_ports_ok ni e \<longleftrightarrow>
     (source_port e = [] \<or> source_port e \<in> set (getExpectedOutputPorts (ni (source_node e)))) \<and>
     (dest_port e = [] \<or> dest_port e \<in> set (getExpectedInputPorts (ni (dest_node e)))) \<and>
     (source_port e = [] \<or> dest_port e = [] \<or>
      portPayloadType (ni (source_node e)) (source_port e) = TypeVoid \<or>
      portPayloadType (ni (dest_node e)) (dest_port e) = TypeVoid \<or>
      portPayloadType (ni (source_node e)) (source_port e) = portPayloadType (ni (dest_node e)) (dest_port e))"

definition wf_graph :: "node_env \<Rightarrow> Graph \<Rightarrow> bool" where
  "wf_graph ni g \<longleftrightarrow>
     distinct (map (\<lambda>p. getName (ni p)) (m_nodes g)) \<and>
     (\<forall>name p. m_nodeMap g name = Some p \<longleftrightarrow> p \<in> set (m_nodes g) \<and> getName (ni p) = name) \<and>
     (\<forall>e\<in>set (m_edges g). source_node e \<in> set (m_nodes g) \<and> dest_node e \<in> set (m_nodes g) \<and> edge_ports_ok ni e) \<and>
     (\<forall>p. m_adjListOut g p = (if p \<in> set (m_nodes g)
        then Some (map dest_node (filter (\<lambda>e. source_node e = p) (m_edges g))) else None)) \<and>
     (\<forall>p. m_adjListIn g p = (if p \<in> set (m_nodes g)
        then Some (map source_node (filter (\<lambda>e. dest_node e = p) (m_edges g))) else None)) \<and>
     (\<forall>p. m_inDegree g p = (if p \<in> set (m_nodes g)
        then Some (int (length (filter (\<lambda>e. dest_node e = p) (m_edges g)))) else None)) \<and>
     m_edgeKeys g = edge_name_key ni ` set (m_edges g)"

section \<open>The invariant\<close>

lemmas graph_ops_defs = addNode_def addEdge_def clear_graph_def getNode_def mkEdge_def

lemma getNode_eq [simp]: "getNode g name = m_nodeMap g name"
  by (simp add: getNode_def split: option.splits)

lemma wf_graphD:
  assumes "wf_graph ni g"
  shows "distinct (map (\<lambda>p. getName (ni p)) (m_nodes g))"
    and "m_nodeMap g name = Some p \<longleftrightarrow> p \<in> set (m_nodes g) \<and> getName (ni p) = name"
    and "e \<in> set (m_edges g) \<Longrightarrow> source_node e \<in> set (m_nodes g)"
    and "e \<in> set (m_edges g) \<Longrightarrow> dest_node e \<in> set (m_nodes g)"
    and "e \<in> set (m_edges g) \<Longrightarrow> edge_ports_ok ni e"
    and "m_adjListOut g p = (if p \<in> set (m_nodes g)
        then Some (map dest_node (filter (\<lambda>e. source_node e = p) (m_edges g))) else None)"
    and "m_adjListIn g p = (if p \<in> set (m_nodes g)
        then Some (map source_node (filter (\<lambda>e. dest_node e = p) (m_edges g))) else None)"
    and "m_inDegree g p = (if p \<in> set (m_nodes g)
        then Some (int (length (filter (\<lambda>e. dest_node e = p) (m_edges g)))) else None)"
    and "m_edgeKeys g = edge_name_key ni ` set (m_edges g)"
  using assms by (auto simp: wf_graph_def)

lemma wf_graph_distinct: "wf_graph ni g \<Longrightarrow> distinct (m_nodes g)"
  using wf_graphD(1) distinct_map by blast

lemma wf_graph_inj:
  "wf_graph ni g \<Longrightarrow> p \<in> set (m_nodes g) \<Longrightarrow> q \<in> set (m_nodes g) \<Longrightarrow> getName (ni p) = getName (ni q) \<Longrightarrow> p = q"
  using wf_graphD(1) by (fastforce simp: distinct_map inj_on_def)

lemma wf_emptyGraph [simp]: "wf_graph ni emptyGraph"
  by (simp add: wf_graph_def emptyGraph_def)

lemma wf_clear_graph [simp]: "wf_graph ni (clear_graph g)"
  by (simp add: wf_graph_def clear_graph_def)

text \<open>A node is added exactly when it is not null and its name is new.\<close>

lemma addNode_cases:
  "addNode ni g node = (case node of
     Some p \<Rightarrow> (if m_nodeMap g (getName (ni p)) = None
                then (True, g \<lparr> m_nodes := m_nodes g @ [p],
                       m_nodeMap := (m_nodeMap g)(getName (ni p) \<mapsto> p),
                       m_adjListOut := (m_adjListOut g)(p \<mapsto> []),
                       m_adjListIn := (m_adjListIn g)(p \<mapsto> []),
                       m_inDegree := (m_inDegree g)(p \<mapsto> 0) \<rparr>)
                else (False, g))
   | None \<Rightarrow> (False, g))"
  by (simp add: addNode_def split: option.splits)

lemma wf_addNode:
  assumes wf: "wf_graph ni g"
  shows "wf_graph ni (snd (addNode ni g node))"
proof (cases "\<exists>p. node = Some p \<and> m_nodeMap g (getName (ni p)) = None")
  case False
  then show ?thesis using wf by (auto simp: addNode_cases split: option.splits)
next
  case True
  then obtain p where p: "node = Some p" and new: "m_nodeMap g (getName (ni p)) = None" by blast
  have fresh: "getName (ni q) \<noteq> getName (ni p)" if "q \<in> set (m_nodes g)" for q
    using wf_graphD(2) [OF wf, of "getName (ni p)" q] new that by auto
  then have "p \<notin> set (m_nodes g)" by auto
  moreover have "source_node e \<noteq> p" "dest_node e \<noteq> p" if "e \<in> set (m_edges g)" for e
    using wf_graphD(3,4) [OF wf that] \<open>p \<notin> set (m_nodes g)\<close> by auto
  then have "filter (\<lambda>e. source_node e = p) (m_edges g) = []" "filter (\<lambda>e. dest_node e = p) (m_edges g) = []"
    by (auto simp: filter_empty_conv)
  ultimately show ?thesis
    using wf fresh fresh [symmetric] unfolding p addNode_cases
    by (auto simp: new wf_graph_def image_iff)
qed

lemma wf_addEdge_accept:
  assumes wf: "wf_graph ni g" and s: "m_nodeMap g sn = Some s" and d: "m_nodeMap g dn = Some d"
    and ports: "edge_ports_ok ni (mkEdge s sp d dp)"
  shows "wf_graph ni (g \<lparr> m_edgeKeys := insert (edgeKey sn sp dn dp) (m_edgeKeys g),
                         m_edges := m_edges g @ [mkEdge s sp d dp],
                         m_adjListOut := map_push_back (m_adjListOut g) s d,
                         m_adjListIn := map_push_back (m_adjListIn g) d s,
                         m_inDegree := (m_inDegree g)(d \<mapsto> map_count (m_inDegree g) d + 1) \<rparr>)"
proof -
  have sd: "s \<in> set (m_nodes g)" "d \<in> set (m_nodes g)" and names: "getName (ni s) = sn" "getName (ni d) = dn"
    using wf_graphD(2) [OF wf] s d by auto
  have "edge_name_key ni (mkEdge s sp d dp) = edgeKey sn sp dn dp"
    by (simp add: edge_name_key_def mkEdge_def names)
  then show ?thesis
    using wf sd ports by (auto simp: wf_graph_def map_push_back_def map_count_def mkEdge_def)
qed

text \<open>
  The result of \<open>addEdge\<close> in one equation: the edge is appended when both nodes
  exist, its ports are declared with compatible payload types and its key is new.
\<close>

lemma addEdge_cases:
  "addEdge ni g sn sp dn dp =
     (case (m_nodeMap g sn, m_nodeMap g dn) of
        (Some s, Some d) \<Rightarrow>
          if edge_ports_ok ni (mkEdge s sp d dp) \<and> edgeKey sn sp dn dp \<notin> m_edgeKeys g
          then (True, g \<lparr> m_edgeKeys := insert (edgeKey sn sp dn dp) (m_edgeKeys g),
                         m_edges := m_edges g @ [mkEdge s sp d dp],
                         m_adjListOut := map_push_back (m_adjListOut g) s d,
                         m_adjListIn := map_push_back (m_adjListIn g) d s,
                         m_inDegree := (m_inDegree g)(d \<mapsto> map_count (m_inDegree g) d + 1) \<rparr>)
          else (False, g)
      | _ \<Rightarrow> (False, g))"
  by (auto simp: addEdge_def Let_def edge_ports_ok_def mkEdge_def split: option.splits)

lemma wf_addEdge:
  assumes "wf_graph ni g"
  shows "wf_graph ni (snd (addEdge ni g sn sp dn dp))"
  using assms wf_addEdge_accept [OF assms] by (auto simp: addEdge_cases split: option.splits)

lemma wf_run_graph_op: "wf_graph ni g \<Longrightarrow> wf_graph ni (run_graph_op ni op g)"
  by (cases op) (auto simp: wf_addNode wf_addEdge)

lemma wf_build_graph [simp]: "wf_graph ni (build_graph ni ops)"
proof -
  have "wf_graph ni (fold (run_graph_op ni) ops g)" if "wf_graph ni g" for g
    using that by (induction ops arbitrary: g) (auto simp: wf_run_graph_op)
  then show ?thesis by (simp add: build_graph_def)
qed

section \<open>Cycle detection decides acyclicity\<close>

interpretation in_degree_map: counter_store
  "map_count" "\<lambda>m v. m(v \<mapsto> map_count m v - 1)" "\<lambda>_. True" UNIV
  by unfold_locales (auto simp: map_count_def)

abbreviation graph_succs :: "Graph \<Rightarrow> ptr \<Rightarrow> ptr list" where
  "graph_succs g p \<equiv> getOutgoingNeighbors g (Some p)"

lemma hasCycle_visit_kahn:
  "hasCycle_visit remaining ready ns = kahn_visit map_count (\<lambda>m v. m(v \<mapsto> map_count m v - 1)) remaining ready ns"
  by (induction ns arbitrary: remaining ready) (simp_all add: map_count_def)

lemma hasCycle_step_kahn:
  "hasCycle_step g (remaining, ready, length order) =
     (case kahn_step map_count (\<lambda>m v. m(v \<mapsto> map_count m v - 1)) (graph_succs g) (remaining, ready, order)
      of (remaining', ready', order') \<Rightarrow> (remaining', ready', length order'))"
  by (cases ready) (auto simp: getOutgoingNeighbors_def hasCycle_visit_kahn split: option.splits prod.splits)

lemma graph_succs_wf:
  assumes "wf_graph ni g"
  shows "graph_succs g p = map dest_node (filter (\<lambda>e. source_node e = p) (m_edges g))"
proof (cases "p \<in> set (m_nodes g)")
  case False
  then have "filter (\<lambda>e. source_node e = p) (m_edges g) = []"
    using wf_graphD(3) [OF assms] by (auto simp: filter_empty_conv)
  then show ?thesis using wf_graphD(6) [OF assms, of p] False by (simp add: getOutgoingNeighbors_def)
qed (simp add: getOutgoingNeighbors_def wf_graphD(6) [OF assms])

lemma sum_over_sources:
  assumes "distinct nodes" and "\<And>e. e \<in> set es \<Longrightarrow> source_node e \<in> set nodes"
  shows "(\<Sum>u\<leftarrow>nodes. length (filter (\<lambda>e. source_node e = u \<and> P e) es)) = length (filter P es)"
  using assms(2)
proof (induction es)
  case (Cons e es)
  have "(\<Sum>u\<leftarrow>nodes. length (filter (\<lambda>e. source_node e = u \<and> P e) (e # es)))
      = (\<Sum>u\<leftarrow>nodes. (if source_node e = u \<and> P e then 1 else 0)
                    + length (filter (\<lambda>e. source_node e = u \<and> P e) es))"
    by (intro arg_cong [where f = sum_list] map_cong) auto
  also have "\<dots> = (\<Sum>u\<leftarrow>nodes. if source_node e = u \<and> P e then 1 else 0) + length (filter P es)"
    using Cons by (simp add: sum_list_addf)
  also have "(\<Sum>u\<leftarrow>nodes. if source_node e = u \<and> P e then 1 else 0) = (if P e then 1 else (0::nat))"
    using Cons.prems assms(1) by (simp add: sum_list_distinct_conv_sum_set)
  finally show ?case by simp
qed simp

lemma wf_in_edges:
  assumes wf: "wf_graph ni g" and "p \<in> set (m_nodes g)"
  shows "map_count (m_inDegree g) p = int (in_edges (m_nodes g) (graph_succs g) p)"
proof -
  have "in_edges (m_nodes g) (graph_succs g) p = length (filter (\<lambda>e. dest_node e = p) (m_edges g))"
    using sum_over_sources [OF wf_graph_distinct [OF wf] wf_graphD(3) [OF wf], of "m_edges g" "\<lambda>e. dest_node e = p"]
    by (simp add: in_edges_def graph_succs_wf [OF wf] count_list_map_filter)
  then show ?thesis using assms by (simp add: map_count_def wf_graphD(8))
qed

lemma wf_edge_rel:
  assumes wf: "wf_graph ni g"
  shows "edge_rel (m_nodes g) (graph_succs g) = graph_rel g"
  using wf_graphD(3) [OF wf]
  by (force simp: edge_rel_def graph_rel_def graph_succs_wf [OF wf])

lemma hasCycle_wf:
  assumes wf: "wf_graph ni g"
  shows "hasCycle g = Some (\<not> acyclic (graph_rel g))"
proof -
  let ?dec = "\<lambda>(m::ptr \<Rightarrow> int option) v. m(v \<mapsto> map_count m v - 1)"
  let ?f = "\<lambda>(remaining :: ptr \<Rightarrow> int option, ready :: ptr list, order :: ptr list). (remaining, ready, length order)"
  let ?ready = "filter (\<lambda>v. map_count (m_inDegree g) v = 0) (m_nodes g)"
  have closed: "set (graph_succs g u) \<subseteq> set (m_nodes g)" if "u \<in> set (m_nodes g)" for u
    using wf_graphD(4) [OF wf] by (auto simp: graph_succs_wf [OF wf])
  obtain rem order where
    run: "while_option kahn_running (kahn_step map_count ?dec (graph_succs g)) (m_inDegree g, ?ready, []) = Some (rem, [], order)"
    and "distinct order" "set order \<subseteq> set (m_nodes g)" "topo_sorted (edge_rel (m_nodes g) (graph_succs g)) order"
    and len: "length order = length (m_nodes g) \<longleftrightarrow> acyclic (edge_rel (m_nodes g) (graph_succs g))"
    using in_degree_map.kahn_correct [OF wf_graph_distinct [OF wf] TrueI subset_UNIV closed wf_in_edges [OF wf]] .
  have "map_option ?f (while_option kahn_running (kahn_step map_count ?dec (graph_succs g)) (m_inDegree g, ?ready, []))
      = while_option (\<lambda>(remaining, ready, processed). ready \<noteq> []) (hasCycle_step g) (?f (m_inDegree g, ?ready, []))"
    by (rule while_option_commute) (auto simp: kahn_running_def hasCycle_step_kahn split: prod.splits)
  then have "while_option (\<lambda>(remaining, ready, processed). ready \<noteq> []) (hasCycle_step g) (m_inDegree g, ?ready, 0)
      = Some (rem, [], length order)"
    by (simp add: run)
  moreover have "filter (\<lambda>node. case m_inDegree g node of None \<Rightarrow> True | Some n \<Rightarrow> n = 0) (m_nodes g) = ?ready"
    by (intro filter_cong) (auto simp: map_count_def split: option.splits)
  ultimately show ?thesis by (simp add: hasCycle_def len wf_edge_rel [OF wf])
qed

section \<open>Edge keys\<close>

text \<open>
  The duplicate test compares keys, not edges.  Keys are faithful for names
  without NUL characters: the nodes' names and declared ports.
\<close>

definition nul_free_nodes :: "node_env \<Rightarrow> Graph \<Rightarrow> bool" where
  "nul_free_nodes ni g \<longleftrightarrow> (\<forall>p\<in>set (m_nodes g).
     nul \<notin> set (getName (ni p)) \<and>
     (\<forall>q\<in>set (getExpectedInputPorts (ni p)) \<union> set (getExpectedOutputPorts (ni p)). nul \<notin> set q))"

definition nul_free_edge :: "node_env \<Rightarrow> Edge \<Rightarrow> bool" where
  "nul_free_edge ni e \<longleftrightarrow> nul \<notin> set (getName (ni (source_node e))) \<and> nul \<notin> set (source_port e) \<and>
     nul \<notin> set (getName (ni (dest_node e))) \<and> nul \<notin> set (dest_port e)"

lemma nul_free_edgeI:
  assumes "nul_free_nodes ni g" and "source_node e \<in> set (m_nodes g)" and "dest_node e \<in> set (m_nodes g)"
    and "edge_ports_ok ni e"
  shows "nul_free_edge ni e"
  using assms by (fastforce simp: nul_free_nodes_def nul_free_edge_def edge_ports_ok_def)

lemma edge_name_key_inject:
  assumes "nul_free_edge ni e" and "nul_free_edge ni e'"
    and inj: "getName (ni (source_node e)) = getName (ni (source_node e')) \<Longrightarrow> source_node e = source_node e'"
      "getName (ni (dest_node e)) = getName (ni (dest_node e')) \<Longrightarrow> dest_node e = dest_node e'"
  shows "edge_name_key ni e = edge_name_key ni e' \<longleftrightarrow> e = e'"
  using assms by (cases e; cases e')
    (auto simp: edge_name_key_def edgeKey_def nul_free_edge_def append_sep_inject)

lemma wf_edge_key_member:
  assumes wf: "wf_graph ni g" and nf: "nul_free_nodes ni g"
    and e: "source_node e \<in> set (m_nodes g)" "dest_node e \<in> set (m_nodes g)" "edge_ports_ok ni e"
  shows "edge_name_key ni e \<in> m_edgeKeys g \<longleftrightarrow> e \<in> set (m_edges g)"
proof -
  have "edge_name_key ni e = edge_name_key ni e' \<longleftrightarrow> e = e'" if "e' \<in> set (m_edges g)" for e'
    using wf_graphD(3-5) [OF wf that] e wf_graph_inj [OF wf]
    by (intro edge_name_key_inject nul_free_edgeI [OF nf]) auto
  then show ?thesis by (auto simp: wf_graphD(9) [OF wf])
qed

text \<open>A two-node environment used to evaluate the operations.\<close>

definition demo_env :: node_env where
  "demo_env p = (if p = 0
     then \<lparr> getName = ''a'', getExpectedInputPorts = [], getExpectedOutputPorts = [''o''], portPayloadType = \<lambda>_. TypeVoid \<rparr>
     else \<lparr> getName = ''b'', getExpectedInputPorts = [''i''], getExpectedOutputPorts = [''o''], portPayloadType = \<lambda>_. TypeVoid \<rparr>)"

section \<open>Properties\<close>

text \<open>
  C1. Every graph an application can build, by any sequence of \<open>addNode\<close>, \<open>addEdge\<close>
  and \<open>clear\<close> calls, is well formed: node names are unique, the name index, the two
  adjacency lists, the in-degrees and the edge keys agree with the node and edge
  lists, and every stored edge joins two nodes of the graph over declared,
  type-compatible ports.
\<close>

theorem graph_ops_wf: "wf_graph ni (build_graph ni ops)"
  by (rule wf_build_graph)

text \<open>
  C2. \<open>Graph::hasCycle\<close> is totally correct on every graph that can be built: its
  loop ends and the answer is \<open>true\<close> exactly when some node reaches itself along
  one or more edges.
\<close>

theorem hasCycle_decides:
  "hasCycle (build_graph ni ops) = Some (\<exists>p. (p, p) \<in> (graph_rel (build_graph ni ops))\<^sup>+)"
  using hasCycle_wf [OF wf_build_graph] by (auto simp: acyclic_def)

text \<open>
  C3. \<open>Graph::addEdge\<close> accepts exactly the new legal edges: both named nodes exist,
  the ports are empty or declared, typed ports agree, and the edge is not yet in
  the graph.  An accepted edge is appended; a rejected one leaves the graph as it
  was.  (Names and declared ports are free of NUL characters.)
\<close>

theorem addEdge_accepts:
  assumes "wf_graph ni g" and "nul_free_nodes ni g" and "addEdge ni g sn sp dn dp = (ok, g')"
  shows "(ok \<longleftrightarrow> (\<exists>s\<in>set (m_nodes g). \<exists>d\<in>set (m_nodes g). getName (ni s) = sn \<and> getName (ni d) = dn \<and>
                edge_ports_ok ni (mkEdge s sp d dp) \<and> mkEdge s sp d dp \<notin> set (m_edges g))) \<and>
         m_nodes g' = m_nodes g \<and>
         (if ok then \<exists>e. m_edges g' = m_edges g @ [e] \<and> getName (ni (source_node e)) = sn \<and>
                      source_port e = sp \<and> getName (ni (dest_node e)) = dn \<and> dest_port e = dp
          else g' = g)" (is "(_ \<longleftrightarrow> ?legal) \<and> _ \<and> ?effect")
proof -
  have key: "edgeKey sn sp dn dp = edge_name_key ni (mkEdge s sp d dp)"
    if "getName (ni s) = sn" "getName (ni d) = dn" for s d
    using that by (simp add: edge_name_key_def mkEdge_def)
  have mem: "edgeKey sn sp dn dp \<in> m_edgeKeys g \<longleftrightarrow> mkEdge s sp d dp \<in> set (m_edges g)"
    if "s \<in> set (m_nodes g)" "d \<in> set (m_nodes g)" "getName (ni s) = sn" "getName (ni d) = dn"
      "edge_ports_ok ni (mkEdge s sp d dp)" for s d
    using wf_edge_key_member [OF assms(1,2), of "mkEdge s sp d dp"] that key by (simp add: mkEdge_def)
  note lookup = wf_graphD(2) [OF assms(1)]
  have acc: "?legal \<longleftrightarrow> (\<exists>s d. m_nodeMap g sn = Some s \<and> m_nodeMap g dn = Some d \<and>
      edge_ports_ok ni (mkEdge s sp d dp) \<and> edgeKey sn sp dn dp \<notin> m_edgeKeys g)"
    using mem by (auto simp: lookup)
  have names: "m_nodeMap g n = Some p \<Longrightarrow> getName (ni p) = n" for n p using lookup by blast
  have "ok \<longleftrightarrow> ?legal" using assms(3) unfolding acc
    by (auto simp: addEdge_cases split: option.splits if_splits)
  moreover have "m_nodes g' = m_nodes g"
    using assms(3) by (auto simp: addEdge_cases split: option.splits if_splits)
  moreover have ?effect
    using assms(3) by (auto simp: addEdge_cases mkEdge_def names split: option.splits if_splits)
  ultimately show ?thesis by blast
qed

theorem addEdge_accepts_witness:
  "let g = build_graph demo_env [AddNode (Some 0), AddNode (Some 1)]
   in fst (addEdge demo_env g ''a'' ''o'' ''b'' ''i'') \<longleftrightarrow>
      (\<exists>s\<in>set (m_nodes g). \<exists>d\<in>set (m_nodes g). getName (demo_env s) = ''a'' \<and> getName (demo_env d) = ''b'' \<and>
         edge_ports_ok demo_env (mkEdge s ''o'' d ''i'') \<and> mkEdge s ''o'' d ''i'' \<notin> set (m_edges g))"
proof -
  have nf: "nul_free_nodes demo_env (build_graph demo_env [AddNode (Some 0), AddNode (Some 1)])"
    by (simp add: nul_free_nodes_def build_graph_def addNode_def emptyGraph_def demo_env_def nul_def)
  show ?thesis
    using addEdge_accepts [OF wf_build_graph nf surjective_pairing] unfolding Let_def by blast
qed

text \<open>
  C4. The adjacency queries agree with the edge list on every graph that can be
  built: the degrees count the incoming and outgoing edges, and the neighbours are
  the far ends of these edges, in insertion order and with multiplicity.
\<close>

theorem adjacency_queries:
  "let g = build_graph ni ops in
     getInDegree g p = int (length (getIncomingEdges g p)) \<and>
     getOutDegree g p = int (length (getOutgoingEdges g p)) \<and>
     getOutgoingNeighbors g p = map dest_node (getOutgoingEdges g p) \<and>
     getIncomingNeighbors g p = map source_node (getIncomingEdges g p)"
proof -
  define g where "g = build_graph ni ops"
  have wf: "wf_graph ni g" by (simp add: g_def)
  have none: "filter (\<lambda>e. source_node e = q) (m_edges g) = []" "filter (\<lambda>e. dest_node e = q) (m_edges g) = []"
    if "q \<notin> set (m_nodes g)" for q
    using that wf_graphD(3,4) [OF wf] by (auto simp: filter_empty_conv)
  show ?thesis
    by (cases p) (simp_all add: getInDegree_def getOutDegree_def getOutgoingNeighbors_def getIncomingNeighbors_def
        getIncomingEdges_def getOutgoingEdges_def wf_graphD(6-8) [OF wf] none Let_def flip: g_def)
qed

text \<open>
  With NUL characters in a port name the composite key is ambiguous: here two
  different legal edges have the same key, and the second is rejected as a
  duplicate.
\<close>

definition nul_env :: node_env where
  "nul_env p = (if p = 0
     then \<lparr> getName = ''a'', getExpectedInputPorts = [], getExpectedOutputPorts = [''p'', ''p'' @ [nul] @ ''b''],
            portPayloadType = \<lambda>_. TypeVoid \<rparr>
     else if p = 1
     then \<lparr> getName = ''b'' @ [nul] @ ''c'', getExpectedInputPorts = [''d''], getExpectedOutputPorts = [],
            portPayloadType = \<lambda>_. TypeVoid \<rparr>
     else \<lparr> getName = ''c'', getExpectedInputPorts = [''d''], getExpectedOutputPorts = [], portPayloadType = \<lambda>_. TypeVoid \<rparr>)"

lemma addEdge_nul_collision:
  "let g = build_graph nul_env [AddNode (Some 0), AddNode (Some 1), AddNode (Some 2),
             AddEdge ''a'' ''p'' (''b'' @ [nul] @ ''c'') ''d''];
       e = mkEdge 0 (''p'' @ [nul] @ ''b'') 2 ''d''
   in edge_ports_ok nul_env e \<and> e \<notin> set (m_edges g) \<and>
      fst (addEdge nul_env g ''a'' (''p'' @ [nul] @ ''b'') ''c'' ''d'') = False"
  by (simp add: build_graph_def addNode_def addEdge_def emptyGraph_def nul_env_def edge_ports_ok_def
      mkEdge_def edgeKey_def nul_def)

end
