(* ===== verification/Compiled_Graphs.thy ===== *)
theory Compiled_Graphs
  imports Graphs
begin

text \<open>
  \<open>include/ai_pipe/compiled_graph.hpp\<close>: the immutable, indexed view of a graph the
  engine runs on.  \<open>compile\<close> numbers the nodes in insertion order, turns the edge
  list into per-node routing tables, sorts the nodes topologically and validates
  connectivity.

  \<open>NodeIndex\<close> is \<open>uint32_t\<close>: the narrowing casts of the sizes are written with
  \<open>u32\<close>, and \<open>compile_fits\<close> is the size assumption under which they are exact.
  The result is wrapped in \<open>option\<close> because the topological sort is a \<open>while\<close>
  loop; the theorems show that it always ends.
\<close>

section \<open>Data\<close>

definition k_invalid_index :: nat where
  "k_invalid_index = 2 ^ 32 - 1"

definition k_invalid_port :: nat where
  "k_invalid_port = 2 ^ 32 - 1"

record OutEdge =
  oe_source_port :: string
  oe_dest_node :: nat
  oe_dest_port :: string
  oe_dest_port_index :: nat

record CompiledGraph =
  cg_nodes :: "ptr list"
  cg_nameToIndex :: "string \<Rightarrow> nat option"
  cg_ptrToIndex :: "ptr \<Rightarrow> nat option"
  cg_outEdges :: "OutEdge list list"
  cg_successors :: "nat list list"
  cg_predecessors :: "nat list list"
  cg_inDegree :: "int list"
  cg_topoOrder :: "nat list"
  cg_sourceNodes :: "nat list"
  cg_sinkNodes :: "nat list"

section \<open>Lookups and topology queries\<close>

definition indexOf :: "CompiledGraph \<Rightarrow> string \<Rightarrow> nat" where
  "indexOf cg name = (case cg_nameToIndex cg name of Some i \<Rightarrow> i | None \<Rightarrow> k_invalid_index)"

definition indexOfPtr :: "CompiledGraph \<Rightarrow> ptr \<Rightarrow> nat" where
  "indexOfPtr cg node = (case cg_ptrToIndex cg node of Some i \<Rightarrow> i | None \<Rightarrow> k_invalid_index)"

definition nodeCount :: "CompiledGraph \<Rightarrow> nat" where
  "nodeCount cg = length (cg_nodes cg)"

definition isSource :: "CompiledGraph \<Rightarrow> nat \<Rightarrow> bool" where
  "isSource cg index = (cg_inDegree cg ! index = 0)"

definition isSink :: "CompiledGraph \<Rightarrow> nat \<Rightarrow> bool" where
  "isSink cg index = (cg_outEdges cg ! index = [])"

section \<open>compile\<close>

text \<open>The vectors sized by \<open>node_count\<close> and the two index maps (lines 59 to 71).\<close>

definition compile_init :: "node_env \<Rightarrow> Graph \<Rightarrow> CompiledGraph" where
  "compile_init ni g =
     (let nodes = getNodes g; node_count = u32 (length nodes)
      in \<lparr> cg_nodes = nodes,
           cg_nameToIndex = index_map (\<lambda>p. getName (ni p)) nodes node_count,
           cg_ptrToIndex = index_map (\<lambda>p. p) nodes node_count,
           cg_outEdges = replicate node_count [],
           cg_successors = replicate node_count [],
           cg_predecessors = replicate node_count [],
           cg_inDegree = replicate node_count 0,
           cg_topoOrder = [], cg_sourceNodes = [], cg_sinkNodes = [] \<rparr>)"

definition compile_input_ports :: "node_env \<Rightarrow> Graph \<Rightarrow> string list list" where
  "compile_input_ports ni g =
     map (\<lambda>i. getExpectedInputPorts (ni (getNodes g ! i))) [0..<u32 (length (getNodes g))]"

text \<open>
  One iteration of the edge loop (lines 82 to 112), on the graph under
  construction and the coverage table; \<open>None\<close> is the early return with
  \<open>InternalError\<close>.
\<close>

definition compile_edge :: "string list list \<Rightarrow> Edge \<Rightarrow> CompiledGraph \<times> bool list list
    \<Rightarrow> (CompiledGraph \<times> bool list list) option" where
  "compile_edge input_ports edge st = (case st of (cg, port_covered) \<Rightarrow>
     (let src = indexOfPtr cg (source_node edge); dst = indexOfPtr cg (dest_node edge)
      in if src = k_invalid_index \<or> dst = k_invalid_index then None
         else let ports = input_ports ! dst;
                  found = find_index (\<lambda>p. p = dest_port edge) (take (u32 (length ports)) ports);
                  dest_port_index = (case found of Some pi \<Rightarrow> pi | None \<Rightarrow> k_invalid_port);
                  port_covered' = (case found of
                     Some pi \<Rightarrow> port_covered[dst := (port_covered ! dst)[pi := True]]
                   | None \<Rightarrow> port_covered);
                  out = \<lparr> oe_source_port = source_port edge, oe_dest_node = dst,
                          oe_dest_port = dest_port edge, oe_dest_port_index = dest_port_index \<rparr>
              in Some (cg \<lparr> cg_outEdges := (cg_outEdges cg)[src := cg_outEdges cg ! src @ [out]],
                            cg_inDegree := (cg_inDegree cg)[dst := cg_inDegree cg ! dst + 1],
                            cg_successors := (cg_successors cg)[src := push_unique dst (cg_successors cg ! src)],
                            cg_predecessors := (cg_predecessors cg)[dst := push_unique src (cg_predecessors cg ! dst)] \<rparr>,
                       port_covered')))"

fun compile_edges :: "string list list \<Rightarrow> Edge list \<Rightarrow> CompiledGraph \<times> bool list list
    \<Rightarrow> (CompiledGraph \<times> bool list list) option" where
  "compile_edges input_ports [] st = Some st"
| "compile_edges input_ports (edge # edges) st =
     (case compile_edge input_ports edge st of
        None \<Rightarrow> None
      | Some st' \<Rightarrow> compile_edges input_ports edges st')"

text \<open>The topological sort (lines 115 to 134), on (remaining, ready, order).\<close>

fun compile_visit :: "int list \<Rightarrow> nat list \<Rightarrow> OutEdge list \<Rightarrow> int list \<times> nat list" where
  "compile_visit remaining ready [] = (remaining, ready)"
| "compile_visit remaining ready (out # outs) =
     (let d = oe_dest_node out; remaining' = remaining[d := remaining ! d - 1]
      in compile_visit remaining' (if remaining' ! d = 0 then ready @ [d] else ready) outs)"

fun compile_topo_step :: "CompiledGraph \<Rightarrow> int list \<times> nat list \<times> nat list \<Rightarrow> int list \<times> nat list \<times> nat list" where
  "compile_topo_step cg (remaining, [], order) = (remaining, [], order)"
| "compile_topo_step cg (remaining, current # ready, order) =
     (let (remaining', ready') = compile_visit remaining ready (cg_outEdges cg ! current)
      in (remaining', ready', order @ [current]))"

definition compile_topo :: "CompiledGraph \<Rightarrow> nat \<Rightarrow> nat list option" where
  "compile_topo cg node_count =
     map_option (\<lambda>(remaining, ready, order). order)
       (while_option (\<lambda>(remaining, ready, order). ready \<noteq> []) (compile_topo_step cg)
          (cg_inDegree cg, filter (\<lambda>i. cg_inDegree cg ! i = 0) [0..<node_count], []))"

text \<open>The connectivity scan (lines 156 to 170): the first uncovered input port, if any.\<close>

definition compile_uncovered :: "string list list \<Rightarrow> CompiledGraph \<Rightarrow> bool list list \<Rightarrow> nat \<Rightarrow> (nat \<times> nat) list" where
  "compile_uncovered input_ports cg port_covered node_count =
     concat (map (\<lambda>i. if cg_inDegree cg ! i = 0 then []
                      else map (Pair i) (filter (\<lambda>pi. \<not> port_covered ! i ! pi) [0..<length (input_ports ! i)]))
                 [0..<node_count])"

definition compile :: "node_env \<Rightarrow> Graph \<Rightarrow> CompiledGraph result option" where
  "compile ni g =
     (if getNodes g = [] then Some (err GraphEmpty ''Graph has no nodes'')
      else let node_count = u32 (length (getNodes g));
               input_ports = compile_input_ports ni g;
               port_covered = map (\<lambda>ports. replicate (length ports) False) input_ports
        in case compile_edges input_ports (getEdges g) (compile_init ni g, port_covered) of
             None \<Rightarrow> Some (err InternalError ''Edge references a node that is not in the graph'')
           | Some (cg, port_covered) \<Rightarrow>
               (case compile_topo cg node_count of
                  None \<Rightarrow> None
                | Some order \<Rightarrow>
                    if length order \<noteq> node_count
                    then Some (err GraphCycleDetected ''Graph contains a cycle'')
                    else let cg = cg \<lparr> cg_topoOrder := order,
                                       cg_sourceNodes := filter (\<lambda>i. cg_inDegree cg ! i = 0) [0..<node_count],
                                       cg_sinkNodes := filter (\<lambda>i. cg_outEdges cg ! i = []) [0..<node_count] \<rparr>
                      in case compile_uncovered input_ports cg port_covered node_count of
                           (i, pi) # _ \<Rightarrow>
                             Some (err_at InvalidConfiguration
                               (''Input port '' @ [CHR 0x27] @ input_ports ! i ! pi @ [CHR 0x27] @ '' of node '' @ [CHR 0x27]
                                @ getName (ni (getNodes g ! i)) @ [CHR 0x27]
                                @ '' has no incoming edge; the node could never execute'')
                               (getName (ni (getNodes g ! i))))
                         | [] \<Rightarrow> Some (ResOk cg)))"

section \<open>Specification\<close>

definition compile_fits :: "node_env \<Rightarrow> Graph \<Rightarrow> bool" where
  "compile_fits ni g \<longleftrightarrow> length (m_nodes g) < 2 ^ 32 \<and>
     (\<forall>p\<in>set (m_nodes g). length (getExpectedInputPorts (ni p)) < 2 ^ 32)"

text \<open>The number of a node and the port number of an edge's destination.\<close>

definition node_index :: "Graph \<Rightarrow> ptr \<Rightarrow> nat" where
  "node_index g p = the (index_map (\<lambda>p. p) (m_nodes g) (length (m_nodes g)) p)"

definition port_index :: "node_env \<Rightarrow> Edge \<Rightarrow> nat option" where
  "port_index ni e = find_index (\<lambda>p. p = dest_port e) (getExpectedInputPorts (ni (dest_node e)))"

definition routed_edge :: "node_env \<Rightarrow> Graph \<Rightarrow> Edge \<Rightarrow> OutEdge" where
  "routed_edge ni g e = \<lparr> oe_source_port = source_port e, oe_dest_node = node_index g (dest_node e),
     oe_dest_port = dest_port e,
     oe_dest_port_index = (case port_index ni e of Some pi \<Rightarrow> pi | None \<Rightarrow> k_invalid_port) \<rparr>"

text \<open>A node with upstream edges whose declared port \<open>pi\<close> no edge reaches.\<close>

definition starved_port :: "node_env \<Rightarrow> Graph \<Rightarrow> ptr \<Rightarrow> nat \<Rightarrow> bool" where
  "starved_port ni g p pi \<longleftrightarrow> p \<in> set (m_nodes g) \<and> (\<exists>e\<in>set (m_edges g). dest_node e = p) \<and>
     pi < length (getExpectedInputPorts (ni p)) \<and>
     (\<forall>e\<in>set (m_edges g). dest_node e = p \<longrightarrow> port_index ni e \<noteq> Some pi)"

definition uniq :: "'a list \<Rightarrow> 'a list" where
  "uniq xs = fold push_unique xs []"

text \<open>The tables after the first edges \<open>es\<close> of the graph have been processed.\<close>

definition compiled_upto :: "node_env \<Rightarrow> Graph \<Rightarrow> Edge list \<Rightarrow> CompiledGraph" where
  "compiled_upto ni g es = (compile_init ni g) \<lparr>
     cg_outEdges := map (\<lambda>p. map (routed_edge ni g) (filter (\<lambda>e. source_node e = p) es)) (m_nodes g),
     cg_successors := map (\<lambda>p. uniq (map (\<lambda>e. node_index g (dest_node e)) (filter (\<lambda>e. source_node e = p) es))) (m_nodes g),
     cg_predecessors := map (\<lambda>p. uniq (map (\<lambda>e. node_index g (source_node e)) (filter (\<lambda>e. dest_node e = p) es))) (m_nodes g),
     cg_inDegree := map (\<lambda>p. int (length (filter (\<lambda>e. dest_node e = p) es))) (m_nodes g) \<rparr>"

definition covered_upto :: "node_env \<Rightarrow> Graph \<Rightarrow> Edge list \<Rightarrow> bool list list" where
  "covered_upto ni g es = map (\<lambda>p. map (\<lambda>pi. \<exists>e\<in>set es. dest_node e = p \<and> port_index ni e = Some pi)
     [0..<length (getExpectedInputPorts (ni p))]) (m_nodes g)"

section \<open>Indices\<close>

lemma compile_fits_u32: "compile_fits ni g \<Longrightarrow> u32 (length (m_nodes g)) = length (m_nodes g)"
  by (simp add: compile_fits_def)

lemma node_index_Some:
  assumes "wf_graph ni g" and "p \<in> set (m_nodes g)"
  shows "index_map (\<lambda>p. p) (m_nodes g) (length (m_nodes g)) p = Some (node_index g p)"
proof -
  have "distinct (map (\<lambda>p. p) (m_nodes g))" using wf_graph_distinct [OF assms(1)] by simp
  from index_map_mem_iff [OF this, of p] show ?thesis using assms(2) by (auto simp: node_index_def)
qed

lemma node_index:
  assumes "wf_graph ni g" and "p \<in> set (m_nodes g)"
  shows "node_index g p < length (m_nodes g)" and "m_nodes g ! node_index g p = p"
  using node_index_Some [OF assms] index_map_Some_iff [of "\<lambda>p. p" "m_nodes g"] wf_graph_distinct [OF assms(1)]
  by simp_all

lemma node_index_nth:
  assumes "wf_graph ni g" and "i < length (m_nodes g)"
  shows "node_index g (m_nodes g ! i) = i"
  using node_index [OF assms(1) nth_mem [OF assms(2)]] assms(2) wf_graph_distinct [OF assms(1)]
  by (simp add: nth_eq_iff_index_eq)

lemma node_index_eq_iff:
  assumes "wf_graph ni g" and "p \<in> set (m_nodes g)" and "i < length (m_nodes g)"
  shows "node_index g p = i \<longleftrightarrow> p = m_nodes g ! i"
  using node_index [OF assms(1,2)] node_index_nth [OF assms(1,3)] by auto

section \<open>The edge pass\<close>

lemma uniq_snoc [simp]: "uniq (xs @ [x]) = push_unique x (uniq xs)"
  by (simp add: uniq_def)

lemma uniq_Nil [simp]: "uniq [] = []"
  by (simp add: uniq_def)

lemma set_uniq [simp]: "set (uniq xs) = set xs"
  by (induction xs rule: rev_induct) auto

lemma distinct_uniq [simp]: "distinct (uniq xs)"
  by (induction xs rule: rev_induct) auto

lemma compiled_upto_Nil:
  assumes "compile_fits ni g"
  shows "compile_init ni g = compiled_upto ni g []"
    and "map (\<lambda>ports. replicate (length ports) False) (compile_input_ports ni g) = covered_upto ni g []"
  using compile_fits_u32 [OF assms] by (auto simp: compiled_upto_def covered_upto_def compile_init_def compile_input_ports_def
      getNodes_def Let_def map_replicate_const intro!: nth_equalityI)

lemma input_ports_nth:
  assumes "compile_fits ni g" and "i < length (m_nodes g)"
  shows "compile_input_ports ni g ! i = getExpectedInputPorts (ni (m_nodes g ! i))"
  using compile_fits_u32 [OF assms(1)] assms(2) by (simp add: compile_input_ports_def getNodes_def)

lemma compile_edge_upto:
  assumes wf: "wf_graph ni g" and fits: "compile_fits ni g" and e: "e \<in> set (m_edges g)"
  shows "compile_edge (compile_input_ports ni g) e (compiled_upto ni g es, covered_upto ni g es)
       = Some (compiled_upto ni g (es @ [e]), covered_upto ni g (es @ [e]))"
proof -
  let ?s = "node_index g (source_node e)" and ?d = "node_index g (dest_node e)"
  let ?ports = "getExpectedInputPorts (ni (dest_node e))"
  note sd = wf_graphD(3,4) [OF wf e]
  note s = node_index [OF wf sd(1)] and d = node_index [OF wf sd(2)]
  have n: "length (m_nodes g) < 2 ^ 32" using fits by (simp add: compile_fits_def)
  have src: "indexOfPtr (compiled_upto ni g es) (source_node e) = ?s"
    and dst: "indexOfPtr (compiled_upto ni g es) (dest_node e) = ?d"
    using node_index_Some [OF wf] sd compile_fits_u32 [OF fits]
    by (simp_all add: indexOfPtr_def compiled_upto_def compile_init_def Let_def getNodes_def)
  have valid: "?s \<noteq> k_invalid_index" "?d \<noteq> k_invalid_index" using s d n by (simp_all add: k_invalid_index_def)
  have ports: "compile_input_ports ni g ! ?d = ?ports" using input_ports_nth [OF fits d(1)] d(2) by simp
  have take: "take (u32 (length ?ports)) ?ports = ?ports" using fits sd by (simp add: compile_fits_def)
  have found: "find_index (\<lambda>p. p = dest_port e) ?ports = port_index ni e" by (simp add: port_index_def)
  have out: "\<lparr> oe_source_port = source_port e, oe_dest_node = ?d, oe_dest_port = dest_port e,
      oe_dest_port_index = (case port_index ni e of None \<Rightarrow> k_invalid_port | Some pi \<Rightarrow> pi) \<rparr> = routed_edge ni g e"
    by (simp add: routed_edge_def split: option.splits)
  note upd = map_update_distinct [OF wf_graph_distinct [OF wf]]
  have cov: "(case port_index ni e of None \<Rightarrow> covered_upto ni g es
      | Some pi \<Rightarrow> (covered_upto ni g es)[?d := (covered_upto ni g es ! ?d)[pi := True]]) = covered_upto ni g (es @ [e])"
  proof (cases "port_index ni e")
    case None
    then show ?thesis by (auto simp: covered_upto_def intro!: map_cong)
  next
    case (Some pi)
    then have "pi < length ?ports" by (simp add: port_index_def find_index_Some_iff)
    then show ?thesis using Some d
      by (auto simp: covered_upto_def upd nth_list_update intro!: map_cong nth_equalityI split: if_splits)
  qed
  have tables: "(compiled_upto ni g es) \<lparr>
        cg_outEdges := (cg_outEdges (compiled_upto ni g es))[?s := cg_outEdges (compiled_upto ni g es) ! ?s @ [routed_edge ni g e]],
        cg_inDegree := (cg_inDegree (compiled_upto ni g es))[?d := cg_inDegree (compiled_upto ni g es) ! ?d + 1],
        cg_successors := (cg_successors (compiled_upto ni g es))[?s := push_unique ?d (cg_successors (compiled_upto ni g es) ! ?s)],
        cg_predecessors := (cg_predecessors (compiled_upto ni g es))[?d := push_unique ?s (cg_predecessors (compiled_upto ni g es) ! ?d)] \<rparr>
      = compiled_upto ni g (es @ [e])"
    using s d by (simp add: compiled_upto_def upd)
  show ?thesis
    using cov out tables
    by (cases "port_index ni e") (simp_all add: compile_edge_def src dst valid Let_def ports take found)
qed

lemma compile_edges_upto:
  assumes "wf_graph ni g" and "compile_fits ni g" and "set es' \<subseteq> set (m_edges g)"
  shows "compile_edges (compile_input_ports ni g) es' (compiled_upto ni g es, covered_upto ni g es)
       = Some (compiled_upto ni g (es @ es'), covered_upto ni g (es @ es'))"
  using assms(3)
proof (induction es' arbitrary: es)
  case (Cons e es')
  then show ?case using Cons.IH [of "es @ [e]"] by (simp add: compile_edge_upto [OF assms(1,2)])
qed simp

lemma compile_edges_all:
  assumes "wf_graph ni g" and "compile_fits ni g"
  shows "compile_edges (compile_input_ports ni g) (getEdges g)
           (compile_init ni g, map (\<lambda>ports. replicate (length ports) False) (compile_input_ports ni g))
       = Some (compiled_upto ni g (m_edges g), covered_upto ni g (m_edges g))"
  using compile_edges_upto [OF assms, of "m_edges g" "[]"] compiled_upto_Nil [OF assms(2)] by (simp add: getEdges_def)

section \<open>The topological sort\<close>

interpretation in_degree_vector: counter_store
  "\<lambda>s v. s ! v" "\<lambda>s v. s[v := s ! v - 1]" "\<lambda>s. length s = n" "{..<n}" for n :: nat
  by unfold_locales auto

abbreviation index_succs :: "CompiledGraph \<Rightarrow> nat \<Rightarrow> nat list" where
  "index_succs cg i \<equiv> map oe_dest_node (cg_outEdges cg ! i)"

definition index_rel :: "Graph \<Rightarrow> (nat \<times> nat) set" where
  "index_rel g = (\<lambda>e. (node_index g (source_node e), node_index g (dest_node e))) ` set (m_edges g)"

lemma compile_visit_kahn:
  "compile_visit remaining ready outs
     = kahn_visit (\<lambda>s v. s ! v) (\<lambda>s v. s[v := s ! v - 1]) remaining ready (map oe_dest_node outs)"
  by (induction outs arbitrary: remaining ready) (simp_all add: Let_def)

lemma compile_topo_step_kahn:
  "compile_topo_step cg = kahn_step (\<lambda>s v. s ! v) (\<lambda>s v. s[v := s ! v - 1]) (index_succs cg)"
proof (rule ext)
  fix st show "compile_topo_step cg st = kahn_step (\<lambda>s v. s ! v) (\<lambda>s v. s[v := s ! v - 1]) (index_succs cg) st"
    by (cases "(cg, st)" rule: compile_topo_step.cases) (simp_all add: compile_visit_kahn)
qed

lemma index_succs_compiled:
  assumes "i < length (m_nodes g)"
  shows "index_succs (compiled_upto ni g es) i
       = map (\<lambda>e. node_index g (dest_node e)) (filter (\<lambda>e. source_node e = m_nodes g ! i) es)"
  using assms by (simp add: compiled_upto_def routed_edge_def comp_def)

lemma count_index_map:
  assumes "wf_graph ni g" and "v < length (m_nodes g)" and "set es \<subseteq> set (m_edges g)"
  shows "count_list (map (\<lambda>e. node_index g (dest_node e)) (filter (\<lambda>e. source_node e = p) es)) v
       = length (filter (\<lambda>e. source_node e = p \<and> dest_node e = m_nodes g ! v) es)"
proof -
  have "node_index g (dest_node e) = v \<longleftrightarrow> dest_node e = m_nodes g ! v" if "e \<in> set es" for e
    using node_index_eq_iff [OF assms(1) wf_graphD(4) [OF assms(1)] assms(2)] assms(3) that by blast
  then show ?thesis unfolding count_list_map_filter
    by (intro arg_cong [where f = length] filter_cong) auto
qed

lemma index_in_edges:
  assumes wf: "wf_graph ni g" and v: "v < length (m_nodes g)"
  shows "in_edges [0..<length (m_nodes g)] (index_succs (compiled_upto ni g (m_edges g))) v
       = length (filter (\<lambda>e. dest_node e = m_nodes g ! v) (m_edges g))"
proof -
  let ?f = "\<lambda>p. length (filter (\<lambda>e. source_node e = p \<and> dest_node e = m_nodes g ! v) (m_edges g))"
  have "in_edges [0..<length (m_nodes g)] (index_succs (compiled_upto ni g (m_edges g))) v
      = sum_list (map (\<lambda>i. ?f (m_nodes g ! i)) [0..<length (m_nodes g)])"
    unfolding in_edges_def using count_index_map [OF wf v order_refl]
    by (intro arg_cong [where f = sum_list] map_cong) (auto simp: index_succs_compiled simp del: map_map)
  also have "map (\<lambda>i. ?f (m_nodes g ! i)) [0..<length (m_nodes g)] = map ?f (m_nodes g)"
    using map_map [of ?f "(!) (m_nodes g)" "[0..<length (m_nodes g)]"] by (simp add: map_nth comp_def)
  finally show ?thesis
    using sum_over_sources [OF wf_graph_distinct [OF wf] wf_graphD(3) [OF wf]] by simp
qed

lemma index_edge_rel:
  assumes wf: "wf_graph ni g"
  shows "edge_rel [0..<length (m_nodes g)] (index_succs (compiled_upto ni g (m_edges g))) = index_rel g"
proof -
  have "(u, v) \<in> edge_rel [0..<length (m_nodes g)] (index_succs (compiled_upto ni g (m_edges g))) \<longleftrightarrow>
        u < length (m_nodes g) \<and> (\<exists>e\<in>set (m_edges g). source_node e = m_nodes g ! u \<and> v = node_index g (dest_node e))" for u v
    by (auto simp: edge_rel_def index_succs_compiled simp del: set_map) auto
  moreover have "source_node e = m_nodes g ! u \<and> u < length (m_nodes g) \<longleftrightarrow> u = node_index g (source_node e)"
    if "e \<in> set (m_edges g)" for e u
    using node_index_eq_iff [OF wf wf_graphD(3) [OF wf that]] node_index(1) [OF wf wf_graphD(3) [OF wf that]] by auto
  ultimately show ?thesis by (auto simp: index_rel_def image_iff) blast+
qed

lemma index_rel_acyclic:
  assumes wf: "wf_graph ni g"
  shows "acyclic (index_rel g) \<longleftrightarrow> acyclic (graph_rel g)"
proof
  assume "acyclic (index_rel g)"
  then show "acyclic (graph_rel g)"
    by (rule acyclic_hom [where f = "node_index g"]) (auto simp: graph_rel_def index_rel_def)
next
  assume "acyclic (graph_rel g)"
  then show "acyclic (index_rel g)"
  proof (rule acyclic_hom [where f = "(!) (m_nodes g)"])
    fix x y assume "(x, y) \<in> index_rel g"
    then show "(m_nodes g ! x, m_nodes g ! y) \<in> graph_rel g"
      using node_index(2) [OF wf] wf_graphD(3,4) [OF wf] by (auto simp: graph_rel_def index_rel_def image_iff)
  qed
qed

lemma compile_topo_correct:
  assumes wf: "wf_graph ni g"
  obtains order where "compile_topo (compiled_upto ni g (m_edges g)) (length (m_nodes g)) = Some order"
    and "distinct order" and "set order \<subseteq> {..<length (m_nodes g)}" and "topo_sorted (index_rel g) order"
    and "length order = length (m_nodes g) \<longleftrightarrow> acyclic (graph_rel g)"
proof -
  let ?cg = "compiled_upto ni g (m_edges g)" and ?n = "length (m_nodes g)"
  have closed: "set (index_succs ?cg u) \<subseteq> set [0..<?n]" if "u \<in> set [0..<?n]" for u
    using that node_index(1) [OF wf wf_graphD(4) [OF wf]] by (auto simp: index_succs_compiled simp del: map_map)
  have indeg: "cg_inDegree ?cg ! v = int (in_edges [0..<?n] (index_succs ?cg) v)" if "v \<in> set [0..<?n]" for v
    using that index_in_edges [OF wf, of v] by (simp add: compiled_upto_def)
  have len: "length (cg_inDegree ?cg) = ?n" by (simp add: compiled_upto_def)
  have sub: "set [0..<?n] \<subseteq> {..<?n}" by auto
  obtain rem order where run: "while_option kahn_running
      (kahn_step (\<lambda>s v. s ! v) (\<lambda>s v. s[v := s ! v - 1]) (index_succs ?cg))
      (cg_inDegree ?cg, filter (\<lambda>v. cg_inDegree ?cg ! v = 0) [0..<?n], []) = Some (rem, [], order)"
    and order: "distinct order" "set order \<subseteq> set [0..<?n]"
      "topo_sorted (edge_rel [0..<?n] (index_succs ?cg)) order"
      "length order = length [0..<?n] \<longleftrightarrow> acyclic (edge_rel [0..<?n] (index_succs ?cg))"
    using in_degree_vector.kahn_correct [OF distinct_upt len sub closed indeg] .
  have "(\<lambda>(remaining, ready, order). ready \<noteq> []) = (kahn_running :: int list \<times> nat list \<times> nat list \<Rightarrow> bool)"
    by (auto simp: kahn_running_def)
  then have "compile_topo ?cg ?n = Some order"
    by (simp add: compile_topo_def compile_topo_step_kahn run)
  then show thesis
    using that order subset_trans [OF order(2) sub] index_edge_rel [OF wf] index_rel_acyclic [OF wf] by simp
qed

section \<open>The result of compile\<close>

definition compiled_with :: "node_env \<Rightarrow> Graph \<Rightarrow> nat list \<Rightarrow> CompiledGraph" where
  "compiled_with ni g order = (compiled_upto ni g (m_edges g)) \<lparr> cg_topoOrder := order,
     cg_sourceNodes := filter (\<lambda>i. cg_inDegree (compiled_upto ni g (m_edges g)) ! i = 0) [0..<length (m_nodes g)],
     cg_sinkNodes := filter (\<lambda>i. cg_outEdges (compiled_upto ni g (m_edges g)) ! i = []) [0..<length (m_nodes g)] \<rparr>"

lemmas compiled_with_simps = compiled_with_def compiled_upto_def compile_init_def getNodes_def Let_def

lemma mem_compile_uncovered:
  "(i, pi) \<in> set (compile_uncovered input_ports cg port_covered n) \<longleftrightarrow>
     i < n \<and> cg_inDegree cg ! i \<noteq> 0 \<and> pi < length (input_ports ! i) \<and> \<not> port_covered ! i ! pi"
  by (auto simp: compile_uncovered_def split: if_splits)

definition uncovered_ports :: "node_env \<Rightarrow> Graph \<Rightarrow> nat list \<Rightarrow> (nat \<times> nat) list" where
  "uncovered_ports ni g order = compile_uncovered (compile_input_ports ni g) (compiled_with ni g order)
     (covered_upto ni g (m_edges g)) (length (m_nodes g))"

lemma uncovered_iff:
  assumes "compile_fits ni g"
  shows "(i, pi) \<in> set (uncovered_ports ni g order) \<longleftrightarrow>
         i < length (m_nodes g) \<and> starved_port ni g (m_nodes g ! i) pi"
  using input_ports_nth [OF assms, of i]
  by (auto simp: uncovered_ports_def mem_compile_uncovered compiled_with_simps starved_port_def covered_upto_def
      filter_empty_conv)

lemma uncovered_Nil_iff:
  assumes "compile_fits ni g"
  shows "uncovered_ports ni g order = [] \<longleftrightarrow> (\<nexists>p pi. starved_port ni g p pi)"
proof -
  have "uncovered_ports ni g order = [] \<longleftrightarrow> (\<nexists>i pi. (i, pi) \<in> set (uncovered_ports ni g order))"
    by (cases "uncovered_ports ni g order") auto
  also have "\<dots> \<longleftrightarrow> (\<nexists>i pi. i < length (m_nodes g) \<and> starved_port ni g (m_nodes g ! i) pi)"
    by (simp add: uncovered_iff [OF assms])
  also have "\<dots> \<longleftrightarrow> (\<nexists>p pi. p \<in> set (m_nodes g) \<and> starved_port ni g p pi)"
    by (metis in_set_conv_nth)
  also have "\<dots> \<longleftrightarrow> (\<nexists>p pi. starved_port ni g p pi)" by (auto simp: starved_port_def)
  finally show ?thesis .
qed

text \<open>What \<open>compile\<close> returns for a non-empty graph, given the order its sort produced.\<close>

definition compile_outcome :: "node_env \<Rightarrow> Graph \<Rightarrow> nat list \<Rightarrow> CompiledGraph result" where
  "compile_outcome ni g order =
     (if length order \<noteq> length (m_nodes g) then err GraphCycleDetected ''Graph contains a cycle''
      else case uncovered_ports ni g order of
             (i, pi) # _ \<Rightarrow>
                err_at InvalidConfiguration
                   (''Input port '' @ [CHR 0x27] @ compile_input_ports ni g ! i ! pi @ [CHR 0x27] @ '' of node '' @ [CHR 0x27]
                    @ getName (ni (m_nodes g ! i)) @ [CHR 0x27]
                    @ '' has no incoming edge; the node could never execute'')
                   (getName (ni (m_nodes g ! i)))
           | [] \<Rightarrow> ResOk (compiled_with ni g order))"

lemma compile_nonempty:
  assumes wf: "wf_graph ni g" and fits: "compile_fits ni g" and ne: "m_nodes g \<noteq> []"
  obtains order where "distinct order" and "set order \<subseteq> {..<length (m_nodes g)}" and "topo_sorted (index_rel g) order"
    and "length order = length (m_nodes g) \<longleftrightarrow> acyclic (graph_rel g)"
    and "compile ni g = Some (compile_outcome ni g order)"
proof -
  obtain order where topo: "compile_topo (compiled_upto ni g (m_edges g)) (length (m_nodes g)) = Some order"
    and o: "distinct order" "set order \<subseteq> {..<length (m_nodes g)}" "topo_sorted (index_rel g) order"
      "length order = length (m_nodes g) \<longleftrightarrow> acyclic (graph_rel g)"
    using compile_topo_correct [OF wf] .
  have "compile ni g = Some (compile_outcome ni g order)"
    using compile_edges_all [OF wf fits] topo ne
    by (simp add: compile_def getNodes_def compile_fits_u32 [OF fits] compile_outcome_def uncovered_ports_def
        compiled_with_def Let_def split: list.split)
  then show thesis using that o by blast
qed

lemma compile_empty: "m_nodes g = [] \<Longrightarrow> compile ni g = Some (err GraphEmpty ''Graph has no nodes'')"
  by (simp add: compile_def getNodes_def)

lemma compile_errorCode:
  assumes wf: "wf_graph ni g" and fits: "compile_fits ni g"
  shows "\<exists>r. compile ni g = Some r \<and>
     errorCode r = (if m_nodes g = [] then GraphEmpty
                    else if \<not> acyclic (graph_rel g) then GraphCycleDetected
                    else if \<exists>p pi. starved_port ni g p pi then InvalidConfiguration
                    else Ok) \<and>
     (\<forall>e. r = ResErr e \<and> err_code e = InvalidConfiguration \<longrightarrow>
          (\<exists>p pi. starved_port ni g p pi \<and> err_nodeName e = getName (ni p))) \<and>
     (errorCode r = Ok \<longrightarrow> isOk r)"
proof (cases "m_nodes g = []")
  case True
  then show ?thesis by (auto simp: compile_empty err_def)
next
  case False
  obtain order where "length order = length (m_nodes g) \<longleftrightarrow> acyclic (graph_rel g)"
    and res: "compile ni g = Some (compile_outcome ni g order)"
    using compile_nonempty [OF wf fits False] by metis
  moreover have "starved_port ni g (m_nodes g ! i) pi" if "uncovered_ports ni g order = (i, pi) # u" for i pi u
    using uncovered_iff [OF fits, of i pi order] that by simp
  ultimately show ?thesis using False uncovered_Nil_iff [OF fits, of order]
    by (auto simp: compile_outcome_def err_at_def err_def split: list.splits)
qed

lemma compile_okD:
  assumes "wf_graph ni g" and "compile_fits ni g" and ok: "compile ni g = Some (ResOk cg)"
  obtains order where "cg = compiled_with ni g order" and "distinct order"
    and "set order = {..<length (m_nodes g)}" and "topo_sorted (index_rel g) order"
proof (cases "m_nodes g = []")
  case True
  then show thesis using ok by (simp add: compile_empty)
next
  case False
  obtain order where o: "distinct order" "set order \<subseteq> {..<length (m_nodes g)}" "topo_sorted (index_rel g) order"
    and res: "compile ni g = Some (compile_outcome ni g order)"
    using compile_nonempty [OF assms(1,2) False] by metis
  have "length order = length (m_nodes g)" "cg = compiled_with ni g order"
    using ok res by (auto simp: compile_outcome_def split: if_splits list.splits)
  moreover from this have "set order = {..<length (m_nodes g)}"
    using o(1,2) by (metis card_lessThan card_subset_eq distinct_card finite_lessThan)
  ultimately show thesis using that o by blast
qed

section \<open>Properties\<close>

text \<open>The two-node chain used to evaluate the results.\<close>

definition demo_chain :: Graph where
  "demo_chain = build_graph demo_env [AddNode (Some 0), AddNode (Some 1), AddEdge ''a'' ''o'' ''b'' ''i'']"

lemma demo_chain_fits: "compile_fits demo_env demo_chain"
  by (simp add: demo_chain_def compile_fits_def build_graph_def addNode_def addEdge_def emptyGraph_def demo_env_def
      edgeKey_def mkEdge_def)

lemma demo_chain_wf: "wf_graph demo_env demo_chain"
  by (simp add: demo_chain_def)

lemma demo_chain_parts: "m_nodes demo_chain = [0, 1]" "m_edges demo_chain = [mkEdge 0 ''o'' 1 ''i'']"
  by (simp_all add: demo_chain_def build_graph_def addNode_def addEdge_def emptyGraph_def demo_env_def
      edgeKey_def mkEdge_def)

lemma demo_chain_compiles: "\<exists>cg. compile demo_env demo_chain = Some (ResOk cg)"
proof -
  have "acyclic (graph_rel demo_chain)"
    by (rule acyclic_if_rank [where rank = id]) (auto simp: graph_rel_def demo_chain_parts mkEdge_def)
  moreover have "\<not> starved_port demo_env demo_chain p pi" for p pi
    by (auto simp: starved_port_def demo_chain_parts mkEdge_def port_index_def demo_env_def)
  moreover obtain r where "compile demo_env demo_chain = Some r"
    and "errorCode r = (if m_nodes demo_chain = [] then GraphEmpty
                    else if \<not> acyclic (graph_rel demo_chain) then GraphCycleDetected
                    else if \<exists>p pi. starved_port demo_env demo_chain p pi then InvalidConfiguration
                    else Ok)" and "errorCode r = Ok \<longrightarrow> isOk r"
    using compile_errorCode [OF demo_chain_wf demo_chain_fits] by blast
  ultimately have "compile demo_env demo_chain = Some r" "isOk r" by (simp_all add: demo_chain_parts)
  then show ?thesis by (cases r) auto
qed

text \<open>
  C7. \<open>CompiledGraph::compile\<close> always returns, and reports exactly the documented
  errors: \<open>GraphEmpty\<close> for a graph without nodes, otherwise \<open>GraphCycleDetected\<close> for a
  cyclic one, otherwise \<open>InvalidConfiguration\<close>, naming the node, when a node with
  upstream edges declares an input port that no edge reaches; it succeeds in every
  other case, and never with \<open>InternalError\<close>.
\<close>

theorem compile_reports:
  assumes "wf_graph ni g" and "compile_fits ni g"
  shows "\<exists>r. compile ni g = Some r \<and>
     errorCode r = (if m_nodes g = [] then GraphEmpty
                    else if \<exists>p. (p, p) \<in> (graph_rel g)\<^sup>+ then GraphCycleDetected
                    else if \<exists>p pi. starved_port ni g p pi then InvalidConfiguration
                    else Ok) \<and>
     (isOk r \<longleftrightarrow> errorCode r = Ok) \<and>
     (\<forall>e. r = ResErr e \<and> err_code e = InvalidConfiguration \<longrightarrow>
          (\<exists>p pi. starved_port ni g p pi \<and> err_nodeName e = getName (ni p)))"
proof -
  have isOk: "isOk r \<Longrightarrow> errorCode r = Ok" for r :: "CompiledGraph result" by (cases r) auto
  have cyc: "\<not> acyclic (graph_rel g) \<longleftrightarrow> (\<exists>p. (p, p) \<in> (graph_rel g)\<^sup>+)" by (simp add: acyclic_def)
  show ?thesis using compile_errorCode [OF assms] isOk unfolding cyc by blast
qed

theorem compile_reports_witness:
  "\<exists>r. compile demo_env demo_chain = Some r \<and>
     errorCode r = (if m_nodes demo_chain = [] then GraphEmpty
                    else if \<exists>p. (p, p) \<in> (graph_rel demo_chain)\<^sup>+ then GraphCycleDetected
                    else if \<exists>p pi. starved_port demo_env demo_chain p pi then InvalidConfiguration
                    else Ok)"
  using compile_reports [OF demo_chain_wf demo_chain_fits] by blast

lemma compile_okD_order:
  assumes "wf_graph ni g" and "compile_fits ni g" and "compile ni g = Some (ResOk cg)"
  shows "cg_nodes cg = m_nodes g \<and> distinct (cg_topoOrder cg) \<and> set (cg_topoOrder cg) = {..<nodeCount cg} \<and>
     (\<forall>e\<in>set (m_edges g). \<exists>i j. i < j \<and> j < nodeCount cg \<and>
        cg_nodes cg ! (cg_topoOrder cg ! i) = source_node e \<and> cg_nodes cg ! (cg_topoOrder cg ! j) = dest_node e)"
proof -
  obtain order where cg: "cg = compiled_with ni g order" and d: "distinct order"
    and s: "set order = {..<length (m_nodes g)}" and t: "topo_sorted (index_rel g) order"
    using compile_okD [OF assms] .
  have len: "length order = length (m_nodes g)" using d s by (metis card_lessThan distinct_card)
  have "\<exists>i j. i < j \<and> j < length (m_nodes g) \<and> m_nodes g ! (order ! i) = source_node e \<and> m_nodes g ! (order ! j) = dest_node e"
    if e: "e \<in> set (m_edges g)" for e
  proof -
    note si = node_index [OF assms(1) wf_graphD(3) [OF assms(1) e]]
      and di = node_index [OF assms(1) wf_graphD(4) [OF assms(1) e]]
    obtain i j where ij: "i < length order" "order ! i = node_index g (source_node e)"
      "j < length order" "order ! j = node_index g (dest_node e)"
      using si(1) di(1) s by (metis in_set_conv_nth lessThan_iff)
    have "(order ! i, order ! j) \<in> index_rel g" using e ij by (auto simp: index_rel_def)
    then have "i < j" using topo_sorted_index [OF t d] ij by blast
    then show ?thesis using ij si di len by metis
  qed
  then show ?thesis using d s by (simp add: cg compiled_with_simps nodeCount_def)
qed

text \<open>
  C5. Compilation of a graph always ends.  A graph with nodes on a cycle is refused with
  \<open>GraphCycleDetected\<close>; a graph without a cycle whose connected nodes are fully wired is accepted.
  Whenever a compiled graph is returned, its graph has no cycle and the stored order
  is a topological order of all nodes: every node number occurs once, and along every edge
  the source's position is smaller than the destination's.
\<close>

theorem compile_topological:
  assumes "wf_graph ni g" and "compile_fits ni g" and "m_nodes g \<noteq> []"
  shows "\<exists>r. compile ni g = Some r \<and>
     ((\<exists>p. (p, p) \<in> (graph_rel g)\<^sup>+) \<longrightarrow> errorCode r = GraphCycleDetected \<and> \<not> isOk r) \<and>
     (acyclic (graph_rel g) \<and> (\<nexists>p pi. starved_port ni g p pi) \<longrightarrow> isOk r) \<and>
     (\<forall>cg. r = ResOk cg \<longrightarrow> acyclic (graph_rel g) \<and> cg_nodes cg = m_nodes g \<and>
        distinct (cg_topoOrder cg) \<and> set (cg_topoOrder cg) = {..<nodeCount cg} \<and>
        (\<forall>e\<in>set (m_edges g). \<exists>i j. i < j \<and> j < nodeCount cg \<and>
           cg_nodes cg ! (cg_topoOrder cg ! i) = source_node e \<and> cg_nodes cg ! (cg_topoOrder cg ! j) = dest_node e))"
proof -
  obtain r where r: "compile ni g = Some r" "errorCode r = (if m_nodes g = [] then GraphEmpty
                    else if \<not> acyclic (graph_rel g) then GraphCycleDetected
                    else if \<exists>p pi. starved_port ni g p pi then InvalidConfiguration
                    else Ok)" "errorCode r = Ok \<longrightarrow> isOk r"
    using compile_errorCode [OF assms(1,2)] by blast
  have ok: "isOk r \<longleftrightarrow> errorCode r = Ok" using r(3) by (cases r) auto
  moreover have "acyclic (graph_rel g)" if "r = ResOk cg" for cg using that r(2) ok assms(3) by (auto split: if_splits)
  moreover note compile_okD_order [OF assms(1,2)]
  ultimately show ?thesis using r(1,2) assms(3) unfolding acyclic_def by auto
qed

theorem compile_topological_witness:
  "\<exists>cg. compile demo_env demo_chain = Some (ResOk cg) \<and> set (cg_topoOrder cg) = {..<nodeCount cg} \<and>
     (\<exists>i j. i < j \<and> j < nodeCount cg \<and> cg_nodes cg ! (cg_topoOrder cg ! i) = 0 \<and>
        cg_nodes cg ! (cg_topoOrder cg ! j) = 1)"
proof -
  obtain cg where cg: "compile demo_env demo_chain = Some (ResOk cg)" using demo_chain_compiles by blast
  have "m_nodes demo_chain \<noteq> []" by (simp add: demo_chain_parts)
  then show ?thesis
    using compile_topological [OF demo_chain_wf demo_chain_fits] cg
    by (auto simp: demo_chain_parts mkEdge_def) blast
qed

text \<open>
  C6. On success the routing tables are those of the graph: the out-edges of node
  \<open>i\<close> are the graph's edges leaving it, in insertion order, each with the number of
  its destination and, where a destination port is named, the position of that port
  among the destination's declared inputs; the name and pointer indices invert the
  numbering; sources and sinks are the nodes without incoming and without outgoing
  edges.
\<close>

theorem compile_routing:
  assumes "wf_graph ni g" and "compile_fits ni g" and "compile ni g = Some (ResOk cg)" and "i < nodeCount cg"
  shows "cg_outEdges cg ! i = map (routed_edge ni g) (getOutgoingEdges g (Some (cg_nodes cg ! i))) \<and>
     (\<forall>e\<in>set (getOutgoingEdges g (Some (cg_nodes cg ! i))).
        cg_nodes cg ! oe_dest_node (routed_edge ni g e) = dest_node e \<and>
        oe_dest_node (routed_edge ni g e) < nodeCount cg \<and>
        (dest_port e \<noteq> [] \<longrightarrow>
           oe_dest_port_index (routed_edge ni g e) < length (getExpectedInputPorts (ni (dest_node e))) \<and>
           getExpectedInputPorts (ni (dest_node e)) ! oe_dest_port_index (routed_edge ni g e) = dest_port e)) \<and>
     indexOf cg (getName (ni (cg_nodes cg ! i))) = i \<and> indexOfPtr cg (cg_nodes cg ! i) = i \<and>
     (i \<in> set (cg_sourceNodes cg) \<longleftrightarrow> getIncomingEdges g (Some (cg_nodes cg ! i)) = []) \<and>
     (i \<in> set (cg_sinkNodes cg) \<longleftrightarrow> getOutgoingEdges g (Some (cg_nodes cg ! i)) = [])"
proof -
  obtain order where cg: "cg = compiled_with ni g order" using compile_okD [OF assms(1-3)] by metis
  have i: "i < length (m_nodes g)" using assms(4) by (simp add: cg compiled_with_simps nodeCount_def)
  have port: "oe_dest_port_index (routed_edge ni g e) < length (getExpectedInputPorts (ni (dest_node e))) \<and>
      getExpectedInputPorts (ni (dest_node e)) ! oe_dest_port_index (routed_edge ni g e) = dest_port e"
    if "e \<in> set (m_edges g)" and "dest_port e \<noteq> []" for e
  proof -
    have "port_index ni e \<noteq> None"
      using wf_graphD(5) [OF assms(1) that(1)] that(2) by (auto simp: port_index_def find_index_None_iff edge_ports_ok_def)
    then obtain pi where pi: "port_index ni e = Some pi" by auto
    then have "pi < length (getExpectedInputPorts (ni (dest_node e)))"
      "getExpectedInputPorts (ni (dest_node e)) ! pi = dest_port e"
      by (simp_all add: port_index_def find_index_Some_iff)
    then show ?thesis using pi by (simp add: routed_edge_def)
  qed
  have dest: "m_nodes g ! oe_dest_node (routed_edge ni g e) = dest_node e \<and>
      oe_dest_node (routed_edge ni g e) < length (m_nodes g)" if "e \<in> set (m_edges g)" for e
    using node_index [OF assms(1) wf_graphD(4) [OF assms(1) that]] by (simp add: routed_edge_def)
  have name: "index_map (\<lambda>p. getName (ni p)) (m_nodes g) (length (m_nodes g)) (getName (ni (m_nodes g ! i))) = Some i"
    using index_map_Some_iff [OF wf_graphD(1) [OF assms(1)] order_refl] i by simp
  show ?thesis
    using i port dest name node_index_Some [OF assms(1) nth_mem [OF i]] node_index_nth [OF assms(1) i]
      compile_fits_u32 [OF assms(2)]
    by (simp add: cg compiled_with_simps nodeCount_def indexOf_def indexOfPtr_def getOutgoingEdges_def getIncomingEdges_def)
qed

theorem compile_routing_witness:
  "\<exists>cg. compile demo_env demo_chain = Some (ResOk cg) \<and> 0 < nodeCount cg \<and> indexOf cg ''a'' = 0 \<and>
     cg_outEdges cg ! 0 = map (routed_edge demo_env demo_chain) (getOutgoingEdges demo_chain (Some (cg_nodes cg ! 0)))"
proof -
  obtain cg where cg: "compile demo_env demo_chain = Some (ResOk cg)" using demo_chain_compiles by blast
  obtain order where "cg = compiled_with demo_env demo_chain order"
    using compile_okD [OF demo_chain_wf demo_chain_fits cg] by metis
  then have nodes: "cg_nodes cg = [0, 1]" by (simp add: compiled_with_simps demo_chain_parts)
  then have "0 < nodeCount cg" by (simp add: nodeCount_def)
  then show ?thesis
    using compile_routing [OF demo_chain_wf demo_chain_fits cg, of 0] cg nodes by (simp add: demo_env_def)
qed

end
