(* ===== verification/Ring_Queue.thy ===== *)
theory Ring_Queue
  imports Pipe_Prelude "HOL-Library.Monad_Syntax"
begin

text \<open>
  \<open>LockFreeMPMCQueue\<close> of \<open>src/lock_free_queue.hpp\<close>: Vyukov's bounded ring buffer with
  sequence tags, as one thread at a time executes it.  (Interleaved executions
  are in \<open>Ring_Concurrent\<close>.)

  Positions, sequence numbers, the capacity and the mask are \<open>std::size_t\<close>, here
  \<open>64 word\<close>: they wrap, and a cell is found by masking.  The signed difference
  of two positions is read in two's complement.  A cell's payload is \<open>None\<close> when
  it is default constructed or moved from.  The retry loops of \<open>tryPush\<close> and
  \<open>tryPop\<close> are partial functions, so that a call that never returns is \<open>None\<close>; the
  lemmas show that both always return.

  \<open>bounded_queue\<close> is the contract the drop-policy wrapper relies on: a bounded
  first-in first-out list.  The number in \<open>invar n q\<close> is how many more pushes the
  enqueue position can count before it wraps; only \<open>size()\<close> depends on it.
\<close>

unbundle bit_operations_syntax

section \<open>Model\<close>

record 'a Cell =
  cell_sequence :: "64 word"
  cell_data :: "'a option"

record 'a MPMCQueue =
  m_capacity :: "64 word"
  m_mask :: "64 word"
  m_buffer :: "'a Cell list"
  m_enqueuePos :: "64 word"
  m_dequeuePos :: "64 word"

definition roundUpPowerOf2 :: "64 word \<Rightarrow> 64 word" where
  "roundUpPowerOf2 v =
     (if v \<le> 2 then 2
      else let v = v - 1;
               v = v OR drop_bit 1 v;
               v = v OR drop_bit 2 v;
               v = v OR drop_bit 4 v;
               v = v OR drop_bit 8 v;
               v = v OR drop_bit 16 v;
               v = v OR drop_bit 32 v
           in v + 1)"

definition newQueue :: "64 word \<Rightarrow> 'a MPMCQueue" where
  "newQueue min_capacity =
     (let c = roundUpPowerOf2 (if min_capacity < 2 then 2 else min_capacity)
      in \<lparr> m_capacity = c, m_mask = c - 1,
           m_buffer = map (\<lambda>i. \<lparr> cell_sequence = of_nat i, cell_data = None \<rparr>) [0..<unat c],
           m_enqueuePos = 0, m_dequeuePos = 0 \<rparr>)"

definition cell_index :: "'a MPMCQueue \<Rightarrow> 64 word \<Rightarrow> nat" where
  "cell_index q pos = unat (pos AND m_mask q)"

text \<open>The signed difference \<open>static_cast<intptr_t>(a) - static_cast<intptr_t>(b)\<close>.\<close>

definition pos_diff :: "64 word \<Rightarrow> 64 word \<Rightarrow> int" where
  "pos_diff a b = sint (a - b)"

text \<open>The claim loop of \<open>tryPush\<close>: \<open>Some (Some pos)\<close> claims \<open>pos\<close>, \<open>Some None\<close> is a full queue.\<close>

partial_function (option) tryPush_claim :: "'a MPMCQueue \<Rightarrow> 64 word \<Rightarrow> 64 word option option" where
  "tryPush_claim q pos =
     (let diff = pos_diff (cell_sequence (m_buffer q ! cell_index q pos)) pos
      in if diff = 0 then
           (if m_enqueuePos q = pos then Some (Some pos) else tryPush_claim q (m_enqueuePos q))
         else if diff < 0 then Some None
         else tryPush_claim q (m_enqueuePos q))"

definition tryPush :: "'a MPMCQueue \<Rightarrow> 'a \<Rightarrow> (bool \<times> 'a MPMCQueue) option" where
  "tryPush q item =
     map_option (\<lambda>claim. case claim of
         None \<Rightarrow> (False, q)
       | Some pos \<Rightarrow> (True, q \<lparr> m_enqueuePos := pos + 1,
           m_buffer := (m_buffer q)[cell_index q pos := \<lparr> cell_sequence = pos + 1, cell_data = Some item \<rparr>] \<rparr>))
       (tryPush_claim q (m_enqueuePos q))"

partial_function (option) tryPop_claim :: "'a MPMCQueue \<Rightarrow> 64 word \<Rightarrow> 64 word option option" where
  "tryPop_claim q pos =
     (let diff = pos_diff (cell_sequence (m_buffer q ! cell_index q pos)) (pos + 1)
      in if diff = 0 then
           (if m_dequeuePos q = pos then Some (Some pos) else tryPop_claim q (m_dequeuePos q))
         else if diff < 0 then Some None
         else tryPop_claim q (m_dequeuePos q))"

definition tryPop :: "'a MPMCQueue \<Rightarrow> ('a option \<times> 'a MPMCQueue) option" where
  "tryPop q =
     map_option (\<lambda>claim. case claim of
         None \<Rightarrow> (None, q)
       | Some pos \<Rightarrow> (cell_data (m_buffer q ! cell_index q pos), q \<lparr> m_dequeuePos := pos + 1,
           m_buffer := (m_buffer q)[cell_index q pos := \<lparr> cell_sequence = pos + m_capacity q, cell_data = None \<rparr>] \<rparr>))
       (tryPop_claim q (m_dequeuePos q))"

text \<open>
  \<open>forcePush\<close> with its bounded spins, its re-eviction rounds and its unbounded
  fallback.  The result is the returned flag and the value of the out parameter
  \<open>evicted\<close>, when it was written.
\<close>

primrec spin_tryPush :: "nat \<Rightarrow> 'a MPMCQueue \<Rightarrow> 'a \<Rightarrow> (bool \<times> 'a MPMCQueue) option" where
  "spin_tryPush 0 q item = Some (False, q)"
| "spin_tryPush (Suc n) q item = do {
     (ok, q) \<leftarrow> tryPush q item;
     if ok then Some (True, q) else spin_tryPush n q item
   }"

primrec forcePush_reevict :: "nat \<Rightarrow> 'a MPMCQueue \<Rightarrow> 'a \<Rightarrow> (bool \<times> 'a MPMCQueue) option" where
  "forcePush_reevict 0 q item = Some (False, q)"
| "forcePush_reevict (Suc n) q item = do {
     (re_evicted, q) \<leftarrow> tryPop q;
     (ok, q) \<leftarrow> (if re_evicted \<noteq> None then spin_tryPush 256 q item else Some (False, q));
     if ok then Some (True, q)
     else do { (ok, q) \<leftarrow> tryPush q item; if ok then Some (True, q) else forcePush_reevict n q item }
   }"

partial_function (option) forcePush_fallback :: "'a MPMCQueue \<Rightarrow> 'a \<Rightarrow> 'a MPMCQueue option" where
  "forcePush_fallback q item = do {
     (ok, q) \<leftarrow> tryPush q item;
     if ok then Some q else do { (_, q) \<leftarrow> tryPop q; forcePush_fallback q item }
   }"

definition forcePush :: "'a MPMCQueue \<Rightarrow> 'a \<Rightarrow> (bool \<times> 'a option \<times> 'a MPMCQueue) option" where
  "forcePush q item = do {
     (ok, q) \<leftarrow> tryPush q item;
     if ok then Some (False, None, q)
     else do {
       (evicted, q) \<leftarrow> tryPop q;
       if evicted = None then do {
         (ok, q) \<leftarrow> spin_tryPush 256 q item;
         if ok then Some (False, None, q)
         else do { (_, q) \<leftarrow> tryPush q item; Some (False, None, q) }
       }
       else do {
         (ok, q) \<leftarrow> spin_tryPush 256 q item;
         if ok then Some (True, evicted, q)
         else do {
           (ok, q) \<leftarrow> forcePush_reevict 8 q item;
           if ok then Some (True, evicted, q)
           else do { q \<leftarrow> forcePush_fallback q item; Some (True, evicted, q) }
         }
       }
     }
   }"

definition tryPeek :: "'a MPMCQueue \<Rightarrow> 'a option" where
  "tryPeek q =
     (let pos = m_dequeuePos q; cell = m_buffer q ! cell_index q pos
      in if pos_diff (cell_sequence cell) (pos + 1) \<noteq> 0 then None else cell_data cell)"

definition queue_size :: "'a MPMCQueue \<Rightarrow> 64 word" where
  "queue_size q = (if m_enqueuePos q \<ge> m_dequeuePos q then m_enqueuePos q - m_dequeuePos q else 0)"

definition queue_empty :: "'a MPMCQueue \<Rightarrow> bool" where
  "queue_empty q = (queue_size q = 0)"

definition queue_isFull :: "'a MPMCQueue \<Rightarrow> bool" where
  "queue_isFull q = (queue_size q \<ge> m_capacity q)"

section \<open>Specification\<close>

text \<open>
  The items in the queue, oldest first, and the invariant: the \<open>n\<close> cells from the
  dequeue position on are published, the other cells are free for the positions
  that follow.
\<close>

definition ring_length :: "'a MPMCQueue \<Rightarrow> nat" where
  "ring_length q = unat (m_enqueuePos q - m_dequeuePos q)"

definition ring_cell :: "'a MPMCQueue \<Rightarrow> nat \<Rightarrow> 'a Cell" where
  "ring_cell q j = m_buffer q ! cell_index q (m_dequeuePos q + of_nat j)"

definition ring_list :: "'a MPMCQueue \<Rightarrow> 'a list" where
  "ring_list q = map (\<lambda>j. the (cell_data (ring_cell q j))) [0..<ring_length q]"

definition ring_wf :: "nat \<Rightarrow> 'a MPMCQueue \<Rightarrow> bool" where
  "ring_wf k q \<longleftrightarrow> 1 \<le> k \<and> k \<le> 63 \<and> m_capacity q = 2 ^ k \<and> m_mask q = 2 ^ k - 1 \<and> length (m_buffer q) = 2 ^ k \<and>
     ring_length q \<le> 2 ^ k \<and>
     (\<forall>j<2 ^ k. if j < ring_length q
        then cell_sequence (ring_cell q j) = m_dequeuePos q + of_nat j + 1 \<and> cell_data (ring_cell q j) \<noteq> None
        else cell_sequence (ring_cell q j) = m_dequeuePos q + of_nat j)"

definition ring_inv :: "'a MPMCQueue \<Rightarrow> bool" where
  "ring_inv q \<longleftrightarrow> (\<exists>k. ring_wf k q)"

text \<open>\<open>n\<close> more pushes keep the enqueue position from wrapping past the dequeue position.\<close>

definition ring_budget :: "nat \<Rightarrow> 'a MPMCQueue \<Rightarrow> bool" where
  "ring_budget n q \<longleftrightarrow> m_dequeuePos q \<le> m_enqueuePos q \<and> unat (m_enqueuePos q) + n < 2 ^ 64"

text \<open>Sequences of calls, on the ring buffer and on a list of at most \<open>cap\<close> items.\<close>

datatype 'a queue_op = PushOp 'a | PopOp | PeekOp

datatype 'a queue_res = Pushed bool | Got "'a option"

fun ring_run :: "'a queue_op list \<Rightarrow> 'a MPMCQueue \<Rightarrow> ('a queue_res list \<times> 'a MPMCQueue) option" where
  "ring_run [] q = Some ([], q)"
| "ring_run (PushOp x # ops) q = (case tryPush q x of None \<Rightarrow> None
     | Some (b, q') \<Rightarrow> map_option (\<lambda>(rs, q''). (Pushed b # rs, q'')) (ring_run ops q'))"
| "ring_run (PopOp # ops) q = (case tryPop q of None \<Rightarrow> None
     | Some (r, q') \<Rightarrow> map_option (\<lambda>(rs, q''). (Got r # rs, q'')) (ring_run ops q'))"
| "ring_run (PeekOp # ops) q = map_option (\<lambda>(rs, q'). (Got (tryPeek q) # rs, q')) (ring_run ops q)"

definition head_opt :: "'a list \<Rightarrow> 'a option" where
  "head_opt xs = (case xs of [] \<Rightarrow> None | x # _ \<Rightarrow> Some x)"

fun fifo_run :: "nat \<Rightarrow> 'a queue_op list \<Rightarrow> 'a list \<Rightarrow> 'a queue_res list \<times> 'a list" where
  "fifo_run cap [] xs = ([], xs)"
| "fifo_run cap (PushOp x # ops) xs =
     (let (rs, ys) = fifo_run cap ops (if length xs < cap then xs @ [x] else xs)
      in (Pushed (length xs < cap) # rs, ys))"
| "fifo_run cap (PopOp # ops) xs = (let (rs, ys) = fifo_run cap ops (tl xs) in (Got (head_opt xs) # rs, ys))"
| "fifo_run cap (PeekOp # ops) xs = (let (rs, ys) = fifo_run cap ops xs in (Got (head_opt xs) # rs, ys))"

section \<open>The contract of a bounded queue\<close>

locale bounded_queue =
  fixes invar :: "nat \<Rightarrow> 'q \<Rightarrow> bool"
    and abs :: "'q \<Rightarrow> 'a list"
    and cap :: "'q \<Rightarrow> nat"
    and push :: "'q \<Rightarrow> 'a \<Rightarrow> (bool \<times> 'q) option"
    and pop :: "'q \<Rightarrow> ('a option \<times> 'q) option"
    and peek :: "'q \<Rightarrow> 'a option"
    and size :: "'q \<Rightarrow> nat"
  assumes push_room: "invar (Suc n) q \<Longrightarrow> length (abs q) < cap q \<Longrightarrow>
      \<exists>q'. push q x = Some (True, q') \<and> invar n q' \<and> abs q' = abs q @ [x] \<and> cap q' = cap q"
    and push_full: "invar n q \<Longrightarrow> length (abs q) = cap q \<Longrightarrow> push q x = Some (False, q)"
    and pop_empty: "invar n q \<Longrightarrow> abs q = [] \<Longrightarrow> pop q = Some (None, q)"
    and pop_some: "invar n q \<Longrightarrow> abs q = x # xs \<Longrightarrow>
      \<exists>q'. pop q = Some (Some x, q') \<and> invar n q' \<and> abs q' = xs \<and> cap q' = cap q"
    and peek_head: "invar n q \<Longrightarrow> peek q = (case abs q of [] \<Rightarrow> None | x # _ \<Rightarrow> Some x)"
    and size_length: "invar n q \<Longrightarrow> size q = length (abs q)"
    and within_cap: "invar n q \<Longrightarrow> length (abs q) \<le> cap q"
    and cap_pos: "invar n q \<Longrightarrow> 0 < cap q"
begin

text \<open>After an eviction from a full queue the next push succeeds, and keeps the order.\<close>

lemma push_after_evict:
  assumes "invar (Suc n) q" and "length (abs q) = cap q"
  obtains q1 q2 where "pop q = Some (Some (hd (abs q)), q1)" and "push q1 x = Some (True, q2)"
    and "invar (Suc n) q1" and "invar n q2" and "abs q1 = tl (abs q)" and "abs q2 = tl (abs q) @ [x]"
    and "cap q1 = cap q" and "cap q2 = cap q"
proof -
  obtain y ys where q: "abs q = y # ys" using assms cap_pos [OF assms(1)] by (cases "abs q") auto
  obtain q1 where q1: "pop q = Some (Some y, q1)" "invar (Suc n) q1" "abs q1 = ys" "cap q1 = cap q"
    using pop_some [OF assms(1) q] by blast
  moreover obtain q2 where "push q1 x = Some (True, q2)" "invar n q2" "abs q2 = ys @ [x]" "cap q2 = cap q"
    using push_room [OF q1(2), of x] q1 q assms(2) by auto
  ultimately show thesis using that q by simp
qed

lemma push_cases:
  assumes "invar (Suc n) q"
  shows "\<exists>q'. push q x = Some (length (abs q) < cap q, q') \<and>
     (if length (abs q) < cap q then invar n q' \<and> abs q' = abs q @ [x] else q' = q) \<and> cap q' = cap q"
  using push_room [OF assms] push_full [OF assms] within_cap [OF assms] by (cases "length (abs q) < cap q") auto

lemma pop_cases:
  assumes "invar n q"
  shows "\<exists>q'. pop q = Some (case abs q of [] \<Rightarrow> None | x # _ \<Rightarrow> Some x, q') \<and> invar n q' \<and> abs q' = tl (abs q) \<and>
     cap q' = cap q \<and> (abs q = [] \<longrightarrow> q' = q)"
proof (cases "abs q")
  case Nil
  then show ?thesis using pop_empty [OF assms] assms by simp
next
  case (Cons x xs)
  then show ?thesis using pop_some [OF assms Cons] by auto
qed

end

section \<open>Positions and cells\<close>

lemma unat_and_mask: "unat ((w :: 64 word) AND (2 ^ k - 1)) = unat w mod 2 ^ k"
proof -
  have "w AND (2 ^ k - 1) = take_bit k w" by (simp add: take_bit_eq_mask mask_eq_exp_minus_1)
  then have "unat (w AND (2 ^ k - 1)) = take_bit k (unat w)" by (simp only: unsigned_take_bit_eq)
  then show ?thesis by (simp add: take_bit_eq_mod)
qed

lemma unat_add_of_nat_mod:
  assumes "k \<le> 64"
  shows "unat ((w :: 64 word) + of_nat j) mod 2 ^ k = (unat w + j) mod 2 ^ k"
proof -
  have "(2 :: nat) ^ k dvd 2 ^ 64" using assms by (rule le_imp_power_dvd)
  then show ?thesis by (simp add: unat_word_ariths unat_of_nat mod_mod_cancel mod_add_right_eq)
qed

lemma mod_add_inject:
  fixes a :: nat
  assumes "i < m" and "j < m"
  shows "(a + i) mod m = (a + j) mod m \<longleftrightarrow> i = j"
proof
  assume eq: "(a + i) mod m = (a + j) mod m"
  show "i = j"
  proof (rule ccontr)
    assume "i \<noteq> j"
    then consider "i < j" | "j < i" by linarith
    then show False
    proof cases
      case 1
      then have "m dvd (a + j) - (a + i)" using eq by (metis mod_eq_dvd_iff_nat add_le_cancel_left less_imp_le)
      then show False using 1 assms by (auto dest: dvd_imp_le)
    next
      case 2
      then have "m dvd (a + i) - (a + j)" using eq by (metis mod_eq_dvd_iff_nat add_le_cancel_left less_imp_le)
      then show False using 2 assms by (auto dest: dvd_imp_le)
    qed
  qed
qed simp

lemma pos_diff_of_int:
  assumes "- (2 ^ 63) \<le> x" and "x < 2 ^ 63"
  shows "sint (word_of_int x :: 64 word) = x"
  using assms by (simp add: int_word_sint)

lemma pos_diff_self [simp]: "pos_diff p p = 0"
  by (simp add: pos_diff_def)

lemma pos_diff_behind [simp]: "pos_diff p (p + 1) = -1"
  by (simp add: pos_diff_def)

lemma pos_diff_full:
  assumes "1 \<le> k" and "k \<le> 63"
  shows "pos_diff (p + 1) (p + 2 ^ k) < 0"
proof -
  have le: "(2 :: int) ^ k \<le> 2 ^ 63" using assms by (intro power_increasing) auto
  have ge: "(2 :: int) ^ 1 \<le> 2 ^ k" using assms by (intro power_increasing) auto
  have "(p + 1) - (p + 2 ^ k) = (word_of_int (1 - 2 ^ k) :: 64 word)" by simp
  then have "pos_diff (p + 1) (p + 2 ^ k) = sint (word_of_int (1 - 2 ^ k) :: 64 word)" by (simp only: pos_diff_def)
  also have "\<dots> = 1 - 2 ^ k" using le ge by (intro pos_diff_of_int) auto
  finally show ?thesis using ge by simp
qed

lemma ring_wf_index:
  assumes "ring_wf k q"
  shows "cell_index q (m_dequeuePos q + of_nat j) = (unat (m_dequeuePos q) + j) mod 2 ^ k"
  using assms unat_add_of_nat_mod [of k "m_dequeuePos q" j]
  by (simp add: ring_wf_def cell_index_def unat_and_mask)

lemma ring_enqueue_pos: "m_enqueuePos q = m_dequeuePos q + of_nat (ring_length q)"
  by (simp add: ring_length_def)

lemma power_less_64: "k \<le> 63 \<Longrightarrow> (2 :: nat) ^ k < 2 ^ 64"
  by (intro power_strict_increasing) auto

lemma unat_of_nat_small: "n < 2 ^ 64 \<Longrightarrow> unat (of_nat n :: 64 word) = n"
  by (simp add: unat_of_nat)

section \<open>The operations on a well-formed ring\<close>

lemma ring_wfD:
  assumes "ring_wf k q"
  shows "1 \<le> k" and "k \<le> 63" and "m_capacity q = 2 ^ k" and "length (m_buffer q) = 2 ^ k" and "ring_length q \<le> 2 ^ k"
    and "j < ring_length q \<Longrightarrow> cell_sequence (ring_cell q j) = m_dequeuePos q + of_nat j + 1"
    and "j < ring_length q \<Longrightarrow> cell_data (ring_cell q j) \<noteq> None"
    and "ring_length q \<le> j \<Longrightarrow> j < 2 ^ k \<Longrightarrow> cell_sequence (ring_cell q j) = m_dequeuePos q + of_nat j"
  using assms by (auto simp: ring_wf_def split: if_splits dest: less_le_trans)

lemma ring_cell_update:
  assumes "ring_wf k q" and "i < 2 ^ k" and "j < 2 ^ k"
  shows "(m_buffer q)[cell_index q (m_dequeuePos q + of_nat i) := c] ! cell_index q (m_dequeuePos q + of_nat j)
       = (if i = j then c else ring_cell q j)"
  using assms mod_add_inject [OF assms(2,3)] ring_wfD(4) [OF assms(1)]
  by (simp add: ring_cell_def ring_wf_index nth_list_update)

lemma tryPush_room:
  assumes wf: "ring_wf k q" and room: "ring_length q < 2 ^ k"
  obtains q' where "tryPush q x = Some (True, q')" and "ring_wf k q'" and "ring_list q' = ring_list q @ [x]"
    and "m_dequeuePos q' = m_dequeuePos q" and "m_enqueuePos q' = m_enqueuePos q + 1"
proof -
  let ?n = "ring_length q" and ?d = "m_dequeuePos q" and ?e = "m_enqueuePos q"
  define q' where "q' = q \<lparr> m_enqueuePos := ?e + 1,
    m_buffer := (m_buffer q)[cell_index q ?e := \<lparr> cell_sequence = ?e + 1, cell_data = Some x \<rparr>] \<rparr>"
  note e = ring_enqueue_pos [of q]
  have "cell_sequence (m_buffer q ! cell_index q ?e) = ?e"
    using ring_wfD(8) [OF wf order_refl room] by (simp add: ring_cell_def flip: e)
  then have "tryPush_claim q ?e = Some (Some ?e)" by (subst tryPush_claim.simps) simp
  then have push: "tryPush q x = Some (True, q')" by (simp add: tryPush_def q'_def)
  have "?n + 1 < 2 ^ 64" using room power_less_64 [OF ring_wfD(2) [OF wf]] by simp
  then have len: "ring_length q' = ?n + 1"
    using unat_of_nat_small [of "?n + 1"] by (simp add: ring_length_def q'_def algebra_simps)
  have cell: "ring_cell q' j = (if j = ?n then \<lparr> cell_sequence = ?e + 1, cell_data = Some x \<rparr> else ring_cell q j)"
    if "j < 2 ^ k" for j
    using ring_cell_update [OF wf room that, of "\<lparr> cell_sequence = ?e + 1, cell_data = Some x \<rparr>"]
    by (simp add: ring_cell_def q'_def cell_index_def flip: e)
  have "ring_wf k q'"
    using wf len room cell e unfolding ring_wf_def
    by (auto simp: q'_def less_Suc_eq add.assoc split: if_splits)
  moreover have "ring_list q' = ring_list q @ [x]"
    using room cell by (auto simp: ring_list_def len)
  ultimately show thesis using that push by (simp add: q'_def)
qed

lemma tryPush_full:
  assumes wf: "ring_wf k q" and full: "ring_length q = 2 ^ k"
  shows "tryPush q x = Some (False, q)"
proof -
  let ?d = "m_dequeuePos q" and ?e = "m_enqueuePos q"
  have e: "?e = ?d + 2 ^ k" using ring_enqueue_pos [of q] full by simp
  have "cell_index q ?e = cell_index q ?d"
    using ring_wf_index [OF wf, of 0] ring_wf_index [OF wf, of "2 ^ k"] e by simp
  moreover have "cell_sequence (m_buffer q ! cell_index q ?d) = ?d + 1"
    using ring_wfD(6) [OF wf, of 0] full by (simp add: ring_cell_def)
  ultimately have neg: "pos_diff (cell_sequence (m_buffer q ! cell_index q ?e)) ?e < 0"
    using pos_diff_full [OF ring_wfD(1,2) [OF wf], of ?d] e by simp
  then have "tryPush_claim q ?e = Some None" by (subst tryPush_claim.simps) (simp add: Let_def)
  then show ?thesis by (simp add: tryPush_def)
qed

lemma tryPop_empty:
  assumes wf: "ring_wf k q" and empty: "ring_length q = 0"
  shows "tryPop q = Some (None, q)"
proof -
  have "cell_sequence (m_buffer q ! cell_index q (m_dequeuePos q)) = m_dequeuePos q"
    using ring_wfD(8) [OF wf, of 0] empty by (simp add: ring_cell_def)
  then have "tryPop_claim q (m_dequeuePos q) = Some None" by (subst tryPop_claim.simps) simp
  then show ?thesis by (simp add: tryPop_def)
qed

lemma tryPop_some:
  assumes wf: "ring_wf k q" and pos: "0 < ring_length q"
  obtains q' where "tryPop q = Some (Some (hd (ring_list q)), q')" and "ring_wf k q'" and "ring_list q' = tl (ring_list q)"
    and "m_dequeuePos q' = m_dequeuePos q + 1" and "m_enqueuePos q' = m_enqueuePos q"
proof -
  let ?n = "ring_length q" and ?d = "m_dequeuePos q"
  define c where "c = \<lparr> cell_sequence = ?d + m_capacity q, cell_data = (None :: 'a option) \<rparr>"
  define q' where "q' = q \<lparr> m_dequeuePos := ?d + 1, m_buffer := (m_buffer q)[cell_index q ?d := c] \<rparr>"
  have "cell_sequence (m_buffer q ! cell_index q ?d) = ?d + 1"
    using ring_wfD(6) [OF wf pos] by (simp add: ring_cell_def)
  then have "tryPop_claim q ?d = Some (Some ?d)" by (subst tryPop_claim.simps) simp
  then have pop: "tryPop q = Some (cell_data (ring_cell q 0), q')" by (simp add: tryPop_def q'_def ring_cell_def c_def)
  have "m_enqueuePos q - (?d + 1) = of_nat ?n - 1" by (subst ring_enqueue_pos) simp
  also have "\<dots> = of_nat (?n - 1)" using pos by (simp add: of_nat_diff)
  finally have "ring_length q' = unat (of_nat (?n - 1) :: 64 word)"
    unfolding ring_length_def [of q'] by (simp add: q'_def)
  moreover have "?n - 1 < 2 ^ 64" using ring_wfD(5) [OF wf] power_less_64 [OF ring_wfD(2) [OF wf]] by simp
  ultimately have len: "ring_length q' = ?n - 1" using unat_of_nat_small by metis
  have cell: "ring_cell q' j = (if j + 1 = 2 ^ k then c else ring_cell q (j + 1))" if j: "j < 2 ^ k" for j
  proof -
    have eq: "ring_cell q' j = (m_buffer q)[cell_index q ?d := c] ! cell_index q (?d + of_nat (j + 1))"
      by (simp add: ring_cell_def q'_def cell_index_def algebra_simps)
    show ?thesis
    proof (cases "j + 1 = 2 ^ k")
      case True
      have "cell_index q (?d + of_nat (2 ^ k)) = cell_index q ?d" "cell_index q ?d < length (m_buffer q)"
        using ring_wf_index [OF wf, of "2 ^ k"] ring_wf_index [OF wf, of 0] ring_wfD(4) [OF wf] by simp_all
      then show ?thesis unfolding eq True by simp
    next
      case False
      then have "j + 1 < 2 ^ k" using j by simp
      then show ?thesis using ring_cell_update [OF wf, of 0 "j + 1" c] False unfolding eq by simp
    qed
  qed
  have last: "1 + of_nat j = (2 ^ k :: 64 word)" if "Suc j = 2 ^ k" for j
    using arg_cong [OF that, of "of_nat :: nat \<Rightarrow> 64 word"] by simp
  have "ring_wf k q'"
    using wf pos len cell last ring_wfD(6-8) [OF wf] unfolding ring_wf_def
    by (auto simp: q'_def c_def less_diff_conv algebra_simps split: if_splits)
  moreover have "ring_list q' = tl (ring_list q)"
  proof -
    have "[0..<?n] = 0 # map Suc [0..<?n - 1]" using pos by (simp add: map_Suc_upt upt_conv_Cons)
    then have "tl (ring_list q) = map (\<lambda>j. the (cell_data (ring_cell q (Suc j)))) [0..<?n - 1]"
      by (simp add: ring_list_def comp_def)
    also have "\<dots> = ring_list q'"
      using ring_wfD(5) [OF wf] cell pos by (auto simp: ring_list_def len)
    finally show ?thesis by simp
  qed
  moreover have "cell_data (ring_cell q 0) = Some (hd (ring_list q))"
    using pos ring_wfD(7) [OF wf pos] by (auto simp: ring_list_def hd_map)
  ultimately show thesis using that pop by (simp add: q'_def)
qed

lemma tryPeek_head:
  assumes wf: "ring_wf k q"
  shows "tryPeek q = (case ring_list q of [] \<Rightarrow> None | x # _ \<Rightarrow> Some x)"
proof (cases "ring_length q")
  case 0
  then have "cell_sequence (m_buffer q ! cell_index q (m_dequeuePos q)) = m_dequeuePos q"
    using ring_wfD(8) [OF wf, of 0] by (simp add: ring_cell_def)
  then show ?thesis using 0 by (simp add: tryPeek_def ring_list_def)
next
  case (Suc n)
  then have "cell_sequence (m_buffer q ! cell_index q (m_dequeuePos q)) = m_dequeuePos q + 1"
    and "cell_data (m_buffer q ! cell_index q (m_dequeuePos q)) \<noteq> None"
    using ring_wfD(6,7) [OF wf, of 0] by (simp_all add: ring_cell_def)
  moreover have "[0..<ring_length q] = 0 # [1..<ring_length q]" using Suc by (simp add: upt_conv_Cons)
  ultimately show ?thesis by (auto simp: tryPeek_def Let_def ring_list_def ring_cell_def)
qed

section \<open>The capacity\<close>

lemma smear_step:
  fixes v w :: "64 word"
  assumes "\<And>i. bit v i \<longleftrightarrow> (\<exists>j<m. bit w (i + j))"
  shows "bit (v OR drop_bit m v) i \<longleftrightarrow> (\<exists>j<2 * m. bit w (i + j))"
proof -
  have "(\<exists>j<2 * m. bit w (i + j)) \<longleftrightarrow> (\<exists>j<m. bit w (i + j)) \<or> (\<exists>j<m. bit w (m + i + j))"
  proof
    assume "\<exists>j<2 * m. bit w (i + j)"
    then obtain j where j: "j < 2 * m" "bit w (i + j)" by blast
    show "(\<exists>j<m. bit w (i + j)) \<or> (\<exists>j<m. bit w (m + i + j))"
    proof (cases "j < m")
      case False
      then have "j - m < m" "m + i + (j - m) = i + j" using j by simp_all
      then show ?thesis using j(2) by metis
    qed (use j in blast)
  next
    assume "(\<exists>j<m. bit w (i + j)) \<or> (\<exists>j<m. bit w (m + i + j))"
    then show "\<exists>j<2 * m. bit w (i + j)"
    proof
      assume "\<exists>j<m. bit w (m + i + j)"
      then obtain j where "j < m" "bit w (m + i + j)" by blast
      then have "m + j < 2 * m" "bit w (i + (m + j))" by (simp_all add: ac_simps)
      then show ?thesis by blast
    next
      assume "\<exists>j<m. bit w (i + j)"
      then obtain j where "j < m" "bit w (i + j)" by blast
      then have "j < 2 * m" "bit w (i + j)" by simp_all
      then show ?thesis by blast
    qed
  qed
  then show ?thesis using assms by (simp add: bit_or_iff bit_drop_bit_eq)
qed

text \<open>The six shifts spread the highest set bit over all lower positions.\<close>

lemma smear_bits:
  fixes w :: "64 word"
  shows "let v = w OR drop_bit 1 w; v = v OR drop_bit 2 v; v = v OR drop_bit 4 v;
             v = v OR drop_bit 8 v; v = v OR drop_bit 16 v; v = v OR drop_bit 32 v
         in bit v i \<longleftrightarrow> (\<exists>j<64. bit w (i + j))"
proof -
  define v1 where "v1 = w OR drop_bit 1 w"
  define v2 where "v2 = v1 OR drop_bit 2 v1"
  define v3 where "v3 = v2 OR drop_bit 4 v2"
  define v4 where "v4 = v3 OR drop_bit 8 v3"
  define v5 where "v5 = v4 OR drop_bit 16 v4"
  define v6 where "v6 = v5 OR drop_bit 32 v5"
  have "bit w i \<longleftrightarrow> (\<exists>j<1. bit w (i + j))" for i by simp
  from smear_step [OF this] have "bit v1 i \<longleftrightarrow> (\<exists>j<2. bit w (i + j))" for i by (simp add: v1_def)
  from smear_step [OF this] have "bit v2 i \<longleftrightarrow> (\<exists>j<4. bit w (i + j))" for i by (simp add: v2_def)
  from smear_step [OF this] have "bit v3 i \<longleftrightarrow> (\<exists>j<8. bit w (i + j))" for i by (simp add: v3_def)
  from smear_step [OF this] have "bit v4 i \<longleftrightarrow> (\<exists>j<16. bit w (i + j))" for i by (simp add: v4_def)
  from smear_step [OF this] have "bit v5 i \<longleftrightarrow> (\<exists>j<32. bit w (i + j))" for i by (simp add: v5_def)
  from smear_step [OF this] have "bit v6 i \<longleftrightarrow> (\<exists>j<64. bit w (i + j))" by (simp add: v6_def)
  then show ?thesis by (simp add: Let_def v1_def v2_def v3_def v4_def v5_def v6_def)
qed

lemma highest_bit:
  fixes w :: "64 word"
  assumes "w \<noteq> 0"
  obtains h where "h < 64" and "bit w h" and "\<And>j. h < j \<Longrightarrow> \<not> bit w j" and "2 ^ h \<le> unat w" and "unat w < 2 ^ Suc h"
proof -
  let ?B = "{b. bit w b}"
  have fin: "finite ?B" by (rule finite_subset [of _ "{..<64}"]) (auto dest: bit_imp_le_length)
  have "?B \<noteq> {}" using assms by (auto simp: bit_eq_iff)
  define h where "h = Max ?B"
  have h: "bit w h" using Max_in [OF fin \<open>?B \<noteq> {}\<close>] by (simp add: h_def)
  have above: "\<not> bit w j" if "h < j" for j
  proof
    assume "bit w j"
    then have "j \<le> Max ?B" using Max_ge [OF fin] by simp
    then show False using that by (simp add: h_def)
  qed
  have "h < 64" using bit_imp_le_length [OF h] by simp
  have "bit (unat w) h" using h by (simp add: bit_unsigned_iff)
  then have "0 < unat w div 2 ^ h" by (auto simp: bit_iff_odd intro: Suc_leI odd_pos)
  then have "2 ^ h \<le> unat w" by (simp add: div_greater_zero_iff)
  moreover have "n \<le> h" if "bit w n" for n using above that not_le by blast
  then have "take_bit (Suc h) (unat w) = unat w"
    by (auto simp: bit_eq_iff bit_take_bit_iff bit_unsigned_iff less_Suc_eq_le)
  then have "unat w < 2 ^ Suc h" by (metis take_bit_nat_less_exp)
  ultimately show thesis using that h above \<open>h < 64\<close> by blast
qed

lemma smear_value:
  fixes w :: "64 word"
  assumes "w \<noteq> 0" and "bit w h" and "\<And>j. h < j \<Longrightarrow> \<not> bit w j" and "h < 64"
  shows "(let v = w OR drop_bit 1 w; v = v OR drop_bit 2 v; v = v OR drop_bit 4 v;
             v = v OR drop_bit 8 v; v = v OR drop_bit 16 v; v = v OR drop_bit 32 v
         in v + 1) = 2 ^ Suc h"
proof -
  define v where "v = (let v = w OR drop_bit 1 w; v = v OR drop_bit 2 v; v = v OR drop_bit 4 v;
             v = v OR drop_bit 8 v; v = v OR drop_bit 16 v in v OR drop_bit 32 v)"
  have bits: "bit v i \<longleftrightarrow> (\<exists>j<64. bit w (i + j))" for i
    using smear_bits [of w i] by (simp only: v_def Let_def)
  have "(\<exists>j<64. bit w (i + j)) \<longleftrightarrow> i < Suc h" for i
  proof
    assume "\<exists>j<64. bit w (i + j)"
    then obtain j where "bit w (i + j)" by blast
    then have "i + j \<le> h" using assms(3) not_le by blast
    then show "i < Suc h" by simp
  next
    assume "i < Suc h"
    then have "h - i < 64" "bit w (i + (h - i))" using assms(2,4) by simp_all
    then show "\<exists>j<64. bit w (i + j)" by blast
  qed
  then have "v = mask (Suc h)"
    using bits assms(4) by (intro bit_word_eqI) (auto simp: bit_mask_iff)
  then have "v + 1 = 2 ^ Suc h" by (simp only: mask_eq_exp_minus_1) simp
  then show ?thesis by (simp only: v_def Let_def)
qed

lemma roundUpPowerOf2_large:
  assumes "2 < v"
  obtains h where "roundUpPowerOf2 v = 2 ^ Suc h" and "h < 64" and "2 ^ h < unat v" and "unat v \<le> 2 ^ Suc h"
proof -
  have v: "unat v > 2" using assms by (simp add: word_less_nat_alt)
  then have w: "unat (v - 1) = unat v - 1" by (simp add: unat_minus_one word_neq_0_conv word_less_nat_alt)
  then have nz: "v - 1 \<noteq> 0" using v by auto
  obtain h where h: "h < 64" "bit (v - 1) h" "\<And>j. h < j \<Longrightarrow> \<not> bit (v - 1) j" "2 ^ h \<le> unat (v - 1)"
    "unat (v - 1) < 2 ^ Suc h"
    using highest_bit [OF nz] by blast
  have nle: "\<not> v \<le> 2" using assms by simp
  have "roundUpPowerOf2 v = 2 ^ Suc h"
    using smear_value [OF nz h(2,3,1)] unfolding roundUpPowerOf2_def Let_def if_not_P [OF nle] by blast
  then show thesis using that h w v by simp
qed

lemma unat_pow2: "k \<le> 63 \<Longrightarrow> unat (2 ^ k :: 64 word) = 2 ^ k"
  using unat_of_nat_small [of "2 ^ k"] power_less_64 [of k] by simp

lemma roundUpPowerOf2_power:
  assumes "unat v \<le> 2 ^ 63"
  obtains k where "1 \<le> k" and "k \<le> 63" and "roundUpPowerOf2 v = 2 ^ k" and "unat v \<le> 2 ^ k"
    and "2 < unat v \<Longrightarrow> 2 ^ k < 2 * unat v"
proof (cases "v \<le> 2")
  case True
  then have "unat v \<le> 2" by (simp add: word_le_nat_alt)
  then show thesis using that [of 1] True by (simp add: roundUpPowerOf2_def)
next
  case False
  then have "2 < v" by simp
  then obtain h where h: "roundUpPowerOf2 v = 2 ^ Suc h" "h < 64" "2 ^ h < unat v" "unat v \<le> 2 ^ Suc h"
    using roundUpPowerOf2_large by blast
  have "(2 :: nat) ^ h < 2 ^ 63" using h(3) assms by simp
  then have "h < 63" by (simp only: power_strict_increasing_iff)
  then show thesis using that [of "Suc h"] h by simp
qed

lemma newQueue_wf:
  assumes "unat c \<le> 2 ^ 63"
  obtains k where "ring_wf k (newQueue c :: 'a MPMCQueue)" and "unat c \<le> 2 ^ k"
    and "ring_list (newQueue c :: 'a MPMCQueue) = []" and "m_capacity (newQueue c :: 'a MPMCQueue) = 2 ^ k"
proof -
  have "unat (if c < 2 then 2 else c) \<le> 2 ^ 63" using assms by auto
  then obtain k where k: "1 \<le> k" "k \<le> 63" "roundUpPowerOf2 (if c < 2 then 2 else c) = 2 ^ k"
    "unat (if c < 2 then 2 else c) \<le> 2 ^ k"
    using roundUpPowerOf2_power by metis
  define q where "q = (newQueue c :: 'a MPMCQueue)"
  have u: "unat (2 ^ k :: 64 word) = 2 ^ k" using k(2) by (rule unat_pow2)
  have q: "m_capacity q = 2 ^ k" "m_mask q = 2 ^ k - 1" "m_enqueuePos q = 0" "m_dequeuePos q = 0"
    "m_buffer q = map (\<lambda>i. \<lparr> cell_sequence = of_nat i, cell_data = None \<rparr>) [0..<2 ^ k]"
    by (simp_all add: q_def newQueue_def Let_def k(3) u)
  have len: "ring_length q = 0" by (simp add: ring_length_def q)
  have cell: "cell_sequence (ring_cell q j) = of_nat j" if "j < 2 ^ k" for j
  proof -
    have "unat (of_nat j :: 64 word) = j"
      using that power_less_64 [OF k(2)] by (intro unat_of_nat_small) simp
    then have "cell_index q (m_dequeuePos q + of_nat j) = j" using that by (simp add: cell_index_def q unat_and_mask)
    then show ?thesis using that by (simp add: ring_cell_def q)
  qed
  have "ring_wf k q" using k cell by (simp add: ring_wf_def len q)
  moreover have "unat c \<le> 2 ^ k" using k(4) by (cases "c < 2") (auto simp: word_less_nat_alt)
  ultimately show thesis using that len q(1) by (simp add: q_def ring_list_def)
qed

section \<open>The ring buffer is a bounded queue\<close>

lemma length_ring_list [simp]: "length (ring_list q) = ring_length q"
  by (simp add: ring_list_def)

lemma ring_wf_capacity: "ring_wf k q \<Longrightarrow> unat (m_capacity q) = 2 ^ k"
  by (simp add: ring_wf_def unat_pow2)

lemma ring_push:
  assumes "ring_inv q"
  shows "\<exists>q'. tryPush q x = Some (length (ring_list q) < unat (m_capacity q), q') \<and> ring_inv q' \<and>
     ring_list q' = (if length (ring_list q) < unat (m_capacity q) then ring_list q @ [x] else ring_list q) \<and>
     m_capacity q' = m_capacity q \<and> m_dequeuePos q' = m_dequeuePos q \<and>
     m_enqueuePos q' = m_enqueuePos q + (if length (ring_list q) < unat (m_capacity q) then 1 else 0)"
proof -
  obtain k where wf: "ring_wf k q" using assms by (auto simp: ring_inv_def)
  show ?thesis
  proof (cases "ring_length q < 2 ^ k")
    case True
    obtain q' where "tryPush q x = Some (True, q')" "ring_wf k q'" "ring_list q' = ring_list q @ [x]"
      "m_dequeuePos q' = m_dequeuePos q" "m_enqueuePos q' = m_enqueuePos q + 1"
      using tryPush_room [OF wf True] .
    then show ?thesis using True ring_wf_capacity [OF wf] ring_wfD(3) [OF wf] ring_wfD(3) [of k q']
      by (auto simp: ring_inv_def)
  next
    case False
    then have "ring_length q = 2 ^ k" using ring_wfD(5) [OF wf] by simp
    then show ?thesis using tryPush_full [OF wf] ring_wf_capacity [OF wf] assms by simp
  qed
qed

lemma ring_pop:
  assumes "ring_inv q"
  shows "\<exists>q'. tryPop q = Some (case ring_list q of [] \<Rightarrow> None | x # _ \<Rightarrow> Some x, q') \<and> ring_inv q' \<and>
     ring_list q' = tl (ring_list q) \<and> m_capacity q' = m_capacity q \<and> (ring_list q = [] \<longrightarrow> q' = q) \<and>
     m_enqueuePos q' = m_enqueuePos q \<and>
     m_dequeuePos q' = m_dequeuePos q + (if ring_list q = [] then 0 else 1)"
proof -
  obtain k where wf: "ring_wf k q" using assms by (auto simp: ring_inv_def)
  show ?thesis
  proof (cases "ring_list q")
    case Nil
    then have "ring_length q = 0" by (simp flip: length_ring_list)
    then show ?thesis using Nil tryPop_empty [OF wf] assms by simp
  next
    case (Cons x xs)
    then have "0 < ring_length q" by (simp flip: length_ring_list)
    then obtain q' where "tryPop q = Some (Some (hd (ring_list q)), q')" "ring_wf k q'" "ring_list q' = tl (ring_list q)"
      "m_dequeuePos q' = m_dequeuePos q + 1" "m_enqueuePos q' = m_enqueuePos q"
      using tryPop_some [OF wf] by blast
    then show ?thesis using Cons ring_wfD(3) [OF wf] ring_wfD(3) [of k q'] by (auto simp: ring_inv_def)
  qed
qed

lemma ring_peek: "ring_inv q \<Longrightarrow> tryPeek q = (case ring_list q of [] \<Rightarrow> None | x # _ \<Rightarrow> Some x)"
  using tryPeek_head by (auto simp: ring_inv_def)

lemma ring_within: "ring_inv q \<Longrightarrow> length (ring_list q) \<le> unat (m_capacity q)"
  using ring_wfD(5) ring_wf_capacity by (fastforce simp: ring_inv_def)

lemma ring_cap_pos: "ring_inv q \<Longrightarrow> 0 < unat (m_capacity q)"
  using ring_wf_capacity by (fastforce simp: ring_inv_def)

lemma ring_size: "ring_budget n q \<Longrightarrow> unat (queue_size q) = length (ring_list q)"
  by (simp add: ring_budget_def queue_size_def ring_length_def)

lemma ring_budget_push:
  "ring_budget (Suc n) q \<Longrightarrow> m_enqueuePos q' = m_enqueuePos q + 1 \<Longrightarrow> m_dequeuePos q' = m_dequeuePos q \<Longrightarrow> ring_budget n q'"
proof -
  assume b: "ring_budget (Suc n) q" and e: "m_enqueuePos q' = m_enqueuePos q + 1" and d: "m_dequeuePos q' = m_dequeuePos q"
  have "unat (m_enqueuePos q + 1) = unat (m_enqueuePos q) + 1"
    using b by (simp add: ring_budget_def unat_word_ariths)
  then show ?thesis using b e d by (simp add: ring_budget_def word_le_nat_alt)
qed

lemma ring_budget_pop:
  "ring_budget n q \<Longrightarrow> ring_list q \<noteq> [] \<Longrightarrow> m_enqueuePos q' = m_enqueuePos q \<Longrightarrow> m_dequeuePos q' = m_dequeuePos q + 1 \<Longrightarrow> ring_budget n q'"
proof -
  assume b: "ring_budget n q" and ne: "ring_list q \<noteq> []" and e: "m_enqueuePos q' = m_enqueuePos q"
    and d: "m_dequeuePos q' = m_dequeuePos q + 1"
  have "ring_length q \<noteq> 0" using ne by (simp flip: length_ring_list)
  then have "m_dequeuePos q \<noteq> m_enqueuePos q" by (auto simp: ring_length_def)
  then have "m_dequeuePos q < m_enqueuePos q" using b by (auto simp: ring_budget_def order_less_le)
  then have "m_dequeuePos q + 1 \<le> m_enqueuePos q" by (rule inc_le)
  then show ?thesis using b e d by (simp add: ring_budget_def)
qed

interpretation ring: bounded_queue
  "\<lambda>n q. ring_inv q \<and> ring_budget n q" ring_list "\<lambda>q. unat (m_capacity q)" tryPush tryPop tryPeek "\<lambda>q. unat (queue_size q)"
proof unfold_locales
  fix n q x
  assume "ring_inv q \<and> ring_budget (Suc n) q" "length (ring_list q) < unat (m_capacity q)"
  then show "\<exists>q'. tryPush q x = Some (True, q') \<and> (ring_inv q' \<and> ring_budget n q') \<and> ring_list q' = ring_list q @ [x] \<and>
      unat (m_capacity q') = unat (m_capacity q)"
    using ring_push [of q x] ring_budget_push [of n q] by fastforce
next
  fix n q x
  assume a: "ring_inv q \<and> ring_budget n q" "length (ring_list q) = unat (m_capacity q)"
  obtain k where wf: "ring_wf k q" using a by (auto simp: ring_inv_def)
  then show "tryPush q x = Some (False, q)" using tryPush_full [OF wf] a ring_wf_capacity [OF wf] by simp
next
  fix n q
  assume "ring_inv q \<and> ring_budget n q" "ring_list q = []"
  then show "tryPop q = Some (None, q)" using ring_pop [of q] by auto
next
  fix n q x xs
  assume "ring_inv q \<and> ring_budget n q" "ring_list q = x # xs"
  then show "\<exists>q'. tryPop q = Some (Some x, q') \<and> (ring_inv q' \<and> ring_budget n q') \<and> ring_list q' = xs \<and>
      unat (m_capacity q') = unat (m_capacity q)"
    using ring_pop [of q] ring_budget_pop [of n q] by fastforce
qed (use ring_peek ring_size ring_within ring_cap_pos in auto)

lemma spin_tryPush_room:
  assumes "tryPush q item = Some (True, r)" and "0 < n"
  shows "spin_tryPush n q item = Some (True, r)"
  using assms by (cases n) simp_all

lemma forcePush_keeps_latest:
  assumes "ring_inv q \<and> ring_budget (Suc n) q"
  shows "\<exists>r. forcePush q item =
       (if length (ring_list q) < unat (m_capacity q) then Some (False, None, r) else Some (True, Some (hd (ring_list q)), r)) \<and>
     ring_inv r \<and> ring_budget n r \<and>
     ring_list r = (if length (ring_list q) < unat (m_capacity q) then ring_list q else tl (ring_list q)) @ [item]"
proof (cases "length (ring_list q) < unat (m_capacity q)")
  case True
  then show ?thesis using ring.push_room [OF assms, of item] by (auto simp: forcePush_def)
next
  case False
  then have full: "length (ring_list q) = unat (m_capacity q)" using ring.within_cap [OF assms] by simp
  obtain q1 q2 where "tryPop q = Some (Some (hd (ring_list q)), q1)" and p: "tryPush q1 item = Some (True, q2)"
    and "ring_inv q2 \<and> ring_budget n q2" and "ring_list q2 = tl (ring_list q) @ [item]"
    using ring.push_after_evict [OF assms full, of item] by metis
  then show ?thesis
    using False ring.push_full [OF assms full, of item] spin_tryPush_room [OF p, of 256] by (simp add: forcePush_def)
qed

lemma ring_run_fifo:
  assumes "ring_inv q"
  shows "\<exists>q'. ring_run ops q = Some (fst (fifo_run (unat (m_capacity q)) ops (ring_list q)), q') \<and> ring_inv q' \<and>
     m_capacity q' = m_capacity q \<and> ring_list q' = snd (fifo_run (unat (m_capacity q)) ops (ring_list q))"
  using assms
proof (induction ops arbitrary: q)
  case (Cons op ops)
  show ?case
  proof (cases op)
    case (PushOp x)
    obtain q1 where q1: "tryPush q x = Some (length (ring_list q) < unat (m_capacity q), q1)" "ring_inv q1"
      "ring_list q1 = (if length (ring_list q) < unat (m_capacity q) then ring_list q @ [x] else ring_list q)"
      "m_capacity q1 = m_capacity q"
      using ring_push [OF Cons.prems, of x] by blast
    then show ?thesis using PushOp Cons.IH [OF q1(2)] by (auto split: prod.splits)
  next
    case PopOp
    obtain q1 where q1: "tryPop q = Some (head_opt (ring_list q), q1)" "ring_inv q1"
      "ring_list q1 = tl (ring_list q)" "m_capacity q1 = m_capacity q"
      using ring_pop [OF Cons.prems] unfolding head_opt_def by blast
    then show ?thesis using PopOp Cons.IH [OF q1(2)] by (auto split: prod.splits)
  next
    case PeekOp
    then show ?thesis using Cons.IH [OF Cons.prems] ring_peek [OF Cons.prems]
      by (auto simp: head_opt_def split: prod.splits)
  qed
qed simp

section \<open>Properties\<close>

text \<open>
  C11. The ring buffer refines a bounded first-in first-out list, from every
  well-formed state and in particular across the wrap-around of its 64-bit
  positions: any sequence of \<open>tryPush\<close>, \<open>tryPop\<close> and \<open>tryPeek\<close> calls returns (no retry
  loop runs forever) with the results the list gives, and leaves a well-formed
  ring that holds the list.
\<close>

theorem ring_refines_fifo:
  assumes "ring_inv q"
  shows "\<exists>q'. ring_run ops q = Some (fst (fifo_run (unat (m_capacity q)) ops (ring_list q)), q') \<and> ring_inv q' \<and>
     ring_list q' = snd (fifo_run (unat (m_capacity q)) ops (ring_list q))"
  using ring_run_fifo [OF assms, of ops] by blast

lemma small_queue:
  "ring_inv (newQueue 2 :: nat MPMCQueue)" "ring_list (newQueue 2 :: nat MPMCQueue) = []"
  "unat (m_capacity (newQueue 2 :: nat MPMCQueue)) = 2"
proof -
  obtain k where "ring_wf k (newQueue 2 :: nat MPMCQueue)" "ring_list (newQueue 2 :: nat MPMCQueue) = []"
    using newQueue_wf [of 2] by auto
  then show "ring_inv (newQueue 2 :: nat MPMCQueue)" "ring_list (newQueue 2 :: nat MPMCQueue) = []"
    by (auto simp: ring_inv_def)
  show "unat (m_capacity (newQueue 2 :: nat MPMCQueue)) = 2" by (simp add: newQueue_def roundUpPowerOf2_def)
qed

theorem ring_refines_fifo_witness:
  "\<exists>q'. ring_run [PushOp 1, PushOp 2, PushOp 3, PeekOp, PopOp, PushOp 4] (newQueue 2 :: nat MPMCQueue)
     = Some ([Pushed True, Pushed True, Pushed False, Got (Some 1), Got (Some 1), Pushed True], q') \<and>
     ring_list q' = [2, 4]"
  using ring_refines_fifo [OF small_queue(1), of "[PushOp 1, PushOp 2, PushOp 3, PeekOp, PopOp, PushOp 4]"]
  by (auto simp: small_queue head_opt_def)

text \<open>
  C12. A queue built for a requested capacity of at most \<open>2 ^ 63\<close> is well formed and
  empty, and its real capacity is the least power of two that is at least the
  request and at least two: the bit-smearing \<open>roundUpPowerOf2\<close> rounds up by less than
  a factor of two.
\<close>

theorem newQueue_capacity:
  assumes "unat c \<le> 2 ^ 63"
  shows "ring_inv (newQueue c :: 'a MPMCQueue) \<and> ring_list (newQueue c :: 'a MPMCQueue) = [] \<and>
     (\<exists>k\<ge>1. unat (m_capacity (newQueue c :: 'a MPMCQueue)) = 2 ^ k \<and> unat c \<le> 2 ^ k \<and>
        (\<forall>l\<ge>1. unat c \<le> 2 ^ l \<longrightarrow> (2 :: nat) ^ k \<le> 2 ^ l))"
proof -
  obtain k where k: "ring_wf k (newQueue c :: 'a MPMCQueue)" "unat c \<le> 2 ^ k" "ring_list (newQueue c :: 'a MPMCQueue) = []"
    "m_capacity (newQueue c :: 'a MPMCQueue) = 2 ^ k"
    using newQueue_wf [OF assms] .
  have cap: "unat (m_capacity (newQueue c :: 'a MPMCQueue)) = 2 ^ k" using ring_wf_capacity [OF k(1)] .
  have "k \<le> l" if l: "1 \<le> l" "unat c \<le> 2 ^ l" for l
  proof (cases "2 < unat c")
    case True
    then have "\<not> c < 2" by (simp add: word_less_nat_alt)
    moreover obtain j where "roundUpPowerOf2 c = 2 ^ j" "j \<le> 63" "2 ^ j < 2 * unat c"
      using roundUpPowerOf2_power [OF assms] True by metis
    ultimately have "(2 :: nat) ^ k < 2 * unat c"
      using cap unat_pow2 [of j] by (simp add: newQueue_def Let_def)
    also have "\<dots> \<le> 2 ^ Suc l" using l by simp
    finally show ?thesis by (simp only: power_strict_increasing_iff)
  next
    case False
    have "c \<le> 2" using False by (simp add: word_le_nat_alt)
    then have "unat (m_capacity (newQueue c :: 'a MPMCQueue)) = 2" by (auto simp: newQueue_def roundUpPowerOf2_def)
    then have "(2 :: nat) ^ k = 2 ^ 1" using cap by simp
    then have "k = 1" by (simp only: power_inject_exp)
    then show ?thesis using l by simp
  qed
  then have "(2 :: nat) ^ k \<le> 2 ^ l" if "1 \<le> l" "unat c \<le> 2 ^ l" for l using that by (simp add: power_increasing)
  then show ?thesis using k cap ring_wfD(1) [OF k(1)] by (auto simp: ring_inv_def)
qed

theorem newQueue_capacity_witness:
  "ring_inv (newQueue 5 :: nat MPMCQueue) \<and> unat (m_capacity (newQueue 5 :: nat MPMCQueue)) = 8"
proof -
  have "ring_inv (newQueue 5 :: nat MPMCQueue)" using newQueue_capacity [where ?'a = nat and c = 5] by simp
  moreover have "unat (m_capacity (newQueue 5 :: nat MPMCQueue)) = 8"
    by (simp add: newQueue_def roundUpPowerOf2_def)
  ultimately show ?thesis by blast
qed

text \<open>Above \<open>2 ^ 63\<close> the rounded capacity wraps to zero.\<close>

lemma roundUpPowerOf2_wraps: "2 ^ 63 < unat v \<Longrightarrow> roundUpPowerOf2 v = 0"
proof -
  assume v: "2 ^ 63 < unat v"
  then have "2 < v" by (simp add: word_less_nat_alt)
  then obtain h where h: "roundUpPowerOf2 v = 2 ^ Suc h" "h < 64" "unat v \<le> 2 ^ Suc h"
    using roundUpPowerOf2_large by blast
  have "(2 :: nat) ^ 63 < 2 ^ Suc h" using v h(3) by simp
  then have "63 < Suc h" by (simp only: power_strict_increasing_iff)
  then have "Suc h = LENGTH(64)" using h(2) by simp
  then show ?thesis using h(1) by (simp only: exp_eq_zero_iff order_refl)
qed

end
