(* ===== verification/Ring_Concurrent.thy ===== *)
theory Ring_Concurrent
  imports Ring_Queue
begin

text \<open>
  \<open>LockFreeMPMCQueue\<close> under concurrency: any number of threads execute \<open>tryPush\<close> and
  \<open>tryPop\<close> on one ring buffer, interleaved at every atomic access and at every access
  to a cell's payload.

  A thread is a program counter with its local \<open>pos\<close> and item; \<open>ring_step\<close> is one
  access by one thread, in the order of the source lines.  Accesses are
  sequentially consistent; \<open>compare_exchange_weak\<close> may fail although the values
  agree.  Two history variables record what happened: \<open>c_pushed\<close> lists the items in
  the order their positions were claimed, \<open>c_popped\<close> the finished pops with their
  positions.

  The proof goes through an abstract machine on unbounded tickets, \<open>ticket_step\<close>,
  whose invariant needs no word arithmetic, and a simulation: as long as fewer than
  \<open>2 ^ 63\<close> items are pushed in total, every step of the ring buffer is a step of the
  ticket machine.
\<close>

section \<open>Threads\<close>

text \<open>The program points, over the items \<open>'a\<close> and the positions \<open>'p\<close>.\<close>

datatype ('a, 'p) pc =
    Idle
  | PushLoad 'a                 \<comment> \<open>about to load \<open>m_enqueuePos\<close> (lines 175, 195)\<close>
  | PushSeq 'a 'p               \<comment> \<open>about to load the cell's sequence (line 179)\<close>
  | PushCas 'a 'p               \<comment> \<open>sequence equals position, about to claim (line 185)\<close>
  | PushWrite 'a 'p             \<comment> \<open>owns the cell, about to write the payload (line 200)\<close>
  | PushPublish 'a 'p           \<comment> \<open>about to publish (line 201)\<close>
  | PopLoad                     \<comment> \<open>about to load \<open>m_dequeuePos\<close> (lines 210, 230)\<close>
  | PopSeq 'p                   \<comment> \<open>about to load the cell's sequence (line 214)\<close>
  | PopCas 'p                   \<comment> \<open>item ready, about to claim (line 220)\<close>
  | PopRead 'p                  \<comment> \<open>owns the cell, about to move the payload out (line 235)\<close>
  | PopRelease 'p "'a option"   \<comment> \<open>about to release the cell (line 236)\<close>

section \<open>The ring buffer\<close>

record 'a conc =
  c_ring :: "'a MPMCQueue"
  c_thr :: "nat \<Rightarrow> ('a, 64 word) pc"
  c_pushed :: "'a list"
  c_popped :: "(nat \<times> 'a option) list"

definition at_cell :: "'a MPMCQueue \<Rightarrow> 64 word \<Rightarrow> 'a Cell" where
  "at_cell q pos = m_buffer q ! cell_index q pos"

definition store_sequence :: "'a MPMCQueue \<Rightarrow> 64 word \<Rightarrow> 64 word \<Rightarrow> 'a MPMCQueue" where
  "store_sequence q pos v = q \<lparr> m_buffer := (m_buffer q)[cell_index q pos := (at_cell q pos) \<lparr> cell_sequence := v \<rparr>] \<rparr>"

definition store_data :: "'a MPMCQueue \<Rightarrow> 64 word \<Rightarrow> 'a option \<Rightarrow> 'a MPMCQueue" where
  "store_data q pos v = q \<lparr> m_buffer := (m_buffer q)[cell_index q pos := (at_cell q pos) \<lparr> cell_data := v \<rparr>] \<rparr>"

definition goto :: "'a conc \<Rightarrow> nat \<Rightarrow> ('a, 64 word) pc \<Rightarrow> 'a conc" where
  "goto s t p = s \<lparr> c_thr := (c_thr s)(t := p) \<rparr>"

inductive ring_step :: "'a conc \<Rightarrow> 'a conc \<Rightarrow> bool" where
  push_start: "c_thr s t = Idle \<Longrightarrow> ring_step s (goto s t (PushLoad x))"
| push_load: "c_thr s t = PushLoad x \<Longrightarrow> ring_step s (goto s t (PushSeq x (m_enqueuePos (c_ring s))))"
| push_free: "c_thr s t = PushSeq x pos \<Longrightarrow> pos_diff (cell_sequence (at_cell (c_ring s) pos)) pos = 0 \<Longrightarrow>
    ring_step s (goto s t (PushCas x pos))"
| push_full: "c_thr s t = PushSeq x pos \<Longrightarrow> pos_diff (cell_sequence (at_cell (c_ring s) pos)) pos < 0 \<Longrightarrow>
    ring_step s (goto s t Idle)"
| push_stale: "c_thr s t = PushSeq x pos \<Longrightarrow> pos_diff (cell_sequence (at_cell (c_ring s) pos)) pos > 0 \<Longrightarrow>
    ring_step s (goto s t (PushLoad x))"
| push_claim: "c_thr s t = PushCas x pos \<Longrightarrow> m_enqueuePos (c_ring s) = pos \<Longrightarrow>
    ring_step s ((goto s t (PushWrite x pos)) \<lparr> c_ring := (c_ring s) \<lparr> m_enqueuePos := pos + 1 \<rparr>,
                   c_pushed := c_pushed s @ [x] \<rparr>)"
| push_retry: "c_thr s t = PushCas x pos \<Longrightarrow> ring_step s (goto s t (PushSeq x (m_enqueuePos (c_ring s))))"
| push_write: "c_thr s t = PushWrite x pos \<Longrightarrow>
    ring_step s ((goto s t (PushPublish x pos)) \<lparr> c_ring := store_data (c_ring s) pos (Some x) \<rparr>)"
| push_publish: "c_thr s t = PushPublish x pos \<Longrightarrow>
    ring_step s ((goto s t Idle) \<lparr> c_ring := store_sequence (c_ring s) pos (pos + 1) \<rparr>)"
| pop_start: "c_thr s t = Idle \<Longrightarrow> ring_step s (goto s t PopLoad)"
| pop_load: "c_thr s t = PopLoad \<Longrightarrow> ring_step s (goto s t (PopSeq (m_dequeuePos (c_ring s))))"
| pop_ready: "c_thr s t = PopSeq pos \<Longrightarrow> pos_diff (cell_sequence (at_cell (c_ring s) pos)) (pos + 1) = 0 \<Longrightarrow>
    ring_step s (goto s t (PopCas pos))"
| pop_empty: "c_thr s t = PopSeq pos \<Longrightarrow> pos_diff (cell_sequence (at_cell (c_ring s) pos)) (pos + 1) < 0 \<Longrightarrow>
    ring_step s (goto s t Idle)"
| pop_stale: "c_thr s t = PopSeq pos \<Longrightarrow> pos_diff (cell_sequence (at_cell (c_ring s) pos)) (pos + 1) > 0 \<Longrightarrow>
    ring_step s (goto s t PopLoad)"
| pop_claim: "c_thr s t = PopCas pos \<Longrightarrow> m_dequeuePos (c_ring s) = pos \<Longrightarrow>
    ring_step s ((goto s t (PopRead pos)) \<lparr> c_ring := (c_ring s) \<lparr> m_dequeuePos := pos + 1 \<rparr> \<rparr>)"
| pop_retry: "c_thr s t = PopCas pos \<Longrightarrow> ring_step s (goto s t (PopSeq (m_dequeuePos (c_ring s))))"
| pop_read: "c_thr s t = PopRead pos \<Longrightarrow>
    ring_step s ((goto s t (PopRelease pos (cell_data (at_cell (c_ring s) pos))))
                   \<lparr> c_ring := store_data (c_ring s) pos None \<rparr>)"
| pop_release: "c_thr s t = PopRelease pos v \<Longrightarrow>
    ring_step s ((goto s t Idle) \<lparr> c_ring := store_sequence (c_ring s) pos (pos + m_capacity (c_ring s)),
                   c_popped := c_popped s @ [(unat pos, v)] \<rparr>)"

definition conc_init :: "64 word \<Rightarrow> 'a conc" where
  "conc_init c = \<lparr> c_ring = newQueue c, c_thr = (\<lambda>_. Idle), c_pushed = [], c_popped = [] \<rparr>"

text \<open>The states of executions in which fewer than \<open>2 ^ 63\<close> items are pushed.\<close>

inductive ring_reach :: "64 word \<Rightarrow> 'a conc \<Rightarrow> bool" for c where
  init: "ring_reach c (conc_init c)"
| step: "ring_reach c s \<Longrightarrow> ring_step s s' \<Longrightarrow>
    unat (m_enqueuePos (c_ring s')) + unat (m_capacity (c_ring s')) < 2 ^ 63 \<Longrightarrow> ring_reach c s'"

text \<open>An executable scheduler: start an operation, or let one thread make its next access.\<close>

datatype 'a action = StartPush nat 'a | StartPop nat | Run nat

fun exec_pc :: "'a conc \<Rightarrow> nat \<Rightarrow> ('a, 64 word) pc \<Rightarrow> 'a conc option" where
  "exec_pc s t Idle = None"
| "exec_pc s t (PushLoad x) = Some (goto s t (PushSeq x (m_enqueuePos (c_ring s))))"
| "exec_pc s t (PushSeq x pos) =
     (let diff = pos_diff (cell_sequence (at_cell (c_ring s) pos)) pos
      in Some (if diff = 0 then goto s t (PushCas x pos) else if diff < 0 then goto s t Idle else goto s t (PushLoad x)))"
| "exec_pc s t (PushCas x pos) = Some
     (if m_enqueuePos (c_ring s) = pos
      then (goto s t (PushWrite x pos)) \<lparr> c_ring := (c_ring s) \<lparr> m_enqueuePos := pos + 1 \<rparr>, c_pushed := c_pushed s @ [x] \<rparr>
      else goto s t (PushSeq x (m_enqueuePos (c_ring s))))"
| "exec_pc s t (PushWrite x pos) = Some ((goto s t (PushPublish x pos)) \<lparr> c_ring := store_data (c_ring s) pos (Some x) \<rparr>)"
| "exec_pc s t (PushPublish x pos) = Some ((goto s t Idle) \<lparr> c_ring := store_sequence (c_ring s) pos (pos + 1) \<rparr>)"
| "exec_pc s t PopLoad = Some (goto s t (PopSeq (m_dequeuePos (c_ring s))))"
| "exec_pc s t (PopSeq pos) =
     (let diff = pos_diff (cell_sequence (at_cell (c_ring s) pos)) (pos + 1)
      in Some (if diff = 0 then goto s t (PopCas pos) else if diff < 0 then goto s t Idle else goto s t PopLoad))"
| "exec_pc s t (PopCas pos) = Some
     (if m_dequeuePos (c_ring s) = pos
      then (goto s t (PopRead pos)) \<lparr> c_ring := (c_ring s) \<lparr> m_dequeuePos := pos + 1 \<rparr> \<rparr>
      else goto s t (PopSeq (m_dequeuePos (c_ring s))))"
| "exec_pc s t (PopRead pos) = Some ((goto s t (PopRelease pos (cell_data (at_cell (c_ring s) pos))))
     \<lparr> c_ring := store_data (c_ring s) pos None \<rparr>)"
| "exec_pc s t (PopRelease pos v) = Some ((goto s t Idle)
     \<lparr> c_ring := store_sequence (c_ring s) pos (pos + m_capacity (c_ring s)), c_popped := c_popped s @ [(unat pos, v)] \<rparr>)"

fun exec_action :: "'a conc \<Rightarrow> 'a action \<Rightarrow> 'a conc option" where
  "exec_action s (StartPush t x) = (case c_thr s t of Idle \<Rightarrow> Some (goto s t (PushLoad x)) | _ \<Rightarrow> None)"
| "exec_action s (StartPop t) = (case c_thr s t of Idle \<Rightarrow> Some (goto s t PopLoad) | _ \<Rightarrow> None)"
| "exec_action s (Run t) = exec_pc s t (c_thr s t)"

fun exec_run :: "'a action list \<Rightarrow> 'a conc \<Rightarrow> 'a conc option" where
  "exec_run [] s = Some s"
| "exec_run (a # as) s = (case exec_action s a of None \<Rightarrow> None
     | Some s' \<Rightarrow> if unat (m_enqueuePos (c_ring s')) + unat (m_capacity (c_ring s')) < 2 ^ 63 then exec_run as s' else None)"

section \<open>The ticket machine\<close>

record 'a tickets =
  t_enq :: nat
  t_deq :: nat
  t_seq :: "nat \<Rightarrow> nat"
  t_data :: "nat \<Rightarrow> 'a option"
  t_thr :: "nat \<Rightarrow> ('a, nat) pc"
  t_pushed :: "'a list"
  t_popped :: "(nat \<times> 'a option) list"

definition tgoto :: "'a tickets \<Rightarrow> nat \<Rightarrow> ('a, nat) pc \<Rightarrow> 'a tickets" where
  "tgoto s t p = s \<lparr> t_thr := (t_thr s)(t := p) \<rparr>"

inductive ticket_step :: "nat \<Rightarrow> 'a tickets \<Rightarrow> 'a tickets \<Rightarrow> bool" for N where
  t_push_start: "t_thr s t = Idle \<Longrightarrow> ticket_step N s (tgoto s t (PushLoad x))"
| t_push_load: "t_thr s t = PushLoad x \<Longrightarrow> ticket_step N s (tgoto s t (PushSeq x (t_enq s)))"
| t_push_free: "t_thr s t = PushSeq x p \<Longrightarrow> t_seq s (p mod N) = p \<Longrightarrow> ticket_step N s (tgoto s t (PushCas x p))"
| t_push_full: "t_thr s t = PushSeq x p \<Longrightarrow> t_seq s (p mod N) < p \<Longrightarrow> ticket_step N s (tgoto s t Idle)"
| t_push_stale: "t_thr s t = PushSeq x p \<Longrightarrow> t_seq s (p mod N) > p \<Longrightarrow> ticket_step N s (tgoto s t (PushLoad x))"
| t_push_claim: "t_thr s t = PushCas x p \<Longrightarrow> t_enq s = p \<Longrightarrow>
    ticket_step N s ((tgoto s t (PushWrite x p)) \<lparr> t_enq := Suc p, t_pushed := t_pushed s @ [x] \<rparr>)"
| t_push_retry: "t_thr s t = PushCas x p \<Longrightarrow> ticket_step N s (tgoto s t (PushSeq x (t_enq s)))"
| t_push_write: "t_thr s t = PushWrite x p \<Longrightarrow>
    ticket_step N s ((tgoto s t (PushPublish x p)) \<lparr> t_data := (t_data s)(p mod N := Some x) \<rparr>)"
| t_push_publish: "t_thr s t = PushPublish x p \<Longrightarrow>
    ticket_step N s ((tgoto s t Idle) \<lparr> t_seq := (t_seq s)(p mod N := Suc p) \<rparr>)"
| t_pop_start: "t_thr s t = Idle \<Longrightarrow> ticket_step N s (tgoto s t PopLoad)"
| t_pop_load: "t_thr s t = PopLoad \<Longrightarrow> ticket_step N s (tgoto s t (PopSeq (t_deq s)))"
| t_pop_ready: "t_thr s t = PopSeq p \<Longrightarrow> t_seq s (p mod N) = Suc p \<Longrightarrow> ticket_step N s (tgoto s t (PopCas p))"
| t_pop_empty: "t_thr s t = PopSeq p \<Longrightarrow> t_seq s (p mod N) < Suc p \<Longrightarrow> ticket_step N s (tgoto s t Idle)"
| t_pop_stale: "t_thr s t = PopSeq p \<Longrightarrow> t_seq s (p mod N) > Suc p \<Longrightarrow> ticket_step N s (tgoto s t PopLoad)"
| t_pop_claim: "t_thr s t = PopCas p \<Longrightarrow> t_deq s = p \<Longrightarrow>
    ticket_step N s ((tgoto s t (PopRead p)) \<lparr> t_deq := Suc p \<rparr>)"
| t_pop_retry: "t_thr s t = PopCas p \<Longrightarrow> ticket_step N s (tgoto s t (PopSeq (t_deq s)))"
| t_pop_read: "t_thr s t = PopRead p \<Longrightarrow>
    ticket_step N s ((tgoto s t (PopRelease p (t_data s (p mod N)))) \<lparr> t_data := (t_data s)(p mod N := None) \<rparr>)"
| t_pop_release: "t_thr s t = PopRelease p v \<Longrightarrow>
    ticket_step N s ((tgoto s t Idle) \<lparr> t_seq := (t_seq s)(p mod N := p + N), t_popped := t_popped s @ [(p, v)] \<rparr>)"

text \<open>Which ticket a thread owns between its claim and its publication or release.\<close>

fun writes :: "('a, 'p) pc \<Rightarrow> 'p option" where
  "writes (PushWrite x p) = Some p"
| "writes (PushPublish x p) = Some p"
| "writes _ = None"

fun reads :: "('a, 'p) pc \<Rightarrow> 'p option" where
  "reads (PopRead p) = Some p"
| "reads (PopRelease p v) = Some p"
| "reads _ = None"

section \<open>The invariant of the ticket machine\<close>

definition free_at :: "nat \<Rightarrow> 'a tickets \<Rightarrow> nat \<Rightarrow> bool" where
  "free_at N s p \<longleftrightarrow> t_seq s (p mod N) = p \<and> t_deq s \<le> p \<and> p < t_deq s + N \<and>
     (p < t_enq s \<longrightarrow> (\<exists>t. writes (t_thr s t) = Some p))"

definition full_at :: "nat \<Rightarrow> 'a tickets \<Rightarrow> nat \<Rightarrow> bool" where
  "full_at N s p \<longleftrightarrow> t_seq s (p mod N) = Suc p \<and> p < t_enq s \<and> t_enq s \<le> p + N \<and>
     (p < t_deq s \<longrightarrow> (\<exists>t. reads (t_thr s t) = Some p)) \<and>
     (t_deq s \<le> p \<longrightarrow> t_data s (p mod N) = Some (t_pushed s ! p))"

definition cell_ok :: "nat \<Rightarrow> 'a tickets \<Rightarrow> nat \<Rightarrow> bool" where
  "cell_ok N s c \<longleftrightarrow> (\<exists>p. p mod N = c \<and> (free_at N s p \<or> full_at N s p))"

fun pc_ok :: "nat \<Rightarrow> 'a tickets \<Rightarrow> ('a, nat) pc \<Rightarrow> bool" where
  "pc_ok N s (PushSeq x p) = (p \<le> t_enq s)"
| "pc_ok N s (PushCas x p) = (p \<le> t_enq s \<and> (p < t_enq s \<or> t_seq s (p mod N) = p))"
| "pc_ok N s (PushWrite x p) = (t_deq s \<le> p \<and> p < t_enq s \<and> t_seq s (p mod N) = p \<and> t_pushed s ! p = x)"
| "pc_ok N s (PushPublish x p) =
     (t_deq s \<le> p \<and> p < t_enq s \<and> t_seq s (p mod N) = p \<and> t_pushed s ! p = x \<and> t_data s (p mod N) = Some x)"
| "pc_ok N s (PopSeq p) = (p \<le> t_deq s)"
| "pc_ok N s (PopCas p) = (p \<le> t_deq s \<and> (p < t_deq s \<or> t_seq s (p mod N) = Suc p))"
| "pc_ok N s (PopRead p) = (p < t_deq s \<and> t_seq s (p mod N) = Suc p \<and> t_data s (p mod N) = Some (t_pushed s ! p))"
| "pc_ok N s (PopRelease p v) = (p < t_deq s \<and> t_seq s (p mod N) = Suc p \<and> v = Some (t_pushed s ! p))"
| "pc_ok N s _ = True"

definition ticket_inv :: "nat \<Rightarrow> 'a tickets \<Rightarrow> bool" where
  "ticket_inv N s \<longleftrightarrow>
     t_deq s \<le> t_enq s \<and> t_enq s \<le> t_deq s + N \<and> t_enq s = length (t_pushed s) \<and>
     (\<forall>c<N. cell_ok N s c) \<and> (\<forall>t. pc_ok N s (t_thr s t)) \<and>
     (\<forall>t t' p. writes (t_thr s t) = Some p \<and> writes (t_thr s t') = Some p \<longrightarrow> t = t') \<and>
     (\<forall>t t' p. reads (t_thr s t) = Some p \<and> reads (t_thr s t') = Some p \<longrightarrow> t = t') \<and>
     (\<forall>(p, v)\<in>set (t_popped s). p < t_deq s \<and> v = Some (t_pushed s ! p) \<and> (\<forall>t. reads (t_thr s t) \<noteq> Some p)) \<and>
     distinct (map fst (t_popped s)) \<and>
     (\<forall>p<t_deq s. p \<in> fst ` set (t_popped s) \<or> (\<exists>t. reads (t_thr s t) = Some p))"

lemma ticket_invI:
  assumes "t_deq s \<le> t_enq s" and "t_enq s \<le> t_deq s + N" and "t_enq s = length (t_pushed s)"
    and "\<And>c. c < N \<Longrightarrow> cell_ok N s c" and "\<And>t. pc_ok N s (t_thr s t)"
    and "\<And>t t' p. writes (t_thr s t) = Some p \<Longrightarrow> writes (t_thr s t') = Some p \<Longrightarrow> t = t'"
    and "\<And>t t' p. reads (t_thr s t) = Some p \<Longrightarrow> reads (t_thr s t') = Some p \<Longrightarrow> t = t'"
    and "\<And>p v. (p, v) \<in> set (t_popped s) \<Longrightarrow> p < t_deq s \<and> v = Some (t_pushed s ! p) \<and> (\<forall>t. reads (t_thr s t) \<noteq> Some p)"
    and "distinct (map fst (t_popped s))"
    and "\<And>p. p < t_deq s \<Longrightarrow> p \<in> fst ` set (t_popped s) \<or> (\<exists>t. reads (t_thr s t) = Some p)"
  shows "ticket_inv N s"
  using assms unfolding ticket_inv_def by blast

lemma ticket_invD:
  assumes "ticket_inv N s"
  shows "t_deq s \<le> t_enq s" and "t_enq s \<le> t_deq s + N" and "t_enq s = length (t_pushed s)"
    and "c < N \<Longrightarrow> cell_ok N s c" and "pc_ok N s (t_thr s t)"
    and "writes (t_thr s t) = Some p \<Longrightarrow> writes (t_thr s t') = Some p \<Longrightarrow> t = t'"
    and "reads (t_thr s t) = Some p \<Longrightarrow> reads (t_thr s t') = Some p \<Longrightarrow> t = t'"
    and "(p, v) \<in> set (t_popped s) \<Longrightarrow> p < t_deq s \<and> v = Some (t_pushed s ! p) \<and> (\<forall>t. reads (t_thr s t) \<noteq> Some p)"
    and "distinct (map fst (t_popped s))"
    and "p < t_deq s \<Longrightarrow> p \<in> fst ` set (t_popped s) \<or> (\<exists>t. reads (t_thr s t) = Some p)"
  using assms unfolding ticket_inv_def by blast+

lemma mod_Suc_neq: "2 \<le> N \<Longrightarrow> p mod N = q mod N \<Longrightarrow> q \<noteq> Suc p"
  by (metis mod_Suc Suc_n_not_le_n n_not_Suc_n numeral_2_eq_2 le_refl nat.distinct(1))

text \<open>A thread that owns no cell moves to a point where it owns none: nothing shared changes.\<close>

lemma ticket_silent:
  assumes inv: "ticket_inv N s"
    and old: "writes (t_thr s t) = None" "reads (t_thr s t) = None"
    and new: "writes q = None" "reads q = None" "pc_ok N s q"
  shows "ticket_inv N (tgoto s t q)"
proof -
  have W: "writes (t_thr (tgoto s t q) t') = writes (t_thr s t')" for t' using old new by (simp add: tgoto_def)
  have R: "reads (t_thr (tgoto s t q) t') = reads (t_thr s t')" for t' using old new by (simp add: tgoto_def)
  have sh: "t_deq (tgoto s t q) = t_deq s" "t_enq (tgoto s t q) = t_enq s" "t_seq (tgoto s t q) = t_seq s"
    "t_data (tgoto s t q) = t_data s" "t_pushed (tgoto s t q) = t_pushed s" "t_popped (tgoto s t q) = t_popped s"
    by (simp_all add: tgoto_def)
  have P: "pc_ok N (tgoto s t q) r = pc_ok N s r" for r by (cases r) (simp_all add: sh)
  have T: "pc_ok N s (t_thr (tgoto s t q) t')" for t' using ticket_invD(5) [OF inv] new(3) by (simp add: tgoto_def)
  show ?thesis
    using inv T unfolding ticket_inv_def cell_ok_def free_at_def full_at_def W R sh P by blast
qed

text \<open>The cell of a ticket, by its sequence number.\<close>

lemma cell_okE:
  assumes "ticket_inv N s" and "c < N"
  obtains (free) p where "p mod N = c" and "free_at N s p" | (full) p where "p mod N = c" and "full_at N s p"
  using ticket_invD(4) [OF assms] unfolding cell_ok_def by blast

lemma free_at_ticket:
  assumes inv: "ticket_inv N s" and N: "2 \<le> N" and seq: "t_seq s (p mod N) = p"
  shows "free_at N s p"
proof -
  have "p mod N < N" using N by simp
  then consider (free) r where "r mod N = p mod N" "free_at N s r" | (full) r where "r mod N = p mod N" "full_at N s r"
    using cell_okE [OF inv] by metis
  then show ?thesis
  proof cases
    case free
    then have "r = p" using seq unfolding free_at_def by metis
    then show ?thesis using free by simp
  next
    case full
    then have "p = Suc r" using seq unfolding full_at_def by metis
    then show ?thesis using mod_Suc_neq [OF N full(1)] by blast
  qed
qed

lemma full_at_ticket:
  assumes inv: "ticket_inv N s" and N: "2 \<le> N" and seq: "t_seq s (p mod N) = Suc p"
  shows "full_at N s p"
proof -
  have "p mod N < N" using N by simp
  then consider (free) r where "r mod N = p mod N" "free_at N s r" | (full) r where "r mod N = p mod N" "full_at N s r"
    using cell_okE [OF inv] by metis
  then show ?thesis
  proof cases
    case free
    then have "r = Suc p" using seq unfolding free_at_def by metis
    then show ?thesis using mod_Suc_neq [OF N free(1) [symmetric]] by blast
  next
    case full
    then have "r = p" using seq unfolding full_at_def by (metis nat.inject)
    then show ?thesis using full by simp
  qed
qed

text \<open>
  To keep the cells well formed it is enough to follow each ticket: a free cell
  stays free or becomes full, a full one stays full or becomes free for the ticket
  one round later.
\<close>

lemma cells_preserved:
  assumes inv: "ticket_inv N s" and c: "c < N"
    and "\<And>p. p mod N = c \<Longrightarrow> free_at N s p \<Longrightarrow> free_at N s' p \<or> full_at N s' p"
    and "\<And>p. p mod N = c \<Longrightarrow> full_at N s p \<Longrightarrow> full_at N s' p \<or> free_at N s' (p + N)"
  shows "cell_ok N s' c"
proof -
  consider (free) p where "p mod N = c" "free_at N s p" | (full) p where "p mod N = c" "full_at N s p"
    using cell_okE [OF inv c] by metis
  then show ?thesis
  proof cases
    case free
    then show ?thesis using assms(3) [of p] by (auto simp: cell_ok_def)
  next
    case full
    moreover have "(p + N) mod N = p mod N" by simp
    ultimately show ?thesis using assms(4) [of p] unfolding cell_ok_def by metis
  qed
qed

text \<open>The ticket whose cell a program point makes a claim about, and the frame rule.\<close>

fun looks :: "('a, 'p) pc \<Rightarrow> 'p option" where
  "looks (PushCas x p) = Some p"
| "looks (PushWrite x p) = Some p"
| "looks (PushPublish x p) = Some p"
| "looks (PopCas p) = Some p"
| "looks (PopRead p) = Some p"
| "looks (PopRelease p v) = Some p"
| "looks _ = None"

lemma pc_ok_frame:
  assumes "pc_ok N s q" and "t_enq s' = t_enq s" and "t_deq s' = t_deq s" and "t_pushed s' = t_pushed s"
    and "\<And>r. looks q = Some r \<Longrightarrow> t_seq s' (r mod N) = t_seq s (r mod N) \<and> t_data s' (r mod N) = t_data s (r mod N)"
  shows "pc_ok N s' q"
  using assms by (cases q) auto

lemma pc_on_free_cell:
  assumes "pc_ok N s q" and "looks q = Some r" and "r mod N = p mod N" and N: "2 \<le> N" and "t_seq s (p mod N) = p"
  shows "writes q = Some p \<or> (\<exists>y. q = PushCas y r \<and> r \<le> t_enq s \<and> (r < t_enq s \<or> r = p)) \<or> q = PopCas r \<and> r < t_deq s"
proof -
  have "p \<noteq> Suc r" using mod_Suc_neq [OF N assms(3)] .
  then show ?thesis using assms by (cases q) auto
qed

lemma pc_on_full_cell:
  assumes "pc_ok N s q" and "looks q = Some r" and "r mod N = p mod N" and N: "2 \<le> N" and "t_seq s (p mod N) = Suc p"
  shows "reads q = Some p \<or> (\<exists>y. q = PushCas y r \<and> r < t_enq s) \<or> q = PopCas r \<and> r \<le> t_deq s \<and> (r < t_deq s \<or> r = p)"
proof -
  have "r \<noteq> Suc p" using mod_Suc_neq [OF N assms(3) [symmetric]] .
  then show ?thesis using assms by (cases q) auto
qed

lemma ticket_push_claim:
  assumes inv: "ticket_inv N s" and N: "2 \<le> N" and t: "t_thr s t = PushCas x p" and e: "t_enq s = p"
  shows "ticket_inv N ((tgoto s t (PushWrite x p)) \<lparr> t_enq := Suc p, t_pushed := t_pushed s @ [x] \<rparr>)" (is "ticket_inv N ?s")
proof -
  let ?thr = "(t_thr s)(t := PushWrite x p)"
  have sh: "t_enq ?s = Suc p" "t_deq ?s = t_deq s" "t_seq ?s = t_seq s" "t_data ?s = t_data s"
    "t_pushed ?s = t_pushed s @ [x]" "t_popped ?s = t_popped s" "t_thr ?s = ?thr" by (simp_all add: tgoto_def)
  have seq: "t_seq s (p mod N) = p" using ticket_invD(5) [OF inv, of t] t e by simp
  have len: "length (t_pushed s) = p" using ticket_invD(3) [OF inv] e by simp
  have W: "writes (?thr t') = (if t' = t then Some p else writes (t_thr s t'))" for t' by simp
  have R: "reads (?thr t') = reads (t_thr s t')" for t' using t by simp
  have nW: "writes (t_thr s t') \<noteq> Some p" for t'
    using ticket_invD(5) [OF inv, of t'] e by (cases "t_thr s t'") auto
  have "writes (t_thr s t) = None" by (simp add: t)
  then have wW: "\<exists>t'. writes (?thr t') = Some r" if "r = p \<or> (\<exists>t'. writes (t_thr s t') = Some r)" for r
    unfolding W using that by (metis option.distinct(1))
  have d: "t_deq s \<le> p" "p < t_deq s + N" using free_at_ticket [OF inv N seq] by (auto simp: free_at_def)
  have log: "(t_pushed s @ [x]) ! r = t_pushed s ! r" if "r < p" for r using that len by (simp add: nth_append)
  have last: "(t_pushed s @ [x]) ! p = x" using len by (metis nth_append_length)
  show ?thesis
  proof (rule ticket_invI, unfold sh)
    fix c assume "c < N"
    with inv show "cell_ok N ?s c"
    proof (rule cells_preserved)
      fix r assume "free_at N s r"
      then show "free_at N ?s r \<or> full_at N ?s r"
        using wW [of r] e unfolding free_at_def sh less_Suc_eq by blast
    next
      fix r assume r: "r mod N = c" "full_at N s r"
      have "p \<noteq> r + N" using r seq N by (auto simp: full_at_def)
      then show "full_at N ?s r \<or> free_at N ?s (r + N)"
        using r(2) e log [of r] unfolding full_at_def sh R by auto
    qed
  next
    fix t'
    show "pc_ok N ?s (?thr t')"
    proof (cases "t' = t")
      case True
      then show ?thesis using d seq last by (simp add: tgoto_def)
    next
      case False
      then show ?thesis using ticket_invD(5) [OF inv, of t'] log d e by (cases "t_thr s t'") (auto simp: tgoto_def)
    qed
  next
    fix t1 t2 r assume "writes (?thr t1) = Some r" "writes (?thr t2) = Some r"
    then show "t1 = t2" using nW ticket_invD(6) [OF inv, of t1 r t2] unfolding W by (auto split: if_splits)
  next
    fix t1 t2 r assume "reads (?thr t1) = Some r" "reads (?thr t2) = Some r"
    then show "t1 = t2" using ticket_invD(7) [OF inv] unfolding R by blast
  next
    fix r v assume "(r, v) \<in> set (t_popped s)"
    with ticket_invD(8) [OF inv, of r v]
    show "r < t_deq s \<and> v = Some ((t_pushed s @ [x]) ! r) \<and> (\<forall>t'. reads (?thr t') \<noteq> Some r)"
      using log [of r] d unfolding R by simp
  next
    fix r assume "r < t_deq s"
    then show "r \<in> fst ` set (t_popped s) \<or> (\<exists>t'. reads (?thr t') = Some r)"
      using ticket_invD(10) [OF inv] unfolding R by blast
  qed (use d len ticket_invD(9) [OF inv] in simp_all)
qed

lemma ticket_pop_claim:
  assumes inv: "ticket_inv N s" and N: "2 \<le> N" and t: "t_thr s t = PopCas p" and d: "t_deq s = p"
  shows "ticket_inv N ((tgoto s t (PopRead p)) \<lparr> t_deq := Suc p \<rparr>)" (is "ticket_inv N ?s")
proof -
  let ?thr = "(t_thr s)(t := PopRead p)"
  have sh: "t_enq ?s = t_enq s" "t_deq ?s = Suc p" "t_seq ?s = t_seq s" "t_data ?s = t_data s"
    "t_pushed ?s = t_pushed s" "t_popped ?s = t_popped s" "t_thr ?s = ?thr" by (simp_all add: tgoto_def)
  have seq: "t_seq s (p mod N) = Suc p" using ticket_invD(5) [OF inv, of t] t d by simp
  have full: "p < t_enq s" "t_data s (p mod N) = Some (t_pushed s ! p)"
    using full_at_ticket [OF inv N seq] d by (auto simp: full_at_def)
  have W: "writes (?thr t') = writes (t_thr s t')" for t' using t by simp
  have R: "reads (?thr t') = (if t' = t then Some p else reads (t_thr s t'))" for t' by simp
  have nR: "reads (t_thr s t') \<noteq> Some p" for t'
    using ticket_invD(5) [OF inv, of t'] d by (cases "t_thr s t'") auto
  have "reads (t_thr s t) = None" by (simp add: t)
  then have rR: "\<exists>t'. reads (?thr t') = Some r" if "r = p \<or> (\<exists>t'. reads (t_thr s t') = Some r)" for r
    unfolding R using that by (metis option.distinct(1))
  have past: "Suc p \<le> r" if "t_seq s (r mod N) = r" "p \<le> r" for r
  proof -
    have "r \<noteq> p" using that(1) seq by auto
    then show ?thesis using that(2) by simp
  qed
  show ?thesis
  proof (rule ticket_invI, unfold sh)
    fix c assume "c < N"
    with inv show "cell_ok N ?s c"
    proof (rule cells_preserved)
      fix r assume "free_at N s r"
      then show "free_at N ?s r \<or> full_at N ?s r" using past [of r] d unfolding free_at_def sh W by simp
    next
      fix r assume "full_at N s r"
      then show "full_at N ?s r \<or> free_at N ?s (r + N)" using rR [of r] d unfolding full_at_def sh less_Suc_eq by auto
    qed
  next
    fix t'
    show "pc_ok N ?s (?thr t')"
    proof (cases "t' = t")
      case True
      then show ?thesis using seq full by (simp add: tgoto_def)
    next
      case False
      have "t_seq s (r mod N) = r \<and> p \<le> r" if "writes (t_thr s t') = Some r" for r
        using ticket_invD(5) [OF inv, of t'] that d by (cases "t_thr s t'") auto
      then have "Suc p \<le> r" if "writes (t_thr s t') = Some r" for r using past that by blast
      then show ?thesis using ticket_invD(5) [OF inv, of t'] d False
        by (cases "t_thr s t'") (auto simp: tgoto_def)
    qed
  next
    fix t1 t2 r assume "reads (?thr t1) = Some r" "reads (?thr t2) = Some r"
    then show "t1 = t2" using nR ticket_invD(7) [OF inv, of t1 r t2] unfolding R by (auto split: if_splits)
  next
    fix t1 t2 r assume "writes (?thr t1) = Some r" "writes (?thr t2) = Some r"
    then show "t1 = t2" using ticket_invD(6) [OF inv] unfolding W by blast
  next
    fix r v assume "(r, v) \<in> set (t_popped s)"
    with ticket_invD(8) [OF inv, of r v] show "r < Suc p \<and> v = Some (t_pushed s ! r) \<and> (\<forall>t'. reads (?thr t') \<noteq> Some r)"
      using d unfolding R by auto
  next
    fix r assume "r < Suc p"
    then show "r \<in> fst ` set (t_popped s) \<or> (\<exists>t'. reads (?thr t') = Some r)"
      using rR [of r] ticket_invD(10) [OF inv, of r] d unfolding less_Suc_eq by blast
  qed (use full d ticket_invD(2,3,9) [OF inv] in simp_all)
qed

text \<open>
  Between its claim and its publication or release a thread owns its cell: no
  other thread owns the same cell at the same time.
\<close>

fun owns :: "('a, 'p) pc \<Rightarrow> 'p option" where
  "owns (PushWrite x p) = Some p"
| "owns (PushPublish x p) = Some p"
| "owns (PopRead p) = Some p"
| "owns (PopRelease p v) = Some p"
| "owns _ = None"

lemma owns_iff: "owns q = Some p \<longleftrightarrow> writes q = Some p \<or> reads q = Some p"
  by (cases q) auto

lemma owns_seq:
  assumes "ticket_inv N s" and "owns (t_thr s t) = Some p"
  shows "t_seq s (p mod N) = (if writes (t_thr s t) = Some p then p else Suc p)" and "looks (t_thr s t) = Some p"
    and "p < t_enq s" and "reads (t_thr s t) = Some p \<Longrightarrow> p < t_deq s"
  using ticket_invD(5) [OF assms(1), of t] ticket_invD(1) [OF assms(1)] assms(2) by (cases "t_thr s t"; auto)+

lemma owner_unique:
  assumes inv: "ticket_inv N s" and N: "2 \<le> N"
    and t: "owns (t_thr s t) = Some p" and t': "owns (t_thr s t') = Some r" and same: "r mod N = p mod N"
  shows "t' = t"
proof (cases "writes (t_thr s t) = Some p")
  case True
  then have "t_seq s (p mod N) = p" using owns_seq(1) [OF inv t] by simp
  from pc_on_free_cell [OF ticket_invD(5) [OF inv] owns_seq(2) [OF inv t'] same N this]
  have "writes (t_thr s t') = Some p" using t' by auto
  then show ?thesis using ticket_invD(6) [OF inv] True by blast
next
  case False
  then have r: "reads (t_thr s t) = Some p" and "t_seq s (p mod N) = Suc p"
    using owns_seq(1) [OF inv t] t owns_iff by (metis, simp)
  from pc_on_full_cell [OF ticket_invD(5) [OF inv] owns_seq(2) [OF inv t'] same N this(2)]
  have "reads (t_thr s t') = Some p" using t' by auto
  then show ?thesis using ticket_invD(7) [OF inv] r by blast
qed

text \<open>A payload access by the owner of the cell.\<close>

lemma ticket_data_step:
  assumes inv: "ticket_inv N s" and N: "2 \<le> N" and t: "owns (t_thr s t) = Some p"
    and q: "writes q = writes (t_thr s t)" "reads q = reads (t_thr s t)"
      "pc_ok N ((tgoto s t q) \<lparr> t_data := (t_data s)(p mod N := v) \<rparr>) q"
  shows "ticket_inv N ((tgoto s t q) \<lparr> t_data := (t_data s)(p mod N := v) \<rparr>)" (is "ticket_inv N ?s")
proof -
  let ?thr = "(t_thr s)(t := q)"
  have sh: "t_enq ?s = t_enq s" "t_deq ?s = t_deq s" "t_seq ?s = t_seq s" "t_data ?s = (t_data s)(p mod N := v)"
    "t_pushed ?s = t_pushed s" "t_popped ?s = t_popped s" "t_thr ?s = ?thr" by (simp_all add: tgoto_def)
  have W: "writes (?thr t') = writes (t_thr s t')" for t' using q by simp
  have R: "reads (?thr t') = reads (t_thr s t')" for t' using q by simp
  have free: "free_at N ?s r = free_at N s r" for r unfolding free_at_def sh W ..
  have full: "full_at N ?s r" if r: "full_at N s r" for r
  proof (cases "r mod N = p mod N \<and> t_deq s \<le> r")
    case True
    then have "t_seq s (p mod N) = Suc r" using r by (simp add: full_at_def)
    moreover have "p \<noteq> Suc r" using mod_Suc_neq [OF N] True by blast
    ultimately have "writes (t_thr s t) \<noteq> Some p" "r = p" using owns_seq(1) [OF inv t] by (auto split: if_splits)
    then show ?thesis using owns_seq(4) [OF inv t] t True owns_iff by force
  next
    case False
    then show ?thesis using r unfolding full_at_def sh R by auto
  qed
  have pcs: "pc_ok N ?s (?thr t')" for t'
  proof (cases "t' = t")
    case True
    then show ?thesis using q(3) by simp
  next
    case False
    then have "r mod N \<noteq> p mod N" if "owns (t_thr s t') = Some r" for r
      using owner_unique [OF inv N t that] by blast
    then show ?thesis using ticket_invD(5) [OF inv, of t'] False by (cases "t_thr s t'") (auto simp: sh)
  qed
  have cells: "cell_ok N ?s c" if "c < N" for c
    using cells_preserved [OF inv that] free full by blast
  show ?thesis
    unfolding ticket_inv_def sh W R using pcs cells inv [unfolded ticket_inv_def] by blast
qed

text \<open>The end of a push or a pop: the owner gives its cell up.\<close>

lemma pc_ok_others:
  assumes inv: "ticket_inv N s" and N: "2 \<le> N" and t: "owns (t_thr s t) = Some p" and "t' \<noteq> t"
    and "t_enq s' = t_enq s" and "t_deq s' = t_deq s" and "t_pushed s' = t_pushed s" and "t_data s' = t_data s"
    and "t_seq s' = (t_seq s)(p mod N := w)"
  shows "pc_ok N s' (t_thr s t')"
proof (cases "\<exists>r. looks (t_thr s t') = Some r \<and> r mod N = p mod N")
  case False
  then show ?thesis using assms(5-) by (intro pc_ok_frame [OF ticket_invD(5) [OF inv, of t']]) auto
next
  case True
  then obtain r where r: "looks (t_thr s t') = Some r" "r mod N = p mod N" by blast
  have "owns (t_thr s t') \<noteq> Some r" using owner_unique [OF inv N t _ r(2)] assms(4) by blast
  then consider y where "t_thr s t' = PushCas y r" | "t_thr s t' = PopCas r" using r(1) by (cases "t_thr s t'") auto
  then show ?thesis
  proof cases
    case 1
    have "r < t_enq s"
    proof (cases "writes (t_thr s t) = Some p")
      case True
      then have "t_seq s (p mod N) = p" using owns_seq(1) [OF inv t] by simp
      from pc_on_free_cell [OF ticket_invD(5) [OF inv] r N this] show ?thesis using 1 owns_seq(3) [OF inv t] by auto
    next
      case False
      then have "t_seq s (p mod N) = Suc p" using owns_seq(1) [OF inv t] by simp
      from pc_on_full_cell [OF ticket_invD(5) [OF inv] r N this] show ?thesis using 1 by auto
    qed
    then show ?thesis using 1 assms(5) by simp
  next
    case 2
    have "r < t_deq s"
    proof (cases "writes (t_thr s t) = Some p")
      case True
      then have "t_seq s (p mod N) = p" using owns_seq(1) [OF inv t] by simp
      from pc_on_free_cell [OF ticket_invD(5) [OF inv] r N this] show ?thesis using 2 by auto
    next
      case False
      then have "t_seq s (p mod N) = Suc p" "p < t_deq s"
        using owns_seq(1,4) [OF inv t] t owns_iff by (simp, metis)
      from pc_on_full_cell [OF ticket_invD(5) [OF inv] r N this(1)] show ?thesis using 2 \<open>p < t_deq s\<close> by auto
    qed
    then show ?thesis using 2 assms(6) by simp
  qed
qed

lemma ticket_push_publish:
  assumes inv: "ticket_inv N s" and N: "2 \<le> N" and t: "t_thr s t = PushPublish x p"
  shows "ticket_inv N ((tgoto s t Idle) \<lparr> t_seq := (t_seq s)(p mod N := Suc p) \<rparr>)" (is "ticket_inv N ?s")
proof -
  let ?thr = "(t_thr s)(t := Idle)"
  have sh: "t_enq ?s = t_enq s" "t_deq ?s = t_deq s" "t_seq ?s = (t_seq s)(p mod N := Suc p)" "t_data ?s = t_data s"
    "t_pushed ?s = t_pushed s" "t_popped ?s = t_popped s" "t_thr ?s = ?thr" by (simp_all add: tgoto_def)
  have ok: "t_deq s \<le> p" "p < t_enq s" "t_seq s (p mod N) = p" "t_pushed s ! p = x" "t_data s (p mod N) = Some x"
    using ticket_invD(5) [OF inv, of t] t by simp_all
  have own: "owns (t_thr s t) = Some p" using t by simp
  have W: "writes (?thr t') = (if t' = t then None else writes (t_thr s t'))" for t' by simp
  have R: "reads (?thr t') = reads (t_thr s t')" for t' using t by simp
  have free: "free_at N ?s r \<or> full_at N ?s r" if r: "free_at N s r" for r
  proof (cases "r = p")
    case True
    then show ?thesis using ok ticket_invD(2) [OF inv] unfolding full_at_def sh R by simp
  next
    case False
    then have "r mod N \<noteq> p mod N" using r ok(3) unfolding free_at_def by metis
    moreover have "\<exists>t'. writes (?thr t') = Some r" if "r < t_enq s"
      using r that False t unfolding free_at_def W by (metis option.inject writes.simps(2))
    ultimately show ?thesis using r unfolding free_at_def sh by simp
  qed
  have full: "full_at N ?s r" if r: "full_at N s r" for r
  proof -
    have "r mod N \<noteq> p mod N" using r ok(3) mod_Suc_neq [OF N, of r p] unfolding full_at_def by metis
    then show ?thesis using r unfolding full_at_def sh R by simp
  qed
  have pcs: "pc_ok N ?s (?thr t')" for t'
    using pc_ok_others [OF inv N own _ sh(1,2,5,4,3)] by (cases "t' = t") simp_all
  have cells: "cell_ok N ?s c" if "c < N" for c using cells_preserved [OF inv that] free full by blast
  have wu: "\<forall>t1 t2 p'. writes (?thr t1) = Some p' \<and> writes (?thr t2) = Some p' \<longrightarrow> t1 = t2"
    unfolding W using ticket_invD(6) [OF inv] by (metis option.distinct(1))
  show ?thesis
    unfolding ticket_inv_def sh R using wu pcs cells inv [unfolded ticket_inv_def] by blast
qed

lemma ticket_pop_release:
  assumes inv: "ticket_inv N s" and N: "2 \<le> N" and t: "t_thr s t = PopRelease p v"
  shows "ticket_inv N ((tgoto s t Idle) \<lparr> t_seq := (t_seq s)(p mod N := p + N), t_popped := t_popped s @ [(p, v)] \<rparr>)"
    (is "ticket_inv N ?s")
proof -
  let ?thr = "(t_thr s)(t := Idle)"
  have sh: "t_enq ?s = t_enq s" "t_deq ?s = t_deq s" "t_seq ?s = (t_seq s)(p mod N := p + N)" "t_data ?s = t_data s"
    "t_pushed ?s = t_pushed s" "t_popped ?s = t_popped s @ [(p, v)]" "t_thr ?s = ?thr" by (simp_all add: tgoto_def)
  have ok: "p < t_deq s" "t_seq s (p mod N) = Suc p" "v = Some (t_pushed s ! p)"
    using ticket_invD(5) [OF inv, of t] t by simp_all
  have own: "owns (t_thr s t) = Some p" using t by simp
  have W: "writes (?thr t') = writes (t_thr s t')" for t' using t by simp
  have R: "reads (?thr t') = (if t' = t then None else reads (t_thr s t'))" for t' by simp
  have gone: "reads (?thr t') \<noteq> Some p" for t'
    unfolding R using ticket_invD(7) [OF inv, of t p t'] t by auto
  have kept: "\<exists>t'. reads (?thr t') = Some r" if "reads (t_thr s t') = Some r" "r \<noteq> p" for r t'
    unfolding R using that t by (intro exI [of _ t']) auto
  have free: "free_at N ?s r" if r: "free_at N s r" for r
  proof -
    have "r mod N \<noteq> p mod N" using r ok(2) mod_Suc_neq [OF N, of p r] unfolding free_at_def by metis
    then show ?thesis using r unfolding free_at_def sh W by simp
  qed
  have full: "full_at N ?s r \<or> free_at N ?s (r + N)" if r: "full_at N s r" for r
  proof (cases "r = p")
    case True
    then have "t_enq s \<le> p + N" using r by (simp add: full_at_def)
    then show ?thesis using True ok ticket_invD(1) [OF inv] unfolding free_at_def sh by simp
  next
    case False
    then have "r mod N \<noteq> p mod N" using r ok(2) unfolding full_at_def by (metis nat.inject)
    then have seq: "((t_seq s)(p mod N := p + N)) (r mod N) = t_seq s (r mod N)" by simp
    have "r < t_deq s \<Longrightarrow> \<exists>t'. reads (?thr t') = Some r" using r kept False unfolding full_at_def by blast
    then show ?thesis using r unfolding full_at_def sh seq by blast
  qed
  have pcs: "pc_ok N ?s (?thr t')" for t'
    using pc_ok_others [OF inv N own _ sh(1,2,5,4,3)] by (cases "t' = t") simp_all
  have cells: "cell_ok N ?s c" if "c < N" for c using cells_preserved [OF inv that] free full by blast
  have ru: "\<forall>t1 t2 p'. reads (?thr t1) = Some p' \<and> reads (?thr t2) = Some p' \<longrightarrow> t1 = t2"
    unfolding R using ticket_invD(7) [OF inv] by (metis option.distinct(1))
  have "reads (t_thr s t) = Some p" using t by simp
  then have fresh: "p \<notin> fst ` set (t_popped s)" using ticket_invD(8) [OF inv] by force
  have popped: "r < t_deq s \<and> u = Some (t_pushed s ! r) \<and> (\<forall>t'. reads (?thr t') \<noteq> Some r)"
    if "(r, u) \<in> set (t_popped s @ [(p, v)])" for r u
  proof (cases "(r, u) \<in> set (t_popped s)")
    case True
    then show ?thesis using ticket_invD(8) [OF inv True] unfolding R by simp
  next
    case False
    then have "r = p" "u = v" using that by auto
    then show ?thesis using ok gone by blast
  qed
  have all: "r \<in> fst ` set (t_popped s @ [(p, v)]) \<or> (\<exists>t'. reads (?thr t') = Some r)" if "r < t_deq s" for r
    using ticket_invD(10) [OF inv that] kept by (cases "r = p") (auto simp del: fun_upd_apply)
  have dist: "distinct (map fst (t_popped s @ [(p, v)]))" using ticket_invD(9) [OF inv] fresh by simp
  show ?thesis
    using cells pcs ru popped all dist ticket_invD(1-3,6) [OF inv]
    by (intro ticket_invI) (simp_all only: sh W, blast+)
qed

lemma ticket_step_inv:
  assumes "ticket_step N s s'" and "ticket_inv N s" and N: "2 \<le> N"
  shows "ticket_inv N s'"
  using assms(1,2)
proof (cases rule: ticket_step.cases)
  case (t_push_write t x p)
  then show ?thesis using ticket_invD(5) [OF assms(2), of t] ticket_data_step [OF assms(2) N, of t p] by (auto simp: tgoto_def)
next
  case (t_pop_read t p)
  then show ?thesis using ticket_invD(5) [OF assms(2), of t] ticket_data_step [OF assms(2) N, of t p] by (auto simp: tgoto_def)
next
  case (t_push_free t x p)
  then show ?thesis using ticket_invD(5) [OF assms(2), of t] assms(2) by (auto intro!: ticket_silent)
next
  case (t_pop_ready t p)
  then show ?thesis using ticket_invD(5) [OF assms(2), of t] assms(2) by (auto intro!: ticket_silent)
qed (use N in \<open>auto intro!: ticket_silent ticket_push_claim ticket_pop_claim ticket_push_publish ticket_pop_release\<close>)

section \<open>The simulation\<close>

definition abs_conc :: "'a conc \<Rightarrow> 'a tickets" where
  "abs_conc s = \<lparr> t_enq = unat (m_enqueuePos (c_ring s)), t_deq = unat (m_dequeuePos (c_ring s)),
     t_seq = (\<lambda>c. unat (cell_sequence (m_buffer (c_ring s) ! c))), t_data = (\<lambda>c. cell_data (m_buffer (c_ring s) ! c)),
     t_thr = (\<lambda>t. map_pc id unat (c_thr s t)), t_pushed = c_pushed s, t_popped = c_popped s \<rparr>"

text \<open>The geometry of the ring, and room below \<open>2 ^ 63\<close>.\<close>

definition conc_geom :: "nat \<Rightarrow> 'a conc \<Rightarrow> bool" where
  "conc_geom k s \<longleftrightarrow> 1 \<le> k \<and> m_capacity (c_ring s) = 2 ^ k \<and> m_mask (c_ring s) = 2 ^ k - 1 \<and>
     length (m_buffer (c_ring s)) = 2 ^ k \<and> unat (m_enqueuePos (c_ring s)) + 2 ^ k < 2 ^ 63"

definition conc_inv :: "nat \<Rightarrow> 'a conc \<Rightarrow> bool" where
  "conc_inv k s \<longleftrightarrow> conc_geom k s \<and> ticket_inv (2 ^ k) (abs_conc s)"

lemma conc_geom_k:
  assumes "conc_geom k s"
  shows "k \<le> 62" and "2 \<le> (2 :: nat) ^ k" and "unat (m_capacity (c_ring s)) = 2 ^ k"
proof -
  have "(2 :: nat) ^ k < 2 ^ 63" using assms by (simp add: conc_geom_def)
  then have "k < 63" by (simp only: power_strict_increasing_iff)
  then show "k \<le> 62" by simp
  show "2 \<le> (2 :: nat) ^ k" using assms power_increasing [of 1 k "2 :: nat"] by (simp add: conc_geom_def)
  show "unat (m_capacity (c_ring s)) = 2 ^ k" using assms \<open>k < 63\<close> unat_pow2 [of k] by (simp add: conc_geom_def)
qed

lemma conc_index: "conc_geom k s \<Longrightarrow> cell_index (c_ring s) pos = unat pos mod 2 ^ k"
  by (simp add: conc_geom_def cell_index_def unat_and_mask)

lemma pos_diff_nat:
  assumes "unat a < 2 ^ 63" and "unat b < 2 ^ 63"
  shows "pos_diff a b = int (unat a) - int (unat b)"
proof -
  have "a - b = word_of_int (int (unat a) - int (unat b))" by simp
  then have "pos_diff a b = sint (word_of_int (int (unat a) - int (unat b)) :: 64 word)" by (simp only: pos_diff_def)
  also have "\<dots> = int (unat a) - int (unat b)"
  proof -
    have "sint (word_of_int (int x - int y) :: 64 word) = int x - int y" if "x < 2 ^ 63" "y < 2 ^ 63" for x y :: nat
      using that by (intro pos_diff_of_int) auto
    then show ?thesis using assms by blast
  qed
  finally show ?thesis .
qed

lemma unat_add_small:
  fixes a b :: "64 word"
  shows "unat a + unat b < 2 ^ 64 \<Longrightarrow> unat (a + b) = unat a + unat b"
  by (simp add: unat_word_ariths)

lemma unat_Suc_small: "unat (a :: 64 word) < 2 ^ 63 \<Longrightarrow> unat (a + 1) = Suc (unat a)"
  using unat_add_small [of a 1] by simp

lemma abs_goto: "abs_conc (goto s t q) = tgoto (abs_conc s) t (map_pc id unat q)"
  by (auto simp: abs_conc_def goto_def tgoto_def)

lemma abs_sequence:
  assumes "conc_geom k s"
  shows "t_seq (abs_conc (s \<lparr> c_ring := store_sequence (c_ring s) pos v \<rparr>)) = (t_seq (abs_conc s))(unat pos mod 2 ^ k := unat v)"
    and "t_data (abs_conc (s \<lparr> c_ring := store_sequence (c_ring s) pos v \<rparr>)) = t_data (abs_conc s)"
    and "t_seq (abs_conc (s \<lparr> c_ring := store_data (c_ring s) pos w \<rparr>)) = t_seq (abs_conc s)"
    and "t_data (abs_conc (s \<lparr> c_ring := store_data (c_ring s) pos w \<rparr>)) = (t_data (abs_conc s))(unat pos mod 2 ^ k := w)"
  using assms conc_index [OF assms, of pos]
  by (auto simp: abs_conc_def store_sequence_def store_data_def at_cell_def conc_geom_def fun_eq_iff nth_list_update_if)

lemma conc_seq_bound:
  assumes "conc_inv k s" and "c < 2 ^ k"
  shows "t_seq (abs_conc s) c < 2 ^ 63"
proof -
  have inv: "ticket_inv (2 ^ k) (abs_conc s)" and "t_enq (abs_conc s) + 2 ^ k < 2 ^ 63"
    using assms by (simp_all add: conc_inv_def conc_geom_def abs_conc_def)
  moreover have "t_deq (abs_conc s) \<le> t_enq (abs_conc s)" using ticket_invD(1) [OF inv] .
  ultimately show ?thesis using ticket_invD(4) [OF inv assms(2)]
    unfolding cell_ok_def free_at_def full_at_def by fastforce
qed

text \<open>The three outcomes of reading a cell's sequence, at the positions the threads hold.\<close>

lemma conc_diff:
  assumes inv: "conc_inv k s" and pos: "unat pos \<le> unat (m_enqueuePos (c_ring s))"
  shows "pos_diff (cell_sequence (at_cell (c_ring s) pos)) pos
       = int (t_seq (abs_conc s) (unat pos mod 2 ^ k)) - int (unat pos)"
    and "pos_diff (cell_sequence (at_cell (c_ring s) pos)) (pos + 1)
       = int (t_seq (abs_conc s) (unat pos mod 2 ^ k)) - int (Suc (unat pos))"
proof -
  have geom: "conc_geom k s" using inv by (simp add: conc_inv_def)
  have seq: "unat (cell_sequence (at_cell (c_ring s) pos)) = t_seq (abs_conc s) (unat pos mod 2 ^ k)"
    by (simp add: at_cell_def abs_conc_def conc_index [OF geom])
  have b: "t_seq (abs_conc s) (unat pos mod 2 ^ k) < 2 ^ 63" using conc_seq_bound [OF inv] by simp
  have "unat pos + 2 ^ k < 2 ^ 63" using pos geom by (simp add: conc_geom_def)
  moreover have "2 \<le> (2 :: nat) ^ k" using conc_geom_k(2) [OF geom] .
  ultimately have p: "unat pos < 2 ^ 63" "Suc (unat pos) < 2 ^ 63" by linarith+
  show "pos_diff (cell_sequence (at_cell (c_ring s) pos)) pos
       = int (t_seq (abs_conc s) (unat pos mod 2 ^ k)) - int (unat pos)"
    using pos_diff_nat [of "cell_sequence (at_cell (c_ring s) pos)" pos] seq b p by simp
  have "unat (pos + 1) = Suc (unat pos)" using unat_Suc_small p by simp
  then show "pos_diff (cell_sequence (at_cell (c_ring s) pos)) (pos + 1)
       = int (t_seq (abs_conc s) (unat pos mod 2 ^ k)) - int (Suc (unat pos))"
    using pos_diff_nat [of "cell_sequence (at_cell (c_ring s) pos)" "pos + 1"] seq b p by simp
qed

lemma int_cmp:
  fixes a b :: nat
  shows "d = int a - int b \<Longrightarrow> (d = 0 \<longleftrightarrow> a = b) \<and> (d < 0 \<longleftrightarrow> a < b) \<and> (0 < d \<longleftrightarrow> b < a)"
  by auto

lemmas conc_cmp = int_cmp [OF conc_diff(1)] int_cmp [OF conc_diff(2)]

lemma conc_simulation:
  assumes step: "ring_step s s'" and inv: "conc_inv k s"
  shows "ticket_step (2 ^ k) (abs_conc s) (abs_conc s')"
proof -
  have geom: "conc_geom k s" and tinv: "ticket_inv (2 ^ k) (abs_conc s)" using inv by (simp_all add: conc_inv_def)
  have thr: "t_thr (abs_conc s) t = map_pc id unat (c_thr s t)" for t by (simp add: abs_conc_def)
  have pcs: "pc_ok (2 ^ k) (abs_conc s) (map_pc id unat (c_thr s t))" for t
    using ticket_invD(5) [OF tinv, of t] by (simp add: thr)
  have enq: "t_enq (abs_conc s) = unat (m_enqueuePos (c_ring s))" and deq: "t_deq (abs_conc s) = unat (m_dequeuePos (c_ring s))"
    and data: "t_data (abs_conc s) (unat pos mod 2 ^ k) = cell_data (at_cell (c_ring s) pos)" for pos
    by (simp_all add: abs_conc_def at_cell_def conc_index [OF geom])
  have de: "unat (m_dequeuePos (c_ring s)) \<le> unat (m_enqueuePos (c_ring s))"
    using ticket_invD(1) [OF tinv] by (simp add: enq deq)
  have eb: "unat (m_enqueuePos (c_ring s)) + 2 ^ k < 2 ^ 63" using geom by (simp add: conc_geom_def)
  have Suc_pos: "unat (pos + 1) = Suc (unat pos)" if "unat pos \<le> unat (m_enqueuePos (c_ring s))" for pos :: "64 word"
    using unat_Suc_small [of pos] that eb by simp
  from step show ?thesis
  proof (cases rule: ring_step.cases)
    case (push_start t x)
    then show ?thesis using t_push_start [of "abs_conc s" t] by (simp add: abs_goto thr)
  next
    case (push_load t x)
    then show ?thesis using t_push_load [of "abs_conc s" t x] by (simp add: abs_goto thr enq)
  next
    case (push_free t x pos)
    then show ?thesis using t_push_free [of "abs_conc s" t x "unat pos"] conc_cmp(1) [OF inv, of pos] pcs [of t]
      by (simp add: abs_goto thr enq)
  next
    case (push_full t x pos)
    then show ?thesis using t_push_full [of "abs_conc s" t x "unat pos"] conc_cmp(1) [OF inv, of pos] pcs [of t]
      by (simp add: abs_goto thr enq)
  next
    case (push_stale t x pos)
    then show ?thesis using t_push_stale [of "abs_conc s" t x "unat pos"] conc_cmp(1) [OF inv, of pos] pcs [of t]
      by (simp add: abs_goto thr enq)
  next
    case (push_claim t x pos)
    have "abs_conc s' = (tgoto (abs_conc s) t (PushWrite x (unat pos))) \<lparr> t_enq := Suc (unat pos), t_pushed := t_pushed (abs_conc s) @ [x] \<rparr>"
      using push_claim Suc_pos [of pos] by (auto simp: abs_conc_def goto_def tgoto_def)
    then show ?thesis using push_claim t_push_claim [of "abs_conc s" t x "unat pos"] by (simp add: thr enq)
  next
    case (push_retry t x pos)
    then show ?thesis using t_push_retry [of "abs_conc s" t x "unat pos"] by (simp add: abs_goto thr enq)
  next
    case (push_write t x pos)
    have "abs_conc s' = (tgoto (abs_conc s) t (PushPublish x (unat pos))) \<lparr> t_data := (t_data (abs_conc s))(unat pos mod 2 ^ k := Some x) \<rparr>"
      using push_write abs_sequence(3,4) [OF geom, of pos "Some x"]
      by (auto simp: abs_conc_def goto_def tgoto_def store_data_def)
    then show ?thesis using push_write t_push_write [of "abs_conc s" t x "unat pos"] by (simp add: thr)
  next
    case (push_publish t x pos)
    then have "unat (pos + 1) = Suc (unat pos)" using pcs [of t] Suc_pos [of pos] by (simp add: enq)
    then have "abs_conc s' = (tgoto (abs_conc s) t Idle) \<lparr> t_seq := (t_seq (abs_conc s))(unat pos mod 2 ^ k := Suc (unat pos)) \<rparr>"
      using push_publish abs_sequence(1,2) [OF geom, of pos "pos + 1"]
      by (auto simp: abs_conc_def goto_def tgoto_def store_sequence_def)
    then show ?thesis using push_publish t_push_publish [of "abs_conc s" t x "unat pos"] by (simp add: thr)
  next
    case (pop_start t)
    then show ?thesis using t_pop_start [of "abs_conc s" t] by (simp add: abs_goto thr)
  next
    case (pop_load t)
    then show ?thesis using t_pop_load [of "abs_conc s" t] by (simp add: abs_goto thr deq)
  next
    case (pop_ready t pos)
    then show ?thesis using t_pop_ready [of "abs_conc s" t "unat pos"] conc_cmp(2) [OF inv, of pos] pcs [of t] de
      by (simp add: abs_goto thr deq)
  next
    case (pop_empty t pos)
    then show ?thesis using t_pop_empty [of "abs_conc s" t "unat pos"] conc_cmp(2) [OF inv, of pos] pcs [of t] de
      by (simp add: abs_goto thr deq)
  next
    case (pop_stale t pos)
    then show ?thesis using t_pop_stale [of "abs_conc s" t "unat pos"] conc_cmp(2) [OF inv, of pos] pcs [of t] de
      by (simp add: abs_goto thr deq)
  next
    case (pop_claim t pos)
    have "abs_conc s' = (tgoto (abs_conc s) t (PopRead (unat pos))) \<lparr> t_deq := Suc (unat pos) \<rparr>"
      using pop_claim Suc_pos [of pos] de by (auto simp: abs_conc_def goto_def tgoto_def)
    then show ?thesis using pop_claim t_pop_claim [of "abs_conc s" t "unat pos"] by (simp add: thr deq)
  next
    case (pop_retry t pos)
    then show ?thesis using t_pop_retry [of "abs_conc s" t "unat pos"] by (simp add: abs_goto thr deq)
  next
    case (pop_read t pos)
    have "abs_conc s' = (tgoto (abs_conc s) t (PopRelease (unat pos) (cell_data (at_cell (c_ring s) pos))))
        \<lparr> t_data := (t_data (abs_conc s))(unat pos mod 2 ^ k := None) \<rparr>"
      using pop_read abs_sequence(3,4) [OF geom, of pos None]
      by (auto simp: abs_conc_def goto_def tgoto_def store_data_def option.map_id)
    then show ?thesis using pop_read t_pop_read [of "abs_conc s" t "unat pos" "2 ^ k"] by (simp add: thr data)
  next
    case (pop_release t pos v)
    have "unat pos < unat (m_dequeuePos (c_ring s))" using pop_release pcs [of t] by (simp add: deq)
    then have "unat (pos + m_capacity (c_ring s)) = unat pos + 2 ^ k"
      using unat_add_small [of pos "m_capacity (c_ring s)"] conc_geom_k(3) [OF geom] eb de by simp
    then have "abs_conc s' = (tgoto (abs_conc s) t Idle)
        \<lparr> t_seq := (t_seq (abs_conc s))(unat pos mod 2 ^ k := unat pos + 2 ^ k), t_popped := t_popped (abs_conc s) @ [(unat pos, v)] \<rparr>"
      using pop_release abs_sequence(1,2) [OF geom, of pos "pos + m_capacity (c_ring s)"]
      by (auto simp: abs_conc_def goto_def tgoto_def store_sequence_def)
    then show ?thesis using pop_release t_pop_release [of "abs_conc s" t "unat pos" v] by (simp add: thr option.map_id)
  qed
qed

section \<open>Reachable states\<close>

lemma ring_step_geom:
  assumes "ring_step s s'"
  shows "m_capacity (c_ring s') = m_capacity (c_ring s)" and "m_mask (c_ring s') = m_mask (c_ring s)"
    and "length (m_buffer (c_ring s')) = length (m_buffer (c_ring s))"
  using assms by (cases rule: ring_step.cases; simp add: goto_def store_data_def store_sequence_def)+

lemma conc_inv_step:
  assumes "ring_step s s'" and inv: "conc_inv k s"
    and "unat (m_enqueuePos (c_ring s')) + unat (m_capacity (c_ring s')) < 2 ^ 63"
  shows "conc_inv k s'"
proof -
  have geom: "conc_geom k s" and tinv: "ticket_inv (2 ^ k) (abs_conc s)" using inv by (simp_all add: conc_inv_def)
  have "conc_geom k s'"
    using geom assms(3) ring_step_geom [OF assms(1)] conc_geom_k(3) [OF geom] by (simp add: conc_geom_def)
  moreover have "ticket_inv (2 ^ k) (abs_conc s')"
    using ticket_step_inv [OF conc_simulation [OF assms(1) inv] tinv conc_geom_k(2) [OF geom]] .
  ultimately show ?thesis by (simp add: conc_inv_def)
qed

lemma conc_inv_init:
  assumes "unat c \<le> 2 ^ 62"
  obtains k where "conc_inv k (conc_init c :: 'a conc)"
proof -
  have "unat c \<le> 2 ^ 63" using assms by simp
  then obtain k where wf: "ring_wf k (newQueue c :: 'a MPMCQueue)" "m_capacity (newQueue c :: 'a MPMCQueue) = 2 ^ k"
    using newQueue_wf by metis
  have "unat (if c < 2 then 2 else c) \<le> 2 ^ 62" using assms by auto
  then have cap: "unat (roundUpPowerOf2 (if c < 2 then 2 else c)) < 2 ^ 63"
  proof -
    obtain h where h: "1 \<le> h" "h \<le> 63" "roundUpPowerOf2 (if c < 2 then 2 else c) = 2 ^ h"
      "2 < unat (if c < 2 then 2 else c) \<Longrightarrow> 2 ^ h < 2 * unat (if c < 2 then 2 else c)"
      using roundUpPowerOf2_power [of "if c < 2 then 2 else c"] \<open>unat (if c < 2 then 2 else c) \<le> 2 ^ 62\<close> by auto
    show ?thesis
    proof (cases "2 < unat (if c < 2 then 2 else c)")
      case True
      then show ?thesis using h unat_pow2 [OF h(2)] \<open>unat (if c < 2 then 2 else c) \<le> 2 ^ 62\<close> by simp
    next
      case False
      then have "(if c < 2 then 2 else c) \<le> 2" by (simp add: word_le_nat_alt)
      then show ?thesis by (simp only: roundUpPowerOf2_def if_True) simp
    qed
  qed
  have parts: "m_enqueuePos (newQueue c :: 'a MPMCQueue) = 0" "m_dequeuePos (newQueue c :: 'a MPMCQueue) = 0"
    "m_capacity (newQueue c :: 'a MPMCQueue) = roundUpPowerOf2 (if c < 2 then 2 else c)"
    "\<And>i. i < length (m_buffer (newQueue c :: 'a MPMCQueue)) \<Longrightarrow> cell_sequence (m_buffer (newQueue c :: 'a MPMCQueue) ! i) = of_nat i"
    by (simp_all add: newQueue_def Let_def)
  have k: "unat (2 ^ k :: 64 word) = 2 ^ k" using ring_wfD(2) [OF wf(1)] by (rule unat_pow2)
  have "conc_geom k (conc_init c :: 'a conc)"
    using wf(1) parts cap k unfolding ring_wf_def by (simp add: conc_geom_def conc_init_def)
  moreover have "ticket_inv (2 ^ k) (abs_conc (conc_init c :: 'a conc))"
  proof (rule ticket_invI)
    fix i :: nat assume i: "i < 2 ^ k"
    then have "unat (of_nat i :: 64 word) = i"
      using power_less_64 [OF ring_wfD(2) [OF wf(1)]] by (intro unat_of_nat_small) simp
    then have "free_at (2 ^ k) (abs_conc (conc_init c :: 'a conc)) i"
      using i parts ring_wfD(4) [OF wf(1)] by (simp add: free_at_def abs_conc_def conc_init_def)
    then show "cell_ok (2 ^ k) (abs_conc (conc_init c :: 'a conc)) i" using mod_less [OF i] unfolding cell_ok_def by blast
  qed (simp_all add: abs_conc_def conc_init_def parts)
  ultimately show thesis using that by (simp add: conc_inv_def)
qed

lemma reach_conc_inv:
  assumes "ring_reach c s" and "unat c \<le> 2 ^ 62"
  obtains k where "conc_inv k s"
proof -
  obtain k where init: "conc_inv k (conc_init c :: 'a conc)" using conc_inv_init [OF assms(2)] .
  from assms(1) have "conc_inv k s" by (induction rule: ring_reach.induct) (use init conc_inv_step in blast)+
  then show thesis using that by blast
qed

lemma owns_map_pc: "owns (map_pc f g q) = map_option g (owns q)"
  by (cases q) auto

text \<open>With no operation in flight, every claimed position is published or released.\<close>

lemma quiescent_cells:
  assumes inv: "ticket_inv N s" and N: "2 \<le> N" and idle: "\<And>t. owns (t_thr s t) = None" and j: "j < N"
  shows "if t_deq s + j < t_enq s
         then t_seq s ((t_deq s + j) mod N) = Suc (t_deq s + j) \<and> t_data s ((t_deq s + j) mod N) = Some (t_pushed s ! (t_deq s + j))
         else t_seq s ((t_deq s + j) mod N) = t_deq s + j"
proof -
  have noW: "writes (t_thr s t) \<noteq> Some p" and noR: "reads (t_thr s t) \<noteq> Some p" for t p
    using idle [of t] owns_iff [of "t_thr s t" p] by auto
  have same: "r = t_deq s + j" if r: "r mod N = (t_deq s + j) mod N" "t_deq s \<le> r" "r < t_deq s + N" for r
  proof -
    obtain i where i: "r = t_deq s + i" using r(2) by (auto simp: le_iff_add)
    then have "i < N" using r(3) by simp
    then show ?thesis using mod_add_inject [of i N j "t_deq s"] r(1) j i by simp
  qed
  have "(t_deq s + j) mod N < N" using N by simp
  then consider (free) r where "r mod N = (t_deq s + j) mod N" "free_at N s r"
    | (full) r where "r mod N = (t_deq s + j) mod N" "full_at N s r"
    using cell_okE [OF inv] by metis
  then show ?thesis
  proof cases
    case free
    then have "r = t_deq s + j" using same by (simp add: free_at_def)
    then show ?thesis using free(2) noW unfolding free_at_def by auto
  next
    case full
    then have "t_deq s \<le> r" "r < t_enq s" using noR unfolding full_at_def by (meson not_le, blast)
    then have "r = t_deq s + j" using same full(1) ticket_invD(2) [OF inv] by simp
    then show ?thesis using full(2) \<open>r < t_enq s\<close> \<open>t_deq s \<le> r\<close> unfolding full_at_def by simp
  qed
qed

lemma exec_action_step: "exec_action s a = Some s' \<Longrightarrow> ring_step s s'"
proof (cases a)
  case (StartPush t x)
  then show "exec_action s a = Some s' \<Longrightarrow> ring_step s s'" by (auto split: pc.splits intro: ring_step.intros)
next
  case (StartPop t)
  then show "exec_action s a = Some s' \<Longrightarrow> ring_step s s'" by (auto split: pc.splits intro: ring_step.intros)
next
  case (Run t)
  then show "exec_action s a = Some s' \<Longrightarrow> ring_step s s'"
    by (cases "c_thr s t") (auto simp: Let_def split: if_splits intro: ring_step.intros)
qed

lemma exec_run_reach: "ring_reach c s \<Longrightarrow> exec_run as s = Some s' \<Longrightarrow> ring_reach c s'"
proof (induction as arbitrary: s)
  case (Cons a as)
  then obtain s1 where s1: "exec_action s a = Some s1" "exec_run as s1 = Some s'"
    "unat (m_enqueuePos (c_ring s1)) + unat (m_capacity (c_ring s1)) < 2 ^ 63"
    by (simp split: option.splits if_splits)
  then have "ring_reach c s1" using ring_reach.step [OF Cons.prems(1) exec_action_step] by blast
  then show ?case using Cons.IH s1(2) by blast
qed simp

section \<open>Properties\<close>

lemmas exec_simps = conc_init_def newQueue_def roundUpPowerOf2_def goto_def at_cell_def store_data_def
  store_sequence_def cell_index_def pos_diff_def

text \<open>Two producers that have both claimed a cell, and a push followed by a pop.\<close>

lemma demo_two_writers:
  "\<exists>s. exec_run [StartPush 0 7, Run 0, StartPush 1 8, Run 0, Run 1, Run 0, Run 1, Run 1, Run 1, Run 1]
      (conc_init 2 :: nat conc) = Some s \<and> owns (c_thr s 0) = Some 0 \<and> owns (c_thr s 1) = Some 1"
  by (simp add: exec_simps)

lemma demo_push_pop:
  "\<exists>s. exec_run [StartPush 0 7, Run 0, StartPush 1 8, Run 0, Run 1, Run 0, Run 1, Run 1, Run 1, Run 1, Run 1, Run 1,
        Run 0, Run 0, StartPop 2, Run 2, Run 2, Run 2, Run 2, Run 2]
      (conc_init 2 :: nat conc) = Some s \<and> (\<forall>t. c_thr s t = Idle) \<and> c_pushed s = [7, 8] \<and> c_popped s = [(0, Some 7)]"
  by (simp add: exec_simps)

text \<open>
  C8. Race freedom of the lock-free queue: in every interleaving of any number of
  \<open>tryPush\<close> and \<open>tryPop\<close> calls, two threads that both access a cell's payload - a producer
  between its claim and its publication, a consumer between its claim and its
  release - own different cells.  (Fewer than \<open>2 ^ 63\<close> pushes.)
\<close>

theorem ring_race_free:
  assumes "ring_reach c s" and "unat c \<le> 2 ^ 62"
    and "owns (c_thr s t) = Some pos" and "owns (c_thr s t') = Some pos'" and "t \<noteq> t'"
  shows "cell_index (c_ring s) pos \<noteq> cell_index (c_ring s) pos'"
proof
  obtain k where inv: "conc_inv k s" using reach_conc_inv [OF assms(1,2)] .
  have geom: "conc_geom k s" and tinv: "ticket_inv (2 ^ k) (abs_conc s)" using inv by (simp_all add: conc_inv_def)
  assume "cell_index (c_ring s) pos = cell_index (c_ring s) pos'"
  then have "unat pos mod 2 ^ k = unat pos' mod 2 ^ k" by (simp add: conc_index [OF geom])
  moreover have "owns (t_thr (abs_conc s) t) = Some (unat pos)" "owns (t_thr (abs_conc s) t') = Some (unat pos')"
    using assms(3,4) by (simp_all add: abs_conc_def owns_map_pc)
  ultimately show False using owner_unique [OF tinv conc_geom_k(2) [OF geom]] assms(5) by metis
qed

theorem ring_race_free_witness:
  "\<exists>s :: nat conc. ring_reach 2 s \<and> owns (c_thr s 0) = Some 0 \<and> owns (c_thr s 1) = Some 1 \<and>
     cell_index (c_ring s) 0 \<noteq> cell_index (c_ring s) 1"
proof -
  obtain s :: "nat conc" where s: "ring_reach 2 s" "owns (c_thr s 0) = Some 0" "owns (c_thr s 1) = Some 1"
    using demo_two_writers exec_run_reach [OF ring_reach.init] by blast
  then show ?thesis using ring_race_free [of 2 s 0 0 1 1] by auto
qed

text \<open>Where the item of a claimed position is: with the push that claimed it, in its cell, or with the pop that claimed it.\<close>

definition putting :: "'a conc \<Rightarrow> nat \<Rightarrow> nat \<Rightarrow> bool" where
  "putting s p t \<longleftrightarrow> (\<exists>pos. unat pos = p \<and> c_thr s t \<in> {PushWrite (c_pushed s ! p) pos, PushPublish (c_pushed s ! p) pos})"

definition stored :: "'a conc \<Rightarrow> nat \<Rightarrow> bool" where
  "stored s p \<longleftrightarrow> unat (cell_sequence (at_cell (c_ring s) (of_nat p))) = Suc p \<and> cell_data (at_cell (c_ring s) (of_nat p)) = Some (c_pushed s ! p)"

definition taking :: "'a conc \<Rightarrow> nat \<Rightarrow> nat \<Rightarrow> bool" where
  "taking s p t \<longleftrightarrow> (\<exists>pos. unat pos = p \<and> (c_thr s t = PopRelease pos (Some (c_pushed s ! p)) \<or>
     c_thr s t = PopRead pos \<and> cell_data (at_cell (c_ring s) pos) = Some (c_pushed s ! p)))"

lemma waiting_item:
  assumes inv: "ticket_inv N s" and N: "2 \<le> N" and p: "t_deq s \<le> p" "p < t_enq s"
  shows "(\<exists>t. writes (t_thr s t) = Some p) \<and> t_seq s (p mod N) = p \<or>
    t_seq s (p mod N) = Suc p \<and> t_data s (p mod N) = Some (t_pushed s ! p) \<and> (\<forall>t. writes (t_thr s t) \<noteq> Some p)"
proof -
  have E: "t_enq s \<le> t_deq s + N" by (rule ticket_invD(2) [OF inv])
  have same: "r = p" if r: "r mod N = p mod N" "t_deq s \<le> r" "r < t_deq s + N" for r
  proof -
    obtain i j where ij: "r = t_deq s + i" "p = t_deq s + j" using r(2) p(1) by (auto simp: le_iff_add)
    then have "i < N" "j < N" using r(3) p(2) E by simp_all
    then show ?thesis using mod_add_inject [of i N j "t_deq s"] r(1) ij by simp
  qed
  have "p mod N < N" using N by simp
  then consider (free) r where "r mod N = p mod N" "free_at N s r" | (full) r where "r mod N = p mod N" "full_at N s r"
    using cell_okE [OF inv] by metis
  then show ?thesis
  proof cases
    case free
    then have "r = p" using same by (simp add: free_at_def)
    then show ?thesis using free(2) p(2) unfolding free_at_def by blast
  next
    case full
    have "t_deq s \<le> r"
    proof (rule ccontr)
      assume "\<not> t_deq s \<le> r"
      then have "r < p" using p(1) by simp
      then have "N dvd p - r" using full(1) by (simp add: mod_eq_dvd_iff_nat [symmetric])
      then have "N \<le> p - r" using \<open>r < p\<close> by (simp add: dvd_imp_le)
      then have "r + N \<le> p" using \<open>r < p\<close> by simp
      then show False using full(2) p(2) by (simp add: full_at_def)
    qed
    then have r: "r = p" using same full(1,2) E by (simp add: full_at_def)
    moreover have "writes (t_thr s t) \<noteq> Some p" for t
      using ticket_invD(5) [OF inv, of t] full(2) r by (cases "t_thr s t") (auto simp: full_at_def)
    ultimately show ?thesis using full(2) p(1) by (simp add: full_at_def)
  qed
qed

lemma conc_owners:
  assumes "conc_inv k s"
  shows "putting s p t \<longleftrightarrow> writes (t_thr (abs_conc s) t) = Some p" and "taking s p t \<longleftrightarrow> reads (t_thr (abs_conc s) t) = Some p"
proof -
  have geom: "conc_geom k s" and ok: "pc_ok (2 ^ k) (abs_conc s) (map_pc id unat (c_thr s t))"
    using assms ticket_invD(5) [of "2 ^ k" "abs_conc s" t] by (simp_all add: conc_inv_def abs_conc_def)
  show "putting s p t \<longleftrightarrow> writes (t_thr (abs_conc s) t) = Some p"
    using ok by (cases "c_thr s t") (auto simp: putting_def abs_conc_def)
  show "taking s p t \<longleftrightarrow> reads (t_thr (abs_conc s) t) = Some p"
    using ok by (cases "c_thr s t") (auto simp: taking_def abs_conc_def at_cell_def conc_index [OF geom])
qed

text \<open>
  C9. Exactly-once delivery: in every reachable state, and for every position that a push has claimed, the item of
  that push is in exactly one place.  Positions that no pop has claimed hold it either with the one thread that is still writing
  it or, published, in their cell.  The positions that pops have claimed are the first ones, in the order of the
  claims; each was either delivered, once and with its own item, or is with the one thread that is still reading it.
  Nothing else was ever delivered.  (Fewer than \<open>2 ^ 63\<close> pushes.)
\<close>

theorem ring_delivery:
  assumes "ring_reach c s" and "unat c \<le> 2 ^ 62"
  shows "distinct (map fst (c_popped s)) \<and>
    (\<forall>(p, v)\<in>set (c_popped s). p < unat (m_dequeuePos (c_ring s)) \<and> v = Some (c_pushed s ! p)) \<and>
    unat (m_dequeuePos (c_ring s)) \<le> length (c_pushed s) \<and> unat (m_enqueuePos (c_ring s)) = length (c_pushed s) \<and>
    length (c_pushed s) \<le> unat (m_dequeuePos (c_ring s)) + unat (m_capacity (c_ring s)) \<and>
    (\<forall>p<length (c_pushed s).
       if p < unat (m_dequeuePos (c_ring s))
       then (if p \<in> fst ` set (c_popped s) then \<nexists>t. taking s p t else \<exists>!t. taking s p t)
       else (if stored s p then \<nexists>t. putting s p t else \<exists>!t. putting s p t))"
proof -
  obtain k where inv: "conc_inv k s" using reach_conc_inv [OF assms] .
  have geom: "conc_geom k s" and tinv: "ticket_inv (2 ^ k) (abs_conc s)" using inv by (simp_all add: conc_inv_def)
  let ?D = "unat (m_dequeuePos (c_ring s))"
  have parts: "t_popped (abs_conc s) = c_popped s" "t_deq (abs_conc s) = ?D" "t_enq (abs_conc s) = unat (m_enqueuePos (c_ring s))"
      "t_pushed (abs_conc s) = c_pushed s"
    by (simp_all add: abs_conc_def)
  note T = ticket_invD [OF tinv, unfolded parts]
  have popped: "p < ?D \<and> v = Some (c_pushed s ! p) \<and> (\<nexists>t. taking s p t)" if "(p, v) \<in> set (c_popped s)" for p v
    using T(8) [OF that] by (simp add: conc_owners(2) [OF inv])
  have claimed: "if p \<in> fst ` set (c_popped s) then \<nexists>t. taking s p t else \<exists>!t. taking s p t" if "p < ?D" for p
    using T(10) [OF that] T(7) popped unfolding conc_owners [OF inv] by (auto split: if_split)
  have waiting: "if stored s p then \<nexists>t. putting s p t else \<exists>!t. putting s p t" if p: "?D \<le> p" "p < length (c_pushed s)" for p
  proof -
    have "unat (of_nat p :: 64 word) = p" using p(2) T(3) geom by (intro unat_of_nat_small) (simp add: conc_geom_def)
    then have "stored s p \<longleftrightarrow> t_seq (abs_conc s) (p mod 2 ^ k) = Suc p \<and> t_data (abs_conc s) (p mod 2 ^ k) = Some (c_pushed s ! p)"
      by (simp add: stored_def at_cell_def conc_index [OF geom] abs_conc_def)
    then show ?thesis
      using waiting_item [OF tinv conc_geom_k(2) [OF geom], of p] p T(3,6) unfolding conc_owners [OF inv] parts by auto
  qed
  have all: "if p < ?D then (if p \<in> fst ` set (c_popped s) then \<nexists>t. taking s p t else \<exists>!t. taking s p t)
       else (if stored s p then \<nexists>t. putting s p t else \<exists>!t. putting s p t)" if "p < length (c_pushed s)" for p
    using claimed [of p] waiting [of p] that by (cases "p < ?D") simp_all
  show ?thesis using T(1-3,9) conc_geom_k(3) [OF geom] popped by (intro conjI allI impI all) auto
qed

theorem ring_delivery_witness:
  "\<exists>s :: nat conc. ring_reach 2 s \<and> c_pushed s = [7, 8] \<and> c_popped s = [(0, Some 7)] \<and> (\<forall>t. c_thr s t = Idle) \<and>
     unat (m_dequeuePos (c_ring s)) = 1 \<and> stored s 1"
proof -
  obtain s :: "nat conc" where s: "ring_reach 2 s" "c_pushed s = [7, 8]" "c_popped s = [(0, Some 7)]" "\<forall>t. c_thr s t = Idle"
    using demo_push_pop exec_run_reach [OF ring_reach.init] by blast
  have "unat (2 :: 64 word) \<le> 2 ^ 62" by simp
  note facts = ring_delivery [OF s(1) this]
  have none: "\<not> taking s p t" "\<not> putting s p t" for p t using s(4) by (simp_all add: taking_def putting_def)
  have one: "if 1 < unat (m_dequeuePos (c_ring s)) then (if 1 \<in> fst ` set (c_popped s) then \<nexists>t. taking s 1 t else \<exists>!t. taking s 1 t)
      else (if stored s 1 then \<nexists>t. putting s 1 t else \<exists>!t. putting s 1 t)"
    and "0 < unat (m_dequeuePos (c_ring s))"
    using facts unfolding s(2,3) by simp_all
  then show ?thesis using s none by (intro exI [of _ s]) (auto split: if_splits)
qed

text \<open>
  C10. Quiescence: whenever no call is in flight, the buffer is a well-formed ring
  in the sense of the sequential specification, it holds exactly the pushed items
  that were not popped, in push order, and the popped positions are the first
  ones.
\<close>

theorem ring_quiescent:
  assumes "ring_reach c s" and "unat c \<le> 2 ^ 62" and "\<forall>t. c_thr s t = Idle"
  shows "ring_inv (c_ring s) \<and> ring_list (c_ring s) = drop (length (c_popped s)) (c_pushed s) \<and>
    fst ` set (c_popped s) = {..<length (c_popped s)}"
proof -
  obtain k where inv: "conc_inv k s" using reach_conc_inv [OF assms(1,2)] .
  have geom: "conc_geom k s" and tinv: "ticket_inv (2 ^ k) (abs_conc s)" using inv by (simp_all add: conc_inv_def)
  let ?q = "c_ring s" and ?D = "unat (m_dequeuePos (c_ring s))" and ?E = "unat (m_enqueuePos (c_ring s))"
  have idle: "owns (t_thr (abs_conc s) t) = None" for t using assms(3) by (simp add: abs_conc_def)
  have DE: "?D \<le> ?E" "?E \<le> ?D + 2 ^ k" "?E = length (c_pushed s)"
    using ticket_invD(1-3) [OF tinv] by (simp_all add: abs_conc_def)
  have parts: "t_popped (abs_conc s) = c_popped s" "t_deq (abs_conc s) = ?D" by (simp_all add: abs_conc_def)
  have noR: "reads (t_thr (abs_conc s) t) \<noteq> Some p" for t p using idle owns_iff by (metis option.distinct(1))
  have popped: "fst ` set (c_popped s) = {..<?D}"
  proof (rule set_eqI)
    fix p show "p \<in> fst ` set (c_popped s) \<longleftrightarrow> p \<in> {..<?D}"
      using ticket_invD(8) [OF tinv, of p] ticket_invD(10) [OF tinv, of p] noR unfolding parts by auto
  qed
  have "length (c_popped s) = card (fst ` set (c_popped s))"
    using distinct_card [OF ticket_invD(9) [OF tinv]] by (simp add: parts)
  then have len: "length (c_popped s) = ?D" by (simp add: popped)
  have rl: "ring_length ?q = ?E - ?D"
    using DE(1) by (simp add: ring_length_def unat_sub word_le_nat_alt)
  have eb: "?E + 2 ^ k < 2 ^ 63" using geom by (simp add: conc_geom_def)
  have add: "unat (m_dequeuePos ?q + of_nat j) = ?D + j" if "j < 2 ^ k" for j
  proof -
    have "?D + j < 2 ^ 63" using that eb DE(1) by linarith
    then show ?thesis using unat_add_small [of "m_dequeuePos ?q" "of_nat j"] unat_of_nat_small [of j] by simp
  qed
  have cell: "ring_cell ?q j = m_buffer ?q ! ((?D + j) mod 2 ^ k)" if "j < 2 ^ k" for j
    using add [OF that] by (simp add: ring_cell_def conc_index [OF geom])
  have cells: "if j < ring_length ?q
      then unat (cell_sequence (ring_cell ?q j)) = Suc (?D + j) \<and> cell_data (ring_cell ?q j) = Some (c_pushed s ! (?D + j))
      else unat (cell_sequence (ring_cell ?q j)) = ?D + j" if j: "j < 2 ^ k" for j
  proof -
    have lt: "j < ring_length ?q \<longleftrightarrow> ?D + j < ?E" using DE(1) by (auto simp: rl)
    show ?thesis
      using quiescent_cells [OF tinv conc_geom_k(2) [OF geom] idle j] unfolding lt
      by (auto simp: cell [OF j] abs_conc_def split: if_splits)
  qed
  have seqs: "if j < ring_length ?q then cell_sequence (ring_cell ?q j) = m_dequeuePos ?q + of_nat j + 1
      else cell_sequence (ring_cell ?q j) = m_dequeuePos ?q + of_nat j" if j: "j < 2 ^ k" for j
  proof -
    have "unat (m_dequeuePos ?q + of_nat j) < 2 ^ 63" using add [OF j] j eb DE(1) by linarith
    then have "unat (m_dequeuePos ?q + of_nat j + 1) = Suc (?D + j)" using unat_Suc_small add [OF j] by simp
    then show ?thesis using cells [OF j] add [OF j] by (auto simp: word_unat_eq_iff)
  qed
  have "ring_wf k ?q"
    using geom conc_geom_k(1) [OF geom] seqs cells DE(2) rl by (auto simp: ring_wf_def conc_geom_def split: if_splits)
  moreover have "ring_list ?q = drop ?D (c_pushed s)"
    using cells DE rl by (intro nth_equalityI) (auto simp: ring_list_def)
  ultimately show ?thesis using popped len by (auto simp: ring_inv_def)
qed

theorem ring_quiescent_witness:
  "\<exists>s :: nat conc. ring_reach 2 s \<and> (\<forall>t. c_thr s t = Idle) \<and> ring_inv (c_ring s) \<and> ring_list (c_ring s) = [8]"
proof -
  obtain s :: "nat conc" where s: "ring_reach 2 s" "\<forall>t. c_thr s t = Idle" "c_pushed s = [7, 8]" "c_popped s = [(0, Some 7)]"
    using demo_push_pop exec_run_reach [OF ring_reach.init] by blast
  then show ?thesis using ring_quiescent [OF s(1) _ s(2)] by auto
qed

end
