(* ===== verification/Packets.thy ===== *)
theory Packets
  imports Errors "HOL-Library.Char_ord" "HOL-Library.List_Lexorder"
begin

text \<open>
  The data that travels through the ports: \<open>include/ai_pipe/frame_metadata.hpp\<close>,
  \<open>include/ai_pipe/data_packet.hpp\<close> and \<open>include/ai_pipe/data_types.hpp\<close>.

  A \<open>Timestamp\<close> is the count of nanoseconds of the steady clock, an integer; the
  default constructed one is 0.  The clock itself is an argument.  A \<open>std::any\<close> is a
  value together with the name of its type, and a template parameter \<open>T\<close> is the name
  of the type asked for.  \<open>PortDataPtr\<close> is \<open>None\<close> when null.  \<open>PortDataMap\<close> is a
  \<open>std::map\<close>: an association list kept in the order of the port names, which is the
  order the loops of the engine see.
\<close>

section \<open>Ordered maps\<close>

fun map_put :: "'k::linorder \<Rightarrow> 'v \<Rightarrow> ('k \<times> 'v) list \<Rightarrow> ('k \<times> 'v) list" where
  "map_put k v [] = [(k, v)]"
| "map_put k v ((k', v') # m) =
     (if k = k' then (k, v) # m else if k < k' then (k, v) # (k', v') # m else (k', v') # map_put k v m)"

definition map_ordered :: "('k::linorder \<times> 'v) list \<Rightarrow> bool" where
  "map_ordered m \<longleftrightarrow> sorted_wrt (<) (map fst m)"

lemma map_of_map_put [simp]: "map_of (map_put k v m) = (map_of m)(k \<mapsto> v)"
  by (induction k v m rule: map_put.induct) (auto simp: fun_eq_iff)

lemma keys_map_put [simp]: "fst ` set (map_put k v m) = insert k (fst ` set m)"
  by (induction k v m rule: map_put.induct) auto

lemma map_put_ordered: "map_ordered m \<Longrightarrow> map_ordered (map_put k v m)"
proof (induction k v m rule: map_put.induct)
  case (2 k v k' v' m)
  then show ?case
    using keys_map_put [of k v m] by (auto simp: map_ordered_def)
qed (simp add: map_ordered_def)

section \<open>Frame metadata\<close>

type_synonym Timestamp = int

definition k_invalid_frame_id :: FrameId where
  "k_invalid_frame_id = 0"

definition k_end_of_stream_frame_id :: FrameId where
  "k_end_of_stream_frame_id = 2 ^ 64 - 1"

definition k_default_stream_id :: StreamId where
  "k_default_stream_id = 0"

record BasicFrameMetadata =
  bm_frameId :: FrameId
  bm_streamId :: StreamId
  bm_timestamp :: Timestamp

text \<open>The tolerance is in milliseconds.\<close>

record TimestampFrameMetadata =
  tm_frameId :: FrameId
  tm_streamId :: StreamId
  tm_timestamp :: Timestamp
  tm_syncTolerance :: int

definition k_default_sync_tolerance :: int where
  "k_default_sync_tolerance = 33"

datatype IFrameMetadata = BasicMeta BasicFrameMetadata | TimestampMeta TimestampFrameMetadata

fun meta_frameId :: "IFrameMetadata \<Rightarrow> FrameId" where
  "meta_frameId (BasicMeta m) = bm_frameId m"
| "meta_frameId (TimestampMeta m) = tm_frameId m"

fun meta_streamId :: "IFrameMetadata \<Rightarrow> StreamId" where
  "meta_streamId (BasicMeta m) = bm_streamId m"
| "meta_streamId (TimestampMeta m) = tm_streamId m"

fun meta_timestamp :: "IFrameMetadata \<Rightarrow> Timestamp" where
  "meta_timestamp (BasicMeta m) = bm_timestamp m"
| "meta_timestamp (TimestampMeta m) = tm_timestamp m"

fun shouldSyncWith :: "IFrameMetadata \<Rightarrow> IFrameMetadata \<Rightarrow> bool" where
  "shouldSyncWith (BasicMeta m) other \<longleftrightarrow> bm_frameId m = meta_frameId other"
| "shouldSyncWith (TimestampMeta m) other \<longleftrightarrow> \<bar>tm_timestamp m - meta_timestamp other\<bar> \<le> tm_syncTolerance m * 1000000"

fun compareTo :: "IFrameMetadata \<Rightarrow> IFrameMetadata \<Rightarrow> int" where
  "compareTo (BasicMeta m) other =
     (if bm_frameId m < meta_frameId other then -1
      else if bm_frameId m > meta_frameId other then 1
      else if bm_timestamp m < meta_timestamp other then -1
      else if bm_timestamp m > meta_timestamp other then 1
      else 0)"
| "compareTo (TimestampMeta m) other =
     (if tm_timestamp m < meta_timestamp other then -1
      else if tm_timestamp m > meta_timestamp other then 1
      else 0)"

definition meta_isValid :: "IFrameMetadata \<Rightarrow> bool" where
  "meta_isValid m \<longleftrightarrow> meta_frameId m \<noteq> k_invalid_frame_id"

definition meta_isEndOfStream :: "IFrameMetadata \<Rightarrow> bool" where
  "meta_isEndOfStream m \<longleftrightarrow> meta_frameId m = k_end_of_stream_frame_id"

definition meta_less :: "IFrameMetadata \<Rightarrow> IFrameMetadata \<Rightarrow> bool" where
  "meta_less a b \<longleftrightarrow> compareTo a b < 0"

definition meta_le :: "IFrameMetadata \<Rightarrow> IFrameMetadata \<Rightarrow> bool" where
  "meta_le a b \<longleftrightarrow> compareTo a b \<le> 0"

definition meta_eq :: "IFrameMetadata \<Rightarrow> IFrameMetadata \<Rightarrow> bool" where
  "meta_eq a b \<longleftrightarrow> compareTo a b = 0"

text \<open>The factory: the static counter is passed in and out.\<close>

definition createBasic :: "Timestamp \<Rightarrow> StreamId \<Rightarrow> FrameId \<Rightarrow> BasicFrameMetadata \<times> FrameId" where
  "createBasic now stream_id next_id =
     (\<lparr> bm_frameId = next_id, bm_streamId = stream_id, bm_timestamp = now \<rparr>, next_id + 1)"

definition createEndOfStream :: "Timestamp \<Rightarrow> StreamId \<Rightarrow> BasicFrameMetadata" where
  "createEndOfStream now stream_id =
     \<lparr> bm_frameId = k_end_of_stream_frame_id, bm_streamId = stream_id, bm_timestamp = now \<rparr>"

section \<open>Data packets\<close>

record 'v any =
  any_type :: string
  any_value :: 'v

record 'v DataPacket =
  dp_id :: FrameId
  dp_stream_id :: StreamId
  dp_timestamp :: Timestamp
  dp_params :: "(string \<times> 'v any) list"

type_synonym 'v PortDataPtr = "'v DataPacket option"
type_synonym 'v PortDataMap = "(string \<times> 'v PortDataPtr) list"

definition emptyPacket :: "'v DataPacket" where
  "emptyPacket = \<lparr> dp_id = 0, dp_stream_id = k_default_stream_id, dp_timestamp = 0, dp_params = [] \<rparr>"

definition hasFrameId :: "'v DataPacket \<Rightarrow> bool" where
  "hasFrameId p \<longleftrightarrow> dp_id p \<noteq> k_invalid_frame_id"

fun findParam :: "string \<Rightarrow> (string \<times> 'v any) list \<Rightarrow> 'v any option" where
  "findParam key [] = None"
| "findParam key (entry # rest) = (if fst entry = key then Some (snd entry) else findParam key rest)"

definition param :: "string \<Rightarrow> 'v DataPacket \<Rightarrow> string \<Rightarrow> 'v result" where
  "param T p key = (case findParam key (dp_params p) of
     None \<Rightarrow> err InvalidArgument (''Missing required parameter: '' @ key)
   | Some a \<Rightarrow> (if any_type a = T then ResOk (any_value a)
       else err InvalidArgument (''Invalid parameter type for key '' @ [CHR 0x27] @ key @ [CHR 0x27] @ ''. Expected type: '' @ T)))"

fun assign_param :: "string \<Rightarrow> 'v any \<Rightarrow> (string \<times> 'v any) list \<Rightarrow> (string \<times> 'v any) list" where
  "assign_param key a [] = []"
| "assign_param key a (entry # rest) = (if fst entry = key then (fst entry, a) # rest else entry # assign_param key a rest)"

definition setParam :: "string \<Rightarrow> 'v DataPacket \<Rightarrow> string \<Rightarrow> 'v \<Rightarrow> 'v DataPacket" where
  "setParam T p key v =
     (let a = \<lparr> any_type = T, any_value = v \<rparr>
      in case findParam key (dp_params p) of
           Some _ \<Rightarrow> p \<lparr> dp_params := assign_param key a (dp_params p) \<rparr>
         | None \<Rightarrow> p \<lparr> dp_params := dp_params p @ [(key, a)] \<rparr>)"

definition has_key :: "'v DataPacket \<Rightarrow> string \<Rightarrow> bool" where
  "has_key p key \<longleftrightarrow> findParam key (dp_params p) \<noteq> None"

definition has_type :: "string \<Rightarrow> 'v DataPacket \<Rightarrow> bool" where
  "has_type T p \<longleftrightarrow> list_ex (\<lambda>entry. any_type (snd entry) = T) (dp_params p)"

definition has_typed :: "string \<Rightarrow> 'v DataPacket \<Rightarrow> string \<Rightarrow> bool" where
  "has_typed T p key \<longleftrightarrow> (case findParam key (dp_params p) of None \<Rightarrow> False | Some a \<Rightarrow> any_type a = T)"

definition paramCount :: "'v DataPacket \<Rightarrow> nat" where
  "paramCount p = length (dp_params p)"

definition paramKeys :: "'v DataPacket \<Rightarrow> string list" where
  "paramKeys p = map fst (dp_params p)"

text \<open>\<open>TypedParam<T>\<close> is a key with its type.\<close>

record TypedParam =
  tp_type :: string
  tp_key :: string

definition tp_read :: "TypedParam \<Rightarrow> 'v DataPacket \<Rightarrow> 'v result" where
  "tp_read t p = param (tp_type t) p (tp_key t)"

definition tp_set :: "TypedParam \<Rightarrow> 'v DataPacket \<Rightarrow> 'v \<Rightarrow> 'v DataPacket" where
  "tp_set t p v = setParam (tp_type t) p (tp_key t) v"

definition tp_in :: "TypedParam \<Rightarrow> 'v DataPacket \<Rightarrow> bool" where
  "tp_in t p = has_typed (tp_type t) p (tp_key t)"

definition mutableCopy :: "'v PortDataPtr \<Rightarrow> 'v PortDataPtr" where
  "mutableCopy packet = (case packet of None \<Rightarrow> None | Some p \<Rightarrow> Some p)"

section \<open>Lemmas\<close>

lemma findParam_map_of: "findParam key ps = map_of ps key"
  by (induction ps) auto

lemma assign_param_keys [simp]: "map fst (assign_param key a ps) = map fst ps"
  by (induction ps) auto

lemma findParam_assign:
  "findParam key' (assign_param key a ps) = (if key' = key \<and> findParam key ps \<noteq> None then Some a else findParam key' ps)"
  by (induction ps) auto

lemma findParam_append:
  "findParam key (ps @ qs) = (case findParam key ps of Some a \<Rightarrow> Some a | None \<Rightarrow> findParam key qs)"
  by (induction ps) auto

lemma findParam_setParam:
  "findParam key' (dp_params (setParam T p key v)) =
     (if key' = key then Some \<lparr> any_type = T, any_value = v \<rparr> else findParam key' (dp_params p))"
  by (auto simp: setParam_def Let_def findParam_assign findParam_append split: option.splits)

lemma setParam_keys:
  "paramKeys (setParam T p key v) = (if has_key p key then paramKeys p else paramKeys p @ [key])"
  by (auto simp: setParam_def Let_def paramKeys_def has_key_def split: option.splits)

lemma setParam_identity:
  "dp_id (setParam T p key v) = dp_id p" "dp_stream_id (setParam T p key v) = dp_stream_id p"
  "dp_timestamp (setParam T p key v) = dp_timestamp p"
  by (simp_all add: setParam_def Let_def split: option.split)

lemma param_setParam_code:
  "param T' (setParam T p key v) key' =
     (if key' \<noteq> key then param T' p key' else if T' = T then ResOk v
      else err InvalidArgument (''Invalid parameter type for key '' @ [CHR 0x27] @ key @ [CHR 0x27] @ ''. Expected type: '' @ T'))"
  unfolding param_def findParam_setParam by simp

text \<open>
  Frames of one kind are totally ordered; a basic and a timestamp frame can each
  come before the other.
\<close>

lemma compareTo_basic:
  "compareTo (BasicMeta a) (BasicMeta b) = - compareTo (BasicMeta b) (BasicMeta a)"
  "meta_less (BasicMeta a) (BasicMeta b) \<longleftrightarrow>
     bm_frameId a < bm_frameId b \<or> bm_frameId a = bm_frameId b \<and> bm_timestamp a < bm_timestamp b"
  by (auto simp: meta_less_def)

lemma compareTo_mixed:
  "meta_less (BasicMeta \<lparr> bm_frameId = 1, bm_streamId = 0, bm_timestamp = 5 \<rparr>)
     (TimestampMeta \<lparr> tm_frameId = 2, tm_streamId = 0, tm_timestamp = 3, tm_syncTolerance = 33 \<rparr>) \<and>
   meta_less (TimestampMeta \<lparr> tm_frameId = 2, tm_streamId = 0, tm_timestamp = 3, tm_syncTolerance = 33 \<rparr>)
     (BasicMeta \<lparr> bm_frameId = 1, bm_streamId = 0, bm_timestamp = 5 \<rparr>)"
  by (simp add: meta_less_def)

section \<open>Properties\<close>

text \<open>
  C15. Parameters of a packet round trip: reading what was just set gives the value,
  under the same key and type; reading under another type is an \<open>InvalidArgument\<close>
  error; every other key reads as before; and the frame identity is untouched.
\<close>

theorem param_setParam:
  "param T (setParam T p key v) key = ResOk v \<and>
   (T' = T \<or> errorCode (param T' (setParam T p key v) key) = InvalidArgument) \<and>
   (key' = key \<or> param T' (setParam T p key v) key' = param T' p key') \<and>
   dp_id (setParam T p key v) = dp_id p \<and> dp_stream_id (setParam T p key v) = dp_stream_id p \<and>
   dp_timestamp (setParam T p key v) = dp_timestamp p"
  unfolding param_setParam_code setParam_identity by (simp add: err_def mkError_def)

end
