(* ===== verification/Node_Queue.thy ===== *)
theory Node_Queue
  imports Ring_Queue Packets
begin

text \<open>
  \<open>LockFreeNodeQueue\<close> of \<open>src/lock_free_queue.hpp\<close>: the input queue of a node port, a
  ring buffer with a drop policy, statistics and a drop callback.

  The operations are executed one at a time.  Every retry loop is modelled with
  its bound: the spins and eviction rounds by recursion on their number, the
  final fallback loops as partial functions.  The calls of the drop callback are
  the list \<open>nq_events\<close>, in order; the time stamp of an event is left out.  The
  frame-id accessor is application code, a field of the queue as in the class.

  The specification is \<open>latest\<close>: DropHead and KeepLatest keep the newest items.
\<close>

section \<open>Model\<close>

datatype LockFreeDropPolicy = DropTail | DropHead | KeepLatest

record DropEvent =
  ev_frame_id :: FrameId
  ev_stream_id :: StreamId
  ev_node_name :: string
  ev_port_name :: string
  ev_reason :: string
  ev_queue_size_before :: "64 word"
  ev_queue_size_after :: "64 word"
  ev_total_drops :: nat

record LockFreeQueueStatistics =
  total_pushed :: nat
  total_popped :: nat
  total_dropped :: nat
  total_rejected :: nat
  peak_size :: nat

record NodeQueueConfig =
  nqc_capacity :: "64 word"
  nqc_drop_policy :: LockFreeDropPolicy
  nqc_keep_latest_n :: "64 word"
  nqc_track_statistics :: bool
  nqc_node_name :: string
  nqc_port_name :: string

record 'a LockFreeNodeQueue =
  nq_config :: NodeQueueConfig
  nq_queue :: "'a MPMCQueue"
  nq_stats :: LockFreeQueueStatistics
  nq_dropCallback :: bool
  nq_frameIdAccessor :: "('a \<Rightarrow> FrameId option) option"
  nq_events :: "DropEvent list"

definition zero_statistics :: LockFreeQueueStatistics where
  "zero_statistics = \<lparr> total_pushed = 0, total_popped = 0, total_dropped = 0, total_rejected = 0, peak_size = 0 \<rparr>"

definition newNodeQueue :: "NodeQueueConfig \<Rightarrow> 'a LockFreeNodeQueue" where
  "newNodeQueue cfg = \<lparr> nq_config = cfg, nq_queue = newQueue (nqc_capacity cfg), nq_stats = zero_statistics,
     nq_dropCallback = False, nq_frameIdAccessor = None, nq_events = [] \<rparr>"

definition setDropPolicy :: "'a LockFreeNodeQueue \<Rightarrow> LockFreeDropPolicy \<Rightarrow> 'a LockFreeNodeQueue" where
  "setDropPolicy q policy = q \<lparr> nq_config := (nq_config q) \<lparr> nqc_drop_policy := policy \<rparr> \<rparr>"

definition setDropCallback :: "'a LockFreeNodeQueue \<Rightarrow> bool \<Rightarrow> 'a LockFreeNodeQueue" where
  "setDropCallback q installed = q \<lparr> nq_dropCallback := installed \<rparr>"

definition setFrameIdAccessor :: "'a LockFreeNodeQueue \<Rightarrow> ('a \<Rightarrow> FrameId option) \<Rightarrow> 'a LockFreeNodeQueue" where
  "setFrameIdAccessor q f = q \<lparr> nq_frameIdAccessor := Some f \<rparr>"

text \<open>\<open>fetch_add\<close> on a counter, guarded by \<open>track_statistics\<close>.\<close>

definition tracked :: "'a LockFreeNodeQueue \<Rightarrow> (LockFreeQueueStatistics \<Rightarrow> LockFreeQueueStatistics) \<Rightarrow> 'a LockFreeNodeQueue" where
  "tracked q f = (if nqc_track_statistics (nq_config q) then q \<lparr> nq_stats := f (nq_stats q) \<rparr> else q)"

definition updatePeakSize :: "'a LockFreeNodeQueue \<Rightarrow> 'a LockFreeNodeQueue" where
  "updatePeakSize q = tracked q (\<lambda>st. if unat (queue_size (nq_queue q)) > peak_size st
     then st \<lparr> peak_size := unat (queue_size (nq_queue q)) \<rparr> else st)"

text \<open>The bookkeeping after a successful push, the same in every branch.\<close>

definition count_pushed :: "'a LockFreeNodeQueue \<Rightarrow> 'a LockFreeNodeQueue" where
  "count_pushed q = tracked (updatePeakSize q) (\<lambda>st. st \<lparr> total_pushed := total_pushed st + 1 \<rparr>)"

definition notifyDrop :: "'a LockFreeNodeQueue \<Rightarrow> 'a \<Rightarrow> string \<Rightarrow> 64 word \<Rightarrow> 'a LockFreeNodeQueue" where
  "notifyDrop q dropped_item reason size_before =
     (if \<not> nq_dropCallback q then q
      else let frame_id = (case nq_frameIdAccessor q of
                             None \<Rightarrow> k_invalid_frame_id
                           | Some f \<Rightarrow> (case f dropped_item of Some fid \<Rightarrow> fid | None \<Rightarrow> k_invalid_frame_id));
               event = \<lparr> ev_frame_id = frame_id, ev_stream_id = k_default_stream_id,
                         ev_node_name = nqc_node_name (nq_config q), ev_port_name = nqc_port_name (nq_config q),
                         ev_reason = reason, ev_queue_size_before = size_before,
                         ev_queue_size_after = queue_size (nq_queue q), ev_total_drops = total_dropped (nq_stats q) \<rparr>
           in q \<lparr> nq_events := nq_events q @ [event] \<rparr>)"

definition evictOne :: "'a LockFreeNodeQueue \<Rightarrow> ('a option \<times> 'a LockFreeNodeQueue) option" where
  "evictOne q = do { (item, r) \<leftarrow> tryPop (nq_queue q); Some (item, q \<lparr> nq_queue := r \<rparr>) }"

text \<open>
  An eviction with its bookkeeping: count the drop, then notify.  \<open>size_before\<close> was
  read before the eviction.
\<close>

definition evict_report :: "string \<Rightarrow> 64 word \<Rightarrow> 'a LockFreeNodeQueue \<Rightarrow> (bool \<times> 'a LockFreeNodeQueue) option" where
  "evict_report reason size_before q = do {
     (evicted, q) \<leftarrow> evictOne q;
     case evicted of
       None \<Rightarrow> Some (False, q)
     | Some item \<Rightarrow>
         Some (True, notifyDrop (tracked q (\<lambda>st. st \<lparr> total_dropped := total_dropped st + 1 \<rparr>)) item reason size_before)
   }"

definition push_once :: "'a LockFreeNodeQueue \<Rightarrow> 'a \<Rightarrow> (bool \<times> 'a LockFreeNodeQueue) option" where
  "push_once q item = do { (ok, r) \<leftarrow> tryPush (nq_queue q) item; Some (ok, q \<lparr> nq_queue := r \<rparr>) }"

text \<open>The spin loops: at most \<open>n\<close> attempts to push.\<close>

definition spin_push :: "nat \<Rightarrow> 'a LockFreeNodeQueue \<Rightarrow> 'a \<Rightarrow> (bool \<times> 'a LockFreeNodeQueue) option" where
  "spin_push n q item = do { (ok, r) \<leftarrow> spin_tryPush n (nq_queue q) item; Some (ok, q \<lparr> nq_queue := r \<rparr>) }"

text \<open>The fallback loops: push, or evict and try again, without a bound.\<close>

partial_function (option) evict_push_loop :: "string \<Rightarrow> 'a LockFreeNodeQueue \<Rightarrow> 'a \<Rightarrow> 'a LockFreeNodeQueue option" where
  "evict_push_loop reason q item = do {
     (ok, q) \<leftarrow> push_once q item;
     if ok then Some q
     else do { (_, q) \<leftarrow> evict_report reason (queue_size (nq_queue q)) q; evict_push_loop reason q item }
   }"

definition pushDropTail :: "'a LockFreeNodeQueue \<Rightarrow> 'a \<Rightarrow> (bool \<times> 'a LockFreeNodeQueue) option" where
  "pushDropTail q item = do {
     (ok, q) \<leftarrow> push_once q item;
     if ok then Some (True, count_pushed q)
     else Some (False, tracked q (\<lambda>st. st \<lparr> total_rejected := total_rejected st + 1 \<rparr>))
   }"

primrec dropHead_rounds :: "nat \<Rightarrow> 'a LockFreeNodeQueue \<Rightarrow> 'a \<Rightarrow> (bool \<times> 'a LockFreeNodeQueue) option" where
  "dropHead_rounds 0 q item = Some (False, q)"
| "dropHead_rounds (Suc n) q item = do {
     (_, q) \<leftarrow> evict_report ''DropHead overflow'' (queue_size (nq_queue q)) q;
     (ok, q) \<leftarrow> spin_push 128 q item;
     if ok then Some (True, count_pushed q) else dropHead_rounds n q item
   }"

definition pushDropHead :: "'a LockFreeNodeQueue \<Rightarrow> 'a \<Rightarrow> (bool \<times> 'a LockFreeNodeQueue) option" where
  "pushDropHead q item = do {
     (ok, q) \<leftarrow> push_once q item;
     if ok then Some (True, count_pushed q)
     else do {
       (ok, q) \<leftarrow> dropHead_rounds 4 q item;
       if ok then Some (True, q)
       else do { q \<leftarrow> evict_push_loop ''DropHead overflow (fallback)'' q item; Some (True, count_pushed q) }
     }
   }"

text \<open>The eviction loop of KeepLatest: evict while the last size read is at least the window.\<close>

partial_function (option) keepLatest_evict :: "64 word \<Rightarrow> 64 word \<Rightarrow> 'a LockFreeNodeQueue \<Rightarrow> 'a LockFreeNodeQueue option" where
  "keepLatest_evict target_keep current_size q =
     (if current_size \<ge> target_keep
      then do {
        (evicted, q) \<leftarrow> evict_report ''KeepLatest overflow'' current_size q;
        if evicted then keepLatest_evict target_keep (queue_size (nq_queue q)) q else Some q
      }
      else Some q)"

definition pushKeepLatest :: "'a LockFreeNodeQueue \<Rightarrow> 'a \<Rightarrow> (bool \<times> 'a LockFreeNodeQueue) option" where
  "pushKeepLatest q item = do {
     let target_keep = (if nqc_keep_latest_n (nq_config q) > 0 then nqc_keep_latest_n (nq_config q) else 1);
     q \<leftarrow> keepLatest_evict target_keep (queue_size (nq_queue q)) q;
     (ok, q) \<leftarrow> push_once q item;
     if ok then Some (True, count_pushed q)
     else do {
       (_, q) \<leftarrow> evict_report ''KeepLatest force overflow'' (queue_size (nq_queue q)) q;
       (ok, q) \<leftarrow> spin_push 128 q item;
       if ok then Some (True, count_pushed q)
       else do { q \<leftarrow> evict_push_loop ''KeepLatest overflow (fallback)'' q item; Some (True, count_pushed q) }
     }
   }"

definition node_push :: "'a LockFreeNodeQueue \<Rightarrow> 'a \<Rightarrow> (bool \<times> 'a LockFreeNodeQueue) option" where
  "node_push q item = (case nqc_drop_policy (nq_config q) of
     DropTail \<Rightarrow> pushDropTail q item
   | DropHead \<Rightarrow> pushDropHead q item
   | KeepLatest \<Rightarrow> pushKeepLatest q item)"

definition node_tryPeek :: "'a LockFreeNodeQueue \<Rightarrow> 'a option" where
  "node_tryPeek q = tryPeek (nq_queue q)"

definition node_tryPop :: "'a LockFreeNodeQueue \<Rightarrow> ('a option \<times> 'a LockFreeNodeQueue) option" where
  "node_tryPop q = do {
     (item, r) \<leftarrow> tryPop (nq_queue q);
     case item of
       Some x \<Rightarrow> Some (Some x, tracked (q \<lparr> nq_queue := r \<rparr>) (\<lambda>st. st \<lparr> total_popped := total_popped st + 1 \<rparr>))
     | None \<Rightarrow> Some (None, q \<lparr> nq_queue := r \<rparr>)
   }"

partial_function (option) node_clear :: "'a LockFreeNodeQueue \<Rightarrow> 'a LockFreeNodeQueue option" where
  "node_clear q = do {
     (item, r) \<leftarrow> tryPop (nq_queue q);
     case item of None \<Rightarrow> Some (q \<lparr> nq_queue := r \<rparr>) | Some _ \<Rightarrow> node_clear (q \<lparr> nq_queue := r \<rparr>)
   }"

definition node_size :: "'a LockFreeNodeQueue \<Rightarrow> 64 word" where
  "node_size q = queue_size (nq_queue q)"

definition node_empty :: "'a LockFreeNodeQueue \<Rightarrow> bool" where
  "node_empty q = queue_empty (nq_queue q)"

definition node_isFull :: "'a LockFreeNodeQueue \<Rightarrow> bool" where
  "node_isFull q = queue_isFull (nq_queue q)"

definition resetStatistics :: "'a LockFreeNodeQueue \<Rightarrow> 'a LockFreeNodeQueue" where
  "resetStatistics q = q \<lparr> nq_stats := zero_statistics \<rparr>"

section \<open>Specification\<close>

text \<open>The newest \<open>w\<close> items of a list, and the older ones that have to go.\<close>

definition latest :: "nat \<Rightarrow> 'a list \<Rightarrow> 'a list" where
  "latest w xs = drop (length xs - w) xs"

definition outdated :: "nat \<Rightarrow> 'a list \<Rightarrow> 'a list" where
  "outdated w xs = take (length xs - w) xs"

definition nq_list :: "'a LockFreeNodeQueue \<Rightarrow> 'a list" where
  "nq_list q = ring_list (nq_queue q)"

definition nq_cap :: "'a LockFreeNodeQueue \<Rightarrow> nat" where
  "nq_cap q = unat (m_capacity (nq_queue q))"

definition nq_inv :: "nat \<Rightarrow> 'a LockFreeNodeQueue \<Rightarrow> bool" where
  "nq_inv n q \<longleftrightarrow> ring_inv (nq_queue q) \<and> ring_budget n (nq_queue q)"

text \<open>The window of a policy that evicts.\<close>

definition nq_window :: "'a LockFreeNodeQueue \<Rightarrow> nat" where
  "nq_window q = (case nqc_drop_policy (nq_config q) of
     KeepLatest \<Rightarrow> min (max (unat (nqc_keep_latest_n (nq_config q))) 1) (nq_cap q)
   | _ \<Rightarrow> nq_cap q)"

text \<open>
  The effect of a call: \<open>kept\<close> is what the queue holds afterwards, \<open>gone\<close> the evicted
  items in order.  Every evicted item is counted and reported once, by its frame
  id and the names of the node and the port.
\<close>

definition dropped_frame_id :: "'a LockFreeNodeQueue \<Rightarrow> 'a \<Rightarrow> FrameId" where
  "dropped_frame_id q item = (case nq_frameIdAccessor q of
     None \<Rightarrow> k_invalid_frame_id
   | Some f \<Rightarrow> (case f item of Some fid \<Rightarrow> fid | None \<Rightarrow> k_invalid_frame_id))"

definition drop_report :: "'a LockFreeNodeQueue \<Rightarrow> 'a \<Rightarrow> FrameId \<times> string \<times> string" where
  "drop_report q item = (dropped_frame_id q item, nqc_node_name (nq_config q), nqc_port_name (nq_config q))"

definition event_report :: "DropEvent \<Rightarrow> FrameId \<times> string \<times> string" where
  "event_report e = (ev_frame_id e, ev_node_name e, ev_port_name e)"

definition stats_effect :: "LockFreeQueueStatistics \<Rightarrow> 'a list \<Rightarrow> 'a list \<Rightarrow> bool \<Rightarrow> bool \<Rightarrow> LockFreeQueueStatistics" where
  "stats_effect st kept gone accepted rejected =
     \<lparr> total_pushed = total_pushed st + of_bool accepted, total_popped = total_popped st,
       total_dropped = total_dropped st + length gone, total_rejected = total_rejected st + of_bool rejected,
       peak_size = (if accepted then max (peak_size st) (length kept) else peak_size st) \<rparr>"

definition nq_effect :: "'a LockFreeNodeQueue \<Rightarrow> 'a LockFreeNodeQueue \<Rightarrow> 'a list \<Rightarrow> 'a list \<Rightarrow> bool \<Rightarrow> bool \<Rightarrow> bool" where
  "nq_effect q q' kept gone accepted rejected \<longleftrightarrow>
     nq_config q' = nq_config q \<and> nq_dropCallback q' = nq_dropCallback q \<and> nq_frameIdAccessor q' = nq_frameIdAccessor q \<and>
     nq_cap q' = nq_cap q \<and> nq_list q' = kept \<and>
     nq_stats q' = (if nqc_track_statistics (nq_config q) then stats_effect (nq_stats q) kept gone accepted rejected else nq_stats q) \<and>
     map event_report (nq_events q') =
       map event_report (nq_events q) @ (if nq_dropCallback q then map (drop_report q) gone else [])"

text \<open>What a push does, by policy: whether it is accepted, what stays and what goes.\<close>

definition push_accepts :: "'a LockFreeNodeQueue \<Rightarrow> bool" where
  "push_accepts q \<longleftrightarrow> nqc_drop_policy (nq_config q) \<noteq> DropTail \<or> length (nq_list q) < nq_cap q"

definition push_keeps :: "'a LockFreeNodeQueue \<Rightarrow> 'a \<Rightarrow> 'a list" where
  "push_keeps q item = (if push_accepts q then latest (nq_window q) (nq_list q @ [item]) else nq_list q)"

definition push_drops :: "'a LockFreeNodeQueue \<Rightarrow> 'a \<Rightarrow> 'a list" where
  "push_drops q item = (if push_accepts q then outdated (nq_window q) (nq_list q @ [item]) else [])"

text \<open>Sequences of calls of the public operations, each with its result.\<close>

datatype 'a node_op = NodePush 'a | NodePop | NodePeek | NodeSize | NodeEmpty | NodeIsFull | NodeClear | NodeResetStatistics
  | NodeSetPolicy LockFreeDropPolicy | NodeSetCallback bool | NodeSetAccessor "'a \<Rightarrow> FrameId option"

datatype 'a node_result = Accepted bool | Popped "'a option" | Peeked "'a option" | SizeIs nat | Answer bool | NoResult

fun node_call :: "'a node_op \<Rightarrow> 'a LockFreeNodeQueue \<Rightarrow> ('a node_result \<times> 'a LockFreeNodeQueue) option" where
  "node_call (NodePush x) q = do { (ok, q) \<leftarrow> node_push q x; Some (Accepted ok, q) }"
| "node_call NodePop q = do { (r, q) \<leftarrow> node_tryPop q; Some (Popped r, q) }"
| "node_call NodePeek q = Some (Peeked (node_tryPeek q), q)"
| "node_call NodeSize q = Some (SizeIs (unat (node_size q)), q)"
| "node_call NodeEmpty q = Some (Answer (node_empty q), q)"
| "node_call NodeIsFull q = Some (Answer (node_isFull q), q)"
| "node_call NodeClear q = do { q \<leftarrow> node_clear q; Some (NoResult, q) }"
| "node_call NodeResetStatistics q = Some (NoResult, resetStatistics q)"
| "node_call (NodeSetPolicy p) q = Some (NoResult, setDropPolicy q p)"
| "node_call (NodeSetCallback b) q = Some (NoResult, setDropCallback q b)"
| "node_call (NodeSetAccessor f) q = Some (NoResult, setFrameIdAccessor q f)"

text \<open>A run gives its history, one entry per call: the call, the queue it was made on, and its result.\<close>

type_synonym 'a node_entry = "'a node_op \<times> 'a LockFreeNodeQueue \<times> 'a node_result"

fun node_run :: "'a node_op list \<Rightarrow> 'a LockFreeNodeQueue \<Rightarrow> ('a node_entry list \<times> 'a LockFreeNodeQueue) option" where
  "node_run [] q = Some ([], q)"
| "node_run (a # as) q = do { (r, q') \<leftarrow> node_call a q; (history, q'') \<leftarrow> node_run as q'; Some ((a, q, r) # history, q'') }"

text \<open>The items that came in and went out by one call.\<close>

fun accepted_item :: "'a node_entry \<Rightarrow> 'a list" where
  "accepted_item (NodePush x, q, Accepted True) = [x]"
| "accepted_item _ = []"

fun evicted_items :: "'a node_entry \<Rightarrow> 'a list" where
  "evicted_items (NodePush x, q, r) = push_drops q x"
| "evicted_items _ = []"

fun popped_item :: "'a node_entry \<Rightarrow> 'a list" where
  "popped_item (a, q, Popped (Some x)) = [x]"
| "popped_item _ = []"

fun cleared_items :: "'a node_entry \<Rightarrow> 'a list" where
  "cleared_items (NodeClear, q, r) = nq_list q"
| "cleared_items _ = []"

definition removed_items :: "'a node_entry \<Rightarrow> 'a list" where
  "removed_items e = evicted_items e @ popped_item e @ cleared_items e"

fun reports :: "'a node_entry \<Rightarrow> (FrameId \<times> string \<times> string) list" where
  "reports (a, q, r) = (if nq_dropCallback q then map (drop_report q) (evicted_items (a, q, r)) else [])"

text \<open>
  What a call does to the items, the callback and the counters.
\<close>

definition entry_effect :: "'a node_entry \<Rightarrow> 'a LockFreeNodeQueue \<Rightarrow> 'a LockFreeNodeQueue \<Rightarrow> bool" where
  "entry_effect e q q' \<longleftrightarrow>
     nq_list q @ accepted_item e = removed_items e @ nq_list q' \<and>
     map event_report (nq_events q') = map event_report (nq_events q) @ reports e \<and> nq_cap q' = nq_cap q \<and>
     nqc_track_statistics (nq_config q') = nqc_track_statistics (nq_config q) \<and>
     (nqc_track_statistics (nq_config q) \<and> fst e \<noteq> NodeResetStatistics \<longrightarrow>
        total_pushed (nq_stats q') = total_pushed (nq_stats q) + length (accepted_item e) \<and>
        total_popped (nq_stats q') = total_popped (nq_stats q) + length (popped_item e) \<and>
        total_dropped (nq_stats q') = total_dropped (nq_stats q) + length (evicted_items e) \<and>
        peak_size (nq_stats q') = (if accepted_item e = [] then peak_size (nq_stats q) else max (peak_size (nq_stats q)) (length (nq_list q'))))"

section \<open>Lemmas\<close>

lemma latest_outdated [simp]: "outdated w xs @ latest w xs = xs"
  by (simp add: latest_def outdated_def)

lemma length_latest [simp]: "length (latest w xs) = min w (length xs)"
  by (simp add: latest_def)

lemma length_outdated [simp]: "length (outdated w xs) = length xs - w"
  by (simp add: outdated_def)

lemma latest_all: "length xs \<le> w \<Longrightarrow> latest w xs = xs \<and> outdated w xs = []"
  by (simp add: latest_def outdated_def)

lemma latest_snoc: "0 < w \<Longrightarrow> latest w (xs @ [x]) = latest (w - 1) xs @ [x] \<and> outdated w (xs @ [x]) = outdated (w - 1) xs"
  by (auto simp: latest_def outdated_def)

lemma latest_Cons: "w < length (x # xs) \<Longrightarrow> latest w (x # xs) = latest w xs \<and> outdated w (x # xs) = x # outdated w xs"
  by (auto simp: latest_def outdated_def Suc_diff_le)

lemma nq_effect_refl: "nq_effect q q (nq_list q) [] False False"
  by (simp add: nq_effect_def stats_effect_def)

text \<open>Evictions followed by another effect.\<close>

lemma nq_effect_trans:
  assumes "nq_effect q q1 k1 g1 False False" and "nq_effect q1 q2 k2 g2 a r"
  shows "nq_effect q q2 k2 (g1 @ g2) a r"
proof -
  have "drop_report q1 = drop_report q"
    using assms(1) by (intro ext) (simp add: nq_effect_def drop_report_def dropped_frame_id_def)
  then show ?thesis using assms by (auto simp: nq_effect_def stats_effect_def)
qed

lemma nq_invD:
  assumes "nq_inv n q"
  shows "ring_inv (nq_queue q) \<and> ring_budget n (nq_queue q)" and "length (nq_list q) \<le> nq_cap q"
    and "unat (queue_size (nq_queue q)) = length (nq_list q)" and "0 < nq_cap q"
  using assms ring.within_cap ring.size_length ring.cap_pos unfolding nq_inv_def nq_list_def nq_cap_def by blast+

lemma evict_report_empty:
  assumes "nq_inv n q" and "nq_list q = []"
  shows "evict_report reason s q = Some (False, q)"
  using ring.pop_empty [OF nq_invD(1) [OF assms(1)]] assms(2) by (simp add: evict_report_def evictOne_def nq_list_def)

lemma evict_report_some:
  assumes "nq_inv n q" and "nq_list q = x # xs"
  obtains q' where "evict_report reason s q = Some (True, q')" and "nq_inv n q'" and "nq_effect q q' xs [x] False False"
proof -
  obtain r where r: "tryPop (nq_queue q) = Some (Some x, r)" "ring_inv r" "ring_budget n r" "ring_list r = xs"
    "unat (m_capacity r) = unat (m_capacity (nq_queue q))"
    using ring.pop_some [OF nq_invD(1) [OF assms(1)], of x xs] assms(2) unfolding nq_list_def by blast
  let ?q' = "notifyDrop (tracked (q \<lparr> nq_queue := r \<rparr>) (\<lambda>st. st \<lparr> total_dropped := total_dropped st + 1 \<rparr>)) x reason s"
  have "nq_inv n ?q'" using r by (simp add: nq_inv_def notifyDrop_def tracked_def Let_def)
  moreover have "nq_effect q ?q' xs [x] False False"
    using r by (auto simp: nq_effect_def stats_effect_def notifyDrop_def tracked_def Let_def nq_cap_def nq_list_def
        event_report_def drop_report_def dropped_frame_id_def)
  ultimately show thesis using that r(1) by (simp add: evict_report_def evictOne_def)
qed

lemma count_pushed_effect:
  assumes "ring_inv r" and "ring_budget n r" and "ring_list r = nq_list q @ [x]" and "unat (m_capacity r) = nq_cap q"
  shows "nq_inv n (count_pushed (q \<lparr> nq_queue := r \<rparr>)) \<and>
     nq_effect q (count_pushed (q \<lparr> nq_queue := r \<rparr>)) (nq_list q @ [x]) [] True False"
proof -
  have "unat (queue_size r) = Suc (length (nq_list q))" using ring.size_length [of r n] assms by simp
  then show ?thesis
    using assms by (auto simp: nq_inv_def nq_effect_def stats_effect_def count_pushed_def updatePeakSize_def tracked_def
        nq_cap_def nq_list_def max_def)
qed

lemma push_once_room:
  assumes "nq_inv (Suc n) q" and "length (nq_list q) < nq_cap q"
  obtains q' where "push_once q x = Some (True, q')" and "0 < m \<Longrightarrow> spin_push m q x = Some (True, q')"
    and "nq_inv n (count_pushed q')" and "nq_effect q (count_pushed q') (nq_list q @ [x]) [] True False"
proof -
  obtain r where r: "tryPush (nq_queue q) x = Some (True, r)" "ring_inv r" "ring_budget n r" "ring_list r = nq_list q @ [x]"
    "unat (m_capacity r) = nq_cap q"
    using ring.push_room [OF nq_invD(1) [OF assms(1)], of x] assms(2) unfolding nq_list_def nq_cap_def by blast
  then show thesis
    using that [of "q \<lparr> nq_queue := r \<rparr>"] count_pushed_effect [OF r(2-5)] spin_tryPush_room [OF r(1), of m]
    by (simp add: push_once_def spin_push_def)
qed

lemma push_once_full:
  assumes "nq_inv n q" and "length (nq_list q) = nq_cap q"
  shows "push_once q x = Some (False, q)"
  using ring.push_full [OF nq_invD(1) [OF assms(1)], of x] assms(2) by (simp add: push_once_def nq_list_def nq_cap_def)

text \<open>One eviction from a full queue, then a spin that succeeds at once.\<close>

lemma evict_then_spin:
  assumes "nq_inv (Suc n) q" and "length (nq_list q) = nq_cap q"
  obtains q1 q2 where "evict_report reason s q = Some (True, q1)" and "spin_push 128 q1 x = Some (True, q2)"
    and "nq_inv n (count_pushed q2)" and "nq_effect q (count_pushed q2) (tl (nq_list q) @ [x]) [hd (nq_list q)] True False"
proof -
  obtain y ys where l: "nq_list q = y # ys" using assms nq_invD(4) [OF assms(1)] by (cases "nq_list q") auto
  obtain q1 where q1: "evict_report reason s q = Some (True, q1)" "nq_inv (Suc n) q1" "nq_effect q q1 ys [y] False False"
    using evict_report_some [OF assms(1) l] .
  have "length (nq_list q1) < nq_cap q1" using q1(3) l assms(2) by (simp add: nq_effect_def)
  then obtain q2 where q2: "spin_push 128 q1 x = Some (True, q2)" "nq_inv n (count_pushed q2)"
    "nq_effect q1 (count_pushed q2) (nq_list q1 @ [x]) [] True False"
    using push_once_room [OF q1(2), of x 128] by (metis zero_less_numeral)
  have "nq_effect q (count_pushed q2) (ys @ [x]) [y] True False"
    using nq_effect_trans [OF q1(3) q2(3)] q1(3) by (simp add: nq_effect_def)
  then show thesis using that q1 q2 l by simp
qed

lemma pushDropTail_outcome:
  assumes "nq_inv (Suc n) q"
  shows "\<exists>q'. pushDropTail q x = Some (length (nq_list q) < nq_cap q, q') \<and> nq_inv n q' \<and>
     nq_effect q q' (if length (nq_list q) < nq_cap q then nq_list q @ [x] else nq_list q) []
       (length (nq_list q) < nq_cap q) (\<not> length (nq_list q) < nq_cap q)"
proof (cases "length (nq_list q) < nq_cap q")
  case True
  obtain q' where "push_once q x = Some (True, q')" "nq_inv n (count_pushed q')"
    "nq_effect q (count_pushed q') (nq_list q @ [x]) [] True False"
    using push_once_room [OF assms True] .
  then show ?thesis using True by (simp add: pushDropTail_def)
next
  case False
  then have full: "length (nq_list q) = nq_cap q" using nq_invD(2) [OF assms] by simp
  have "nq_inv n q" using assms by (auto simp: nq_inv_def ring_budget_def)
  then show ?thesis
    using False push_once_full [OF assms full, of x]
    by (auto simp: pushDropTail_def tracked_def nq_inv_def nq_effect_def stats_effect_def nq_cap_def nq_list_def)
qed

lemma dropHead_rounds_first:
  assumes "evict_report ''DropHead overflow'' (queue_size (nq_queue q)) q = Some (b, q1)" and "spin_push 128 q1 x = Some (True, q2)"
    and "0 < n"
  shows "dropHead_rounds n q x = Some (True, count_pushed q2)"
  using assms by (cases n) simp_all

lemma pushDropHead_outcome:
  assumes "nq_inv (Suc n) q"
  shows "\<exists>q'. pushDropHead q x = Some (True, q') \<and> nq_inv n q' \<and>
     nq_effect q q' (latest (nq_cap q) (nq_list q @ [x])) (outdated (nq_cap q) (nq_list q @ [x])) True False"
proof (cases "length (nq_list q) < nq_cap q")
  case True
  obtain q' where "push_once q x = Some (True, q')" "nq_inv n (count_pushed q')"
    "nq_effect q (count_pushed q') (nq_list q @ [x]) [] True False"
    using push_once_room [OF assms True] .
  then show ?thesis using True latest_all [of "nq_list q @ [x]" "nq_cap q"] by (simp add: pushDropHead_def)
next
  case False
  then have full: "length (nq_list q) = nq_cap q" using nq_invD(2) [OF assms] by simp
  obtain y ys where l: "nq_list q = y # ys" using full nq_invD(4) [OF assms] by (cases "nq_list q") auto
  have w: "latest (nq_cap q) (nq_list q @ [x]) = ys @ [x]" "outdated (nq_cap q) (nq_list q @ [x]) = [y]"
    using full l by (auto simp: latest_def outdated_def)
  obtain q1 q2 where "evict_report ''DropHead overflow'' (queue_size (nq_queue q)) q = Some (True, q1)"
    "spin_push 128 q1 x = Some (True, q2)" "nq_inv n (count_pushed q2)"
    "nq_effect q (count_pushed q2) (tl (nq_list q) @ [x]) [hd (nq_list q)] True False"
    using evict_then_spin [OF assms full] .
  then show ?thesis
    using push_once_full [OF assms full, of x] dropHead_rounds_first [of q _ q1 x q2 4] w l by (simp add: pushDropHead_def)
qed

text \<open>The eviction loop of KeepLatest ends below the window.\<close>

lemma keepLatest_evict_outcome:
  assumes "nq_inv n q" and "0 < t"
  shows "\<exists>q'. keepLatest_evict t (queue_size (nq_queue q)) q = Some q' \<and> nq_inv n q' \<and>
     nq_effect q q' (latest (unat t - 1) (nq_list q)) (outdated (unat t - 1) (nq_list q)) False False"
  using assms(1)
proof (induction "length (nq_list q)" arbitrary: q)
  case 0
  have "\<not> t \<le> queue_size (nq_queue q)"
    using nq_invD(3) [OF "0.prems"] "0.hyps" assms(2) by (simp add: word_le_nat_alt word_less_nat_alt)
  then show ?case
    using 0 nq_effect_refl [of q] by (subst keepLatest_evict.simps) (simp add: latest_all)
next
  case (Suc m)
  obtain x xs where l: "nq_list q = x # xs" using Suc.hyps(2) by (cases "nq_list q") auto
  have t: "t \<le> queue_size (nq_queue q) \<longleftrightarrow> unat t \<le> length (x # xs)" and t0: "0 < unat t"
    using nq_invD(3) [OF Suc.prems] l assms(2) by (simp_all add: word_le_nat_alt word_less_nat_alt)
  show ?case
  proof (cases "unat t \<le> length (x # xs)")
    case False
    then show ?thesis
      using t l Suc.prems nq_effect_refl [of q] latest_all [of "x # xs" "unat t - 1"]
      by (subst keepLatest_evict.simps) simp
  next
    case True
    obtain q1 where q1: "evict_report ''KeepLatest overflow'' (queue_size (nq_queue q)) q = Some (True, q1)" "nq_inv n q1"
      "nq_effect q q1 xs [x] False False" using evict_report_some [OF Suc.prems l] .
    have l1: "nq_list q1 = xs" using q1(3) by (simp add: nq_effect_def)
    obtain q2 where q2: "keepLatest_evict t (queue_size (nq_queue q1)) q1 = Some q2" "nq_inv n q2"
      "nq_effect q1 q2 (latest (unat t - 1) xs) (outdated (unat t - 1) xs) False False"
      using Suc.hyps(1) [of q1] Suc.hyps(2) q1(2) l l1 by auto
    have "keepLatest_evict t (queue_size (nq_queue q)) q = Some q2"
      using True t q1(1) q2(1) by (subst keepLatest_evict.simps) simp
    moreover have "unat t - 1 < length (x # xs)" using True t0 by simp
    ultimately show ?thesis
      using q2(2) nq_effect_trans [OF q1(3) q2(3)] latest_Cons [of "unat t - 1" x xs] l by simp
  qed
qed

lemma pushKeepLatest_outcome:
  fixes q :: "'a LockFreeNodeQueue"
  defines "w \<equiv> min (max (unat (nqc_keep_latest_n (nq_config q))) 1) (nq_cap q)"
  assumes "nq_inv (Suc n) q"
  shows "\<exists>q'. pushKeepLatest q x = Some (True, q') \<and> nq_inv n q' \<and>
     nq_effect q q' (latest w (nq_list q @ [x])) (outdated w (nq_list q @ [x])) True False"
proof -
  define t where "t = (if nqc_keep_latest_n (nq_config q) > 0 then nqc_keep_latest_n (nq_config q) else 1)"
  have t: "0 < t" "unat t = max (unat (nqc_keep_latest_n (nq_config q))) 1"
    by (auto simp: t_def word_less_nat_alt max_def)
  then have t0: "0 < unat t" and wm: "w = min (unat t) (nq_cap q)" by (simp_all add: w_def)
  obtain q1 where q1: "keepLatest_evict t (queue_size (nq_queue q)) q = Some q1" "nq_inv (Suc n) q1"
    "nq_effect q q1 (latest (unat t - 1) (nq_list q)) (outdated (unat t - 1) (nq_list q)) False False"
    using keepLatest_evict_outcome [OF assms(2) t(1)] by blast
  have l1: "nq_list q1 = latest (unat t - 1) (nq_list q)" and c1: "nq_cap q1 = nq_cap q"
    using q1(3) by (auto simp: nq_effect_def)
  show ?thesis
  proof (cases "length (nq_list q1) < nq_cap q1")
    case True
    obtain q2 where q2: "push_once q1 x = Some (True, q2)" "nq_inv n (count_pushed q2)"
      "nq_effect q1 (count_pushed q2) (nq_list q1 @ [x]) [] True False"
      using push_once_room [OF q1(2) True] .
    have e: "nq_effect q (count_pushed q2) (nq_list q1 @ [x]) (outdated (unat t - 1) (nq_list q)) True False"
      using nq_effect_trans [OF q1(3) q2(3)] by simp
    have "latest w (nq_list q @ [x]) = nq_list q1 @ [x] \<and> outdated w (nq_list q @ [x]) = outdated (unat t - 1) (nq_list q)"
    proof (cases "unat t \<le> nq_cap q")
      case True
      then have "w = unat t" using wm by simp
      then show ?thesis using latest_snoc [OF t0, of "nq_list q" x] l1 by simp
    next
      case False
      then have "w = nq_cap q" using wm by simp
      moreover have "length (nq_list q) \<le> unat t - 1" using False nq_invD(2) [OF assms(2)] by simp
      ultimately show ?thesis
        using latest_all [of "nq_list q" "unat t - 1"] latest_all [of "nq_list q @ [x]" w] \<open>length (nq_list q1) < nq_cap q1\<close> l1 c1
        by simp
    qed
    then show ?thesis using e q1(1) q2 by (auto simp: pushKeepLatest_def t_def Let_def)
  next
    case False
    then have full: "length (nq_list q1) = nq_cap q1" using nq_invD(2) [OF q1(2)] by simp
    have "nq_cap q \<le> unat t - 1" using full l1 c1 by simp
    then have w: "w = nq_cap q" and "length (nq_list q) \<le> unat t - 1" using wm nq_invD(2) [OF assms(2)] by simp_all
    then have l: "nq_list q1 = nq_list q" "outdated (unat t - 1) (nq_list q) = []"
      using latest_all [of "nq_list q" "unat t - 1"] l1 by simp_all
    obtain y ys where ys: "nq_list q = y # ys" using full l(1) nq_invD(4) [OF q1(2)] by (cases "nq_list q") auto
    obtain q2 q3 where q3: "evict_report ''KeepLatest force overflow'' (queue_size (nq_queue q1)) q1 = Some (True, q2)"
      "spin_push 128 q2 x = Some (True, q3)" "nq_inv n (count_pushed q3)"
      "nq_effect q1 (count_pushed q3) (tl (nq_list q1) @ [x]) [hd (nq_list q1)] True False"
      using evict_then_spin [OF q1(2) full] .
    have "latest w (nq_list q @ [x]) = ys @ [x] \<and> outdated w (nq_list q @ [x]) = [y]"
      using w full l(1) c1 ys by (auto simp: latest_def outdated_def)
    then have "nq_effect q (count_pushed q3) (latest w (nq_list q @ [x])) (outdated w (nq_list q @ [x])) True False"
      using nq_effect_trans [OF q1(3) q3(4)] l ys by simp
    then show ?thesis
      using q1(1) push_once_full [OF q1(2) full, of x] q3 by (auto simp: pushKeepLatest_def t_def Let_def)
  qed
qed

lemma node_push_cases:
  assumes "nq_inv (Suc n) q"
  shows "\<exists>q'. node_push q x = Some (push_accepts q, q') \<and> nq_inv n q' \<and>
     nq_effect q q' (push_keeps q x) (push_drops q x) (push_accepts q) (\<not> push_accepts q)"
proof (cases "nqc_drop_policy (nq_config q)")
  case DropTail
  then show ?thesis
    using pushDropTail_outcome [OF assms, of x] latest_all [of "nq_list q @ [x]" "nq_cap q"]
    by (auto simp: node_push_def push_accepts_def push_keeps_def push_drops_def nq_window_def split: if_splits)
next
  case DropHead
  then show ?thesis
    using pushDropHead_outcome [OF assms, of x] by (simp add: node_push_def push_accepts_def push_keeps_def push_drops_def nq_window_def)
next
  case KeepLatest
  then show ?thesis
    using pushKeepLatest_outcome [OF assms, of x] by (simp add: node_push_def push_accepts_def push_keeps_def push_drops_def nq_window_def)
qed

lemma node_tryPop_cases:
  assumes "nq_inv n q"
  shows "\<exists>q'. node_tryPop q = Some (case nq_list q of [] \<Rightarrow> None | x # _ \<Rightarrow> Some x, q') \<and> nq_inv n q' \<and>
     nq_list q' = tl (nq_list q) \<and> nq_cap q' = nq_cap q \<and> nq_config q' = nq_config q \<and> nq_events q' = nq_events q \<and>
     nq_stats q' = (if nqc_track_statistics (nq_config q) \<and> nq_list q \<noteq> []
       then (nq_stats q) \<lparr> total_popped := total_popped (nq_stats q) + 1 \<rparr> else nq_stats q)"
proof -
  obtain r where "tryPop (nq_queue q) = Some (case nq_list q of [] \<Rightarrow> None | x # _ \<Rightarrow> Some x, r)" "ring_inv r" "ring_budget n r"
    "ring_list r = tl (nq_list q)" "unat (m_capacity r) = nq_cap q"
    using ring.pop_cases [OF nq_invD(1) [OF assms]] unfolding nq_list_def nq_cap_def by blast
  then show ?thesis
    by (cases "nq_list q") (auto simp: node_tryPop_def tracked_def nq_inv_def nq_list_def nq_cap_def)
qed

lemma node_clear_empties:
  assumes "nq_inv n q"
  shows "\<exists>r. node_clear q = Some (q \<lparr> nq_queue := r \<rparr>) \<and> ring_inv r \<and> ring_budget n r \<and> ring_list r = [] \<and> unat (m_capacity r) = nq_cap q"
  using assms
proof (induction "nq_list q" arbitrary: q)
  case Nil
  then show ?case
    using ring.pop_empty [OF nq_invD(1) [OF Nil.prems]] nq_invD(1) [OF Nil.prems]
    by (intro exI [of _ "nq_queue q"], subst node_clear.simps) (simp add: nq_list_def nq_cap_def)
next
  case (Cons x xs)
  obtain r where r: "tryPop (nq_queue q) = Some (Some x, r)" "ring_inv r" "ring_budget n r" "ring_list r = xs" "unat (m_capacity r) = nq_cap q"
    using ring.pop_some [OF nq_invD(1) [OF Cons.prems], of x xs] Cons.hyps(2) unfolding nq_list_def nq_cap_def by force
  then show ?case
    using Cons.hyps(1) [of "q \<lparr> nq_queue := r \<rparr>"] by (subst node_clear.simps) (simp add: nq_list_def nq_inv_def nq_cap_def)
qed

lemma push_effect:
  assumes "nq_inv (Suc n) q"
  shows "\<exists>r q'. node_call (NodePush x) q = Some (r, q') \<and> nq_inv n q' \<and> entry_effect (NodePush x, q, r) q q'"
proof -
  have "nq_list q @ (if push_accepts q then [x] else []) = push_drops q x @ push_keeps q x"
    by (simp add: push_drops_def push_keeps_def)
  moreover obtain q' where q': "node_push q x = Some (push_accepts q, q')" "nq_inv n q'"
      "nq_effect q q' (push_keeps q x) (push_drops q x) (push_accepts q) (\<not> push_accepts q)"
    using node_push_cases [OF assms, of x] by blast
  ultimately have "entry_effect (NodePush x, q, Accepted (push_accepts q)) q q'"
    by (cases "push_accepts q") (auto simp: entry_effect_def removed_items_def nq_effect_def stats_effect_def)
  then show ?thesis using q' by auto
qed

lemma pop_effect:
  assumes "nq_inv n q"
  shows "\<exists>r q'. node_call NodePop q = Some (r, q') \<and> nq_inv n q' \<and> entry_effect (NodePop, q, r) q q'"
proof -
  obtain q' where "node_tryPop q = Some (case nq_list q of [] \<Rightarrow> None | x # _ \<Rightarrow> Some x, q')" "nq_inv n q'"
     "nq_list q' = tl (nq_list q)" "nq_cap q' = nq_cap q" "nq_config q' = nq_config q" "nq_events q' = nq_events q"
     "nq_stats q' = (if nqc_track_statistics (nq_config q) \<and> nq_list q \<noteq> []
       then (nq_stats q) \<lparr> total_popped := total_popped (nq_stats q) + 1 \<rparr> else nq_stats q)"
    using node_tryPop_cases [OF assms] by blast
  then show ?thesis by (cases "nq_list q") (auto simp: entry_effect_def removed_items_def)
qed

lemma node_call_effect:
  assumes "nq_inv (Suc n) q"
  shows "\<exists>r q'. node_call a q = Some (r, q') \<and> nq_inv n q' \<and> entry_effect (a, q, r) q q'"
proof -
  have inv: "nq_inv n q" using assms by (auto simp: nq_inv_def ring_budget_def)
  obtain c where c: "node_clear q = Some (q \<lparr> nq_queue := c \<rparr>)" "ring_inv c" "ring_budget n c" "ring_list c = []" "unat (m_capacity c) = nq_cap q"
    using node_clear_empties [OF inv] by blast
  show ?thesis
  proof (cases a)
    case (NodePush x)
    then show ?thesis using push_effect [OF assms] by simp
  next
    case NodePop
    then show ?thesis using pop_effect [OF inv] by simp
  qed (use inv c in \<open>auto simp: entry_effect_def removed_items_def nq_inv_def nq_list_def nq_cap_def setDropPolicy_def setDropCallback_def
      setFrameIdAccessor_def resetStatistics_def\<close>)
qed

text \<open>The whole history: what came in went out in the same order or is still there, every eviction was reported, and the counters count.\<close>

lemma node_run_effect:
  assumes "nq_inv (length ops) q"
  shows "\<exists>history q'. node_run ops q = Some (history, q') \<and> map fst history = ops \<and> nq_inv 0 q' \<and> nq_cap q' = nq_cap q \<and>
     nq_list q @ concat (map accepted_item history) = concat (map removed_items history) @ nq_list q' \<and>
     map event_report (nq_events q') = map event_report (nq_events q) @ concat (map reports history) \<and>
     (nqc_track_statistics (nq_config q) \<and> NodeResetStatistics \<notin> set ops \<longrightarrow>
        total_pushed (nq_stats q') = total_pushed (nq_stats q) + length (concat (map accepted_item history)) \<and>
        total_popped (nq_stats q') = total_popped (nq_stats q) + length (concat (map popped_item history)) \<and>
        total_dropped (nq_stats q') = total_dropped (nq_stats q) + length (concat (map evicted_items history)) \<and>
        (length (nq_list q) \<le> peak_size (nq_stats q) \<and> peak_size (nq_stats q) \<le> nq_cap q \<longrightarrow>
           length (nq_list q') \<le> peak_size (nq_stats q') \<and> peak_size (nq_stats q') \<le> nq_cap q'))"
  using assms
proof (induction ops arbitrary: q)
  case (Cons a ops)
  then obtain r q1 where q1: "node_call a q = Some (r, q1)" "nq_inv (length ops) q1" "entry_effect (a, q, r) q q1"
    using node_call_effect [of "length ops" q a] by auto
  from Cons.IH [OF q1(2)] obtain history q2 where q2: "node_run ops q1 = Some (history, q2)" "map fst history = ops" "nq_inv 0 q2" "nq_cap q2 = nq_cap q1"
      "nq_list q1 @ concat (map accepted_item history) = concat (map removed_items history) @ nq_list q2"
      "map event_report (nq_events q2) = map event_report (nq_events q1) @ concat (map reports history)"
    and counts: "nqc_track_statistics (nq_config q1) \<and> NodeResetStatistics \<notin> set ops \<Longrightarrow>
        total_pushed (nq_stats q2) = total_pushed (nq_stats q1) + length (concat (map accepted_item history)) \<and>
        total_popped (nq_stats q2) = total_popped (nq_stats q1) + length (concat (map popped_item history)) \<and>
        total_dropped (nq_stats q2) = total_dropped (nq_stats q1) + length (concat (map evicted_items history)) \<and>
        (length (nq_list q1) \<le> peak_size (nq_stats q1) \<and> peak_size (nq_stats q1) \<le> nq_cap q1 \<longrightarrow>
           length (nq_list q2) \<le> peak_size (nq_stats q2) \<and> peak_size (nq_stats q2) \<le> nq_cap q2)"
    by blast
  note e = q1(3) [unfolded entry_effect_def fst_conv]
  have items: "nq_list q @ accepted_item (a, q, r) @ concat (map accepted_item history) = (removed_items (a, q, r) @ concat (map removed_items history)) @ nq_list q2"
    using e q2(5) by (metis append.assoc)
  have peak: "length (nq_list q1) \<le> peak_size (nq_stats q1) \<and> peak_size (nq_stats q1) \<le> nq_cap q1"
    if "nqc_track_statistics (nq_config q)" "a \<noteq> NodeResetStatistics" "length (nq_list q) \<le> peak_size (nq_stats q)" "peak_size (nq_stats q) \<le> nq_cap q"
  proof -
    have "length (nq_list q1) \<le> length (nq_list q) + length (accepted_item (a, q, r))" using e by (metis length_append le_add2)
    then show ?thesis using e that nq_invD(2) [OF q1(2)] by (auto split: if_splits)
  qed
  show ?case
    using q1(1) q2 items e counts peak by (intro exI [of _ "(a, q, r) # history"] exI [of _ q2]) auto
qed simp

lemma newNodeQueue_inv:
  assumes "unat (nqc_capacity cfg) \<le> 2 ^ 63" and "n < 2 ^ 64"
  shows "nq_inv n (newNodeQueue cfg :: 'a LockFreeNodeQueue)" and "nq_list (newNodeQueue cfg :: 'a LockFreeNodeQueue) = []"
proof -
  obtain k where k: "ring_wf k (newQueue (nqc_capacity cfg) :: 'a MPMCQueue)" "ring_list (newQueue (nqc_capacity cfg) :: 'a MPMCQueue) = []"
    using newQueue_wf [OF assms(1)] by metis
  have "ring_budget n (newQueue (nqc_capacity cfg) :: 'a MPMCQueue)"
    using assms(2) by (simp add: ring_budget_def newQueue_def Let_def)
  then show "nq_inv n (newNodeQueue cfg :: 'a LockFreeNodeQueue)"
    using k(1) by (auto simp: nq_inv_def newNodeQueue_def ring_inv_def)
  show "nq_list (newNodeQueue cfg :: 'a LockFreeNodeQueue) = []" using k(2) by (simp add: nq_list_def newNodeQueue_def)
qed

section \<open>Properties\<close>

text \<open>
  C13. \<open>push\<close> of a node queue always returns, whatever the policy: no retry loop runs
  forever.  DropTail refuses an item exactly when the queue is full and then
  changes nothing but the rejection count.  DropHead and KeepLatest accept every
  item and keep the newest ones: as many as fit for DropHead, at most
  \<open>max keep_latest_n 1\<close> of them for KeepLatest, in the order of arrival with the
  new item last.  Every evicted item is counted, and reported to the drop
  callback once, oldest first.
\<close>

theorem node_push_outcome:
  assumes "nq_inv (Suc n) q"
  shows "\<exists>q'. node_push q x = Some (push_accepts q, q') \<and> nq_inv n q' \<and>
     nq_effect q q' (push_keeps q x) (push_drops q x) (push_accepts q) (\<not> push_accepts q)"
  using node_push_cases [OF assms] .

definition demo_queue_config :: NodeQueueConfig where
  "demo_queue_config = \<lparr> nqc_capacity = 2, nqc_drop_policy = KeepLatest, nqc_keep_latest_n = 1, nqc_track_statistics = True,
     nqc_node_name = ''detector'', nqc_port_name = ''in'' \<rparr>"

theorem node_push_outcome_witness:
  "\<exists>q'. node_push (newNodeQueue demo_queue_config :: nat LockFreeNodeQueue) 7 = Some (True, q') \<and> nq_list q' = [7] \<and>
     total_pushed (nq_stats q') = 1 \<and> total_dropped (nq_stats q') = 0"
proof -
  let ?q = "newNodeQueue demo_queue_config :: nat LockFreeNodeQueue"
  have i: "nq_inv (Suc 0) ?q" "nq_list ?q = []" using newNodeQueue_inv [of demo_queue_config 1] by (simp_all add: demo_queue_config_def)
  have c: "nq_config ?q = demo_queue_config" "nq_stats ?q = zero_statistics" by (simp_all add: newNodeQueue_def)
  have d: "nqc_drop_policy demo_queue_config = KeepLatest" "nqc_track_statistics demo_queue_config"
    "nqc_keep_latest_n demo_queue_config = 1" by (simp_all add: demo_queue_config_def)
  have "push_accepts ?q" by (simp add: push_accepts_def c d)
  moreover have "0 < nq_window ?q" using nq_invD(4) [OF i(1)] by (simp add: nq_window_def c d)
  ultimately show ?thesis
    using node_push_outcome [OF i(1), of 7] i(2) c d
    by (auto simp: nq_effect_def stats_effect_def push_keeps_def push_drops_def latest_all zero_statistics_def)
qed

text \<open>
  C14. Conservation: every sequence of fewer than \<open>2 ^ 64\<close> calls of the public operations on a new queue returns
  from every call.  The items that were accepted are, in their order, the items that left the queue followed by the items
  it still holds, and an item leaves by being popped, evicted by a later push, or cleared.  Every eviction is
  reported to the callback installed at that time, once and in order.  With statistics on and not reset the counters are the numbers of
  the accepted, popped and evicted items, and the recorded peak lies between the current size and the
  capacity.
\<close>

theorem node_queue_conservation:
  assumes "unat (nqc_capacity cfg) \<le> 2 ^ 63" and "length ops < 2 ^ 64"
  shows "\<exists>history q. node_run ops (newNodeQueue cfg :: 'a LockFreeNodeQueue) = Some (history, q) \<and> map fst history = ops \<and>
     concat (map accepted_item history) = concat (map removed_items history) @ nq_list q \<and>
     map event_report (nq_events q) = concat (map reports history) \<and>
     (nqc_track_statistics cfg \<and> NodeResetStatistics \<notin> set ops \<longrightarrow>
        total_pushed (nq_stats q) = length (concat (map accepted_item history)) \<and>
        total_popped (nq_stats q) = length (concat (map popped_item history)) \<and>
        total_dropped (nq_stats q) = length (concat (map evicted_items history)) \<and>
        unat (node_size q) \<le> peak_size (nq_stats q) \<and> peak_size (nq_stats q) \<le> unat (m_capacity (nq_queue q)))"
proof -
  let ?q = "newNodeQueue cfg :: 'a LockFreeNodeQueue"
  have new: "nq_list ?q = []" "nq_events ?q = []" "nq_stats ?q = zero_statistics" "nq_config ?q = cfg"
    using newNodeQueue_inv(2) [OF assms] by (simp_all add: newNodeQueue_def)
  then show ?thesis
    using node_run_effect [OF newNodeQueue_inv(1) [OF assms]] nq_invD(3) [where n = 0]
    unfolding new by (fastforce simp: zero_statistics_def node_size_def nq_cap_def)
qed

theorem node_queue_conservation_witness:
  "\<exists>history q. node_run [NodePush 1, NodePush 2, NodePop, NodePush 3, NodeClear] (newNodeQueue demo_queue_config :: nat LockFreeNodeQueue) = Some (history, q) \<and>
     concat (map accepted_item history) = concat (map removed_items history) @ nq_list q \<and> total_pushed (nq_stats q) = length (concat (map accepted_item history))"
  using node_queue_conservation [where ?'a = nat and cfg = demo_queue_config and ops = "[NodePush 1, NodePush 2, NodePop, NodePush 3, NodeClear]"]
  by (auto simp: demo_queue_config_def)

end
