(* ===== verification/Port_Queue.thy ===== *)
theory Port_Queue
  imports Node_Queue
begin

text \<open>
  The contract of \<open>LockFreeNodeQueue\<close> (\<open>src/lock_free_queue.hpp\<close>) the engine relies on:
  a list of at most \<open>pq_cap\<close> items with a drop policy and counters.  An operation
  is the effect of the class's operation without the ring buffer, its 64-bit
  positions and its retry loops; a push also gives the items it evicted, oldest
  first, which are the items the drop callback was called for.

  \<open>queue_impl\<close> is the interface: what an implementation has to satisfy to be used
  as such a queue, and the fact that then whole sequences of calls agree.  The
  node queue is an interpretation of it.
\<close>

section \<open>Model\<close>

record 'a port_queue =
  pq_config :: NodeQueueConfig
  pq_cap :: nat
  pq_items :: "'a list"
  pq_stats :: LockFreeQueueStatistics

definition pq_new :: "NodeQueueConfig \<Rightarrow> 'a port_queue" where
  "pq_new cfg = \<lparr> pq_config = cfg,
     pq_cap = unat (roundUpPowerOf2 (if nqc_capacity cfg < 2 then 2 else nqc_capacity cfg)),
     pq_items = [], pq_stats = zero_statistics \<rparr>"

definition pq_tracked :: "'a port_queue \<Rightarrow> (LockFreeQueueStatistics \<Rightarrow> LockFreeQueueStatistics) \<Rightarrow> 'a port_queue" where
  "pq_tracked q f = (if nqc_track_statistics (pq_config q) then q \<lparr> pq_stats := f (pq_stats q) \<rparr> else q)"

definition pq_window :: "'a port_queue \<Rightarrow> nat" where
  "pq_window q = (case nqc_drop_policy (pq_config q) of
     KeepLatest \<Rightarrow> min (max (unat (nqc_keep_latest_n (pq_config q))) 1) (pq_cap q)
   | _ \<Rightarrow> pq_cap q)"

definition pq_push :: "'a port_queue \<Rightarrow> 'a \<Rightarrow> bool \<times> 'a list \<times> 'a port_queue" where
  "pq_push q item =
     (if nqc_drop_policy (pq_config q) = DropTail \<and> \<not> length (pq_items q) < pq_cap q
      then (False, [], pq_tracked q (\<lambda>st. stats_effect st (pq_items q) ([] :: 'a list) False True))
      else let kept = latest (pq_window q) (pq_items q @ [item]);
               gone = outdated (pq_window q) (pq_items q @ [item])
           in (True, gone, pq_tracked (q \<lparr> pq_items := kept \<rparr>) (\<lambda>st. stats_effect st kept gone True False)))"

definition pq_pop :: "'a port_queue \<Rightarrow> 'a option \<times> 'a port_queue" where
  "pq_pop q = (case pq_items q of
     [] \<Rightarrow> (None, q)
   | x # xs \<Rightarrow> (Some x, pq_tracked (q \<lparr> pq_items := xs \<rparr>) (\<lambda>st. st \<lparr> total_popped := total_popped st + 1 \<rparr>)))"

definition pq_peek :: "'a port_queue \<Rightarrow> 'a option" where
  "pq_peek q = (case pq_items q of [] \<Rightarrow> None | x # _ \<Rightarrow> Some x)"

definition pq_clear :: "'a port_queue \<Rightarrow> 'a port_queue" where
  "pq_clear q = q \<lparr> pq_items := [] \<rparr>"

definition pq_size :: "'a port_queue \<Rightarrow> nat" where
  "pq_size q = length (pq_items q)"

definition pq_empty :: "'a port_queue \<Rightarrow> bool" where
  "pq_empty q \<longleftrightarrow> pq_items q = []"

definition pq_isFull :: "'a port_queue \<Rightarrow> bool" where
  "pq_isFull q \<longleftrightarrow> pq_cap q \<le> length (pq_items q)"

definition pq_resetStatistics :: "'a port_queue \<Rightarrow> 'a port_queue" where
  "pq_resetStatistics q = q \<lparr> pq_stats := zero_statistics \<rparr>"

definition pq_setDropPolicy :: "'a port_queue \<Rightarrow> LockFreeDropPolicy \<Rightarrow> 'a port_queue" where
  "pq_setDropPolicy q p = q \<lparr> pq_config := (pq_config q) \<lparr> nqc_drop_policy := p \<rparr> \<rparr>"

section \<open>The interface\<close>

fun pq_step :: "'a node_op \<Rightarrow> 'a port_queue \<Rightarrow> 'a node_result \<times> 'a port_queue" where
  "pq_step (NodePush x) q = (case pq_push q x of (ok, gone, q) \<Rightarrow> (Accepted ok, q))"
| "pq_step NodePop q = (case pq_pop q of (r, q) \<Rightarrow> (Popped r, q))"
| "pq_step NodePeek q = (Peeked (pq_peek q), q)"
| "pq_step NodeSize q = (SizeIs (pq_size q), q)"
| "pq_step NodeEmpty q = (Answer (pq_empty q), q)"
| "pq_step NodeIsFull q = (Answer (pq_isFull q), q)"
| "pq_step NodeClear q = (NoResult, pq_clear q)"
| "pq_step NodeResetStatistics q = (NoResult, pq_resetStatistics q)"
| "pq_step (NodeSetPolicy p) q = (NoResult, pq_setDropPolicy q p)"
| "pq_step (NodeSetCallback b) q = (NoResult, q)"
| "pq_step (NodeSetAccessor f) q = (NoResult, q)"

fun pq_run :: "'a node_op list \<Rightarrow> 'a port_queue \<Rightarrow> 'a node_result list \<times> 'a port_queue" where
  "pq_run [] q = ([], q)"
| "pq_run (a # as) q = (case pq_step a q of (r, q) \<Rightarrow> case pq_run as q of (rs, q) \<Rightarrow> (r # rs, q))"

fun impl_run :: "('a node_op \<Rightarrow> 'q \<Rightarrow> ('a node_result \<times> 'q) option) \<Rightarrow> 'a node_op list \<Rightarrow> 'q \<Rightarrow> ('a node_result list \<times> 'q) option" where
  "impl_run step [] q = Some ([], q)"
| "impl_run step (a # as) q = do { (r, q) \<leftarrow> step a q; (rs, q) \<leftarrow> impl_run step as q; Some (r # rs, q) }"

locale queue_impl =
  fixes invar :: "nat \<Rightarrow> 'q \<Rightarrow> bool"
    and abs :: "'q \<Rightarrow> 'a port_queue"
    and step :: "'a node_op \<Rightarrow> 'q \<Rightarrow> ('a node_result \<times> 'q) option"
  assumes step_refines: "invar (Suc n) q \<Longrightarrow> \<exists>q'. step a q = Some (fst (pq_step a (abs q)), q') \<and>
      abs q' = snd (pq_step a (abs q)) \<and> invar n q'"
begin

lemma run_refines:
  "invar (length ops) q \<Longrightarrow> \<exists>q'. impl_run step ops q = Some (fst (pq_run ops (abs q)), q') \<and> abs q' = snd (pq_run ops (abs q)) \<and> invar 0 q'"
proof (induction ops arbitrary: q)
  case (Cons a ops)
  obtain q1 where q1: "step a q = Some (fst (pq_step a (abs q)), q1)" "abs q1 = snd (pq_step a (abs q))" "invar (length ops) q1"
    using step_refines [of "length ops" q a] Cons.prems by auto
  then show ?case using Cons.IH [OF q1(3)] by (auto simp: case_prod_beta)
qed simp

end

section \<open>The node queue implements it\<close>

definition pq_abs :: "'a LockFreeNodeQueue \<Rightarrow> 'a port_queue" where
  "pq_abs q = \<lparr> pq_config = nq_config q, pq_cap = nq_cap q, pq_items = nq_list q, pq_stats = nq_stats q \<rparr>"

lemma pq_window_abs [simp]: "pq_window (pq_abs q) = nq_window q"
  by (simp add: pq_window_def nq_window_def pq_abs_def split: LockFreeDropPolicy.split)

text \<open>A push evicts exactly the items of the list, and reports each of them.\<close>

lemma node_push_refines:
  assumes "nq_inv (Suc n) q"
  shows "\<exists>q'. node_push q x = Some (fst (pq_push (pq_abs q) x), q') \<and> pq_abs q' = snd (snd (pq_push (pq_abs q) x)) \<and> nq_inv n q' \<and>
     map event_report (nq_events q') = map event_report (nq_events q) @
       (if nq_dropCallback q then map (drop_report q) (fst (snd (pq_push (pq_abs q) x))) else [])"
proof -
  obtain q' where q': "node_push q x = Some (push_accepts q, q')" "nq_inv n q'"
    "nq_effect q q' (push_keeps q x) (push_drops q x) (push_accepts q) (\<not> push_accepts q)"
    using node_push_cases [OF assms] by blast
  have "pq_push (pq_abs q) x = (push_accepts q, push_drops q x, pq_abs q')"
    using q'(3) by (auto simp: pq_push_def pq_tracked_def pq_abs_def push_accepts_def push_keeps_def push_drops_def nq_effect_def
        stats_effect_def Let_def pq_window_abs [unfolded pq_abs_def])
  then show ?thesis using q' by (auto simp: nq_effect_def)
qed

lemma node_tryPop_refines:
  assumes "nq_inv n q"
  shows "\<exists>q'. node_tryPop q = Some (fst (pq_pop (pq_abs q)), q') \<and> pq_abs q' = snd (pq_pop (pq_abs q)) \<and> nq_inv n q'"
  using node_tryPop_cases [OF assms] by (cases "nq_list q") (auto simp: pq_pop_def pq_tracked_def pq_abs_def)

lemma node_queries_refine:
  assumes "nq_inv n q"
  shows "node_tryPeek q = pq_peek (pq_abs q)" and "unat (node_size q) = pq_size (pq_abs q)"
    and "node_empty q = pq_empty (pq_abs q)" and "node_isFull q = pq_isFull (pq_abs q)"
proof -
  show "node_tryPeek q = pq_peek (pq_abs q)"
    using ring.peek_head [OF nq_invD(1) [OF assms]] by (simp add: node_tryPeek_def pq_peek_def pq_abs_def nq_list_def)
  show s: "unat (node_size q) = pq_size (pq_abs q)" using nq_invD(3) [OF assms] by (simp add: node_size_def pq_size_def pq_abs_def)
  have "node_empty q \<longleftrightarrow> unat (node_size q) = 0" by (simp add: node_empty_def node_size_def queue_empty_def unat_eq_0)
  then show "node_empty q = pq_empty (pq_abs q)" using s by (simp add: pq_size_def pq_empty_def)
  show "node_isFull q = pq_isFull (pq_abs q)"
    using nq_invD(3) [OF assms] by (simp add: node_isFull_def queue_isFull_def pq_isFull_def pq_abs_def nq_cap_def word_le_nat_alt)
qed

lemma node_clear_refines:
  assumes "nq_inv n q"
  shows "\<exists>q'. node_clear q = Some q' \<and> pq_abs q' = pq_clear (pq_abs q) \<and> nq_inv n q'"
  using node_clear_empties [OF assms] by (auto simp: pq_clear_def pq_abs_def nq_inv_def nq_list_def nq_cap_def)

interpretation nq: queue_impl nq_inv pq_abs node_call
proof unfold_locales
  fix n q a
  assume inv: "nq_inv (Suc n) (q :: 'a LockFreeNodeQueue)"
  then have inv': "nq_inv n q" by (auto simp: nq_inv_def ring_budget_def)
  show "\<exists>q'. node_call a q = Some (fst (pq_step a (pq_abs q)), q') \<and> pq_abs q' = snd (pq_step a (pq_abs q)) \<and> nq_inv n q'"
  proof (cases a)
    case (NodePush x)
    then show ?thesis using node_push_refines [OF inv, of x] by (auto simp: case_prod_beta)
  next
    case NodePop
    then show ?thesis using node_tryPop_refines [OF inv'] by (auto simp: case_prod_beta)
  next
    case NodeClear
    then show ?thesis using node_clear_refines [OF inv'] by auto
  qed (use inv' node_queries_refine [OF inv'] in \<open>auto simp: setDropPolicy_def setDropCallback_def setFrameIdAccessor_def resetStatistics_def
      pq_setDropPolicy_def pq_resetStatistics_def pq_abs_def nq_inv_def nq_cap_def nq_list_def\<close>)
qed

lemma pq_abs_new: "unat (nqc_capacity cfg) \<le> 2 ^ 63 \<Longrightarrow> pq_abs (newNodeQueue cfg) = (pq_new cfg :: 'a port_queue)"
  using newNodeQueue_inv(2) [of cfg 0, where ?'a = 'a]
  by (simp add: pq_abs_def pq_new_def nq_cap_def) (simp add: newNodeQueue_def newQueue_def Let_def)

section \<open>Properties\<close>

text \<open>
  C16. A new node queue implements the list queue: any sequence of fewer than \<open>2 ^ 64\<close>
  calls of the public operations - push, pop, peek, the size, emptiness and fullness tests, clear, reset of the statistics and
  the setters - returns from every call, with the results of the list queue, and ends
  with its contents, its configuration and its counters.
\<close>

theorem node_queue_refines:
  assumes "unat (nqc_capacity cfg) \<le> 2 ^ 63" and "length ops < 2 ^ 64"
  shows "\<exists>q. impl_run node_call ops (newNodeQueue cfg :: 'a LockFreeNodeQueue) = Some (fst (pq_run ops (pq_new cfg)), q) \<and>
     pq_abs q = snd (pq_run ops (pq_new cfg))"
  using nq.run_refines [OF newNodeQueue_inv(1) [OF assms, where ?'a = 'a]] pq_abs_new [OF assms(1), where ?'a = 'a] by auto

theorem node_queue_refines_witness:
  "\<exists>q. impl_run node_call [NodePush 1, NodePush 2, NodePush 3, NodePeek, NodePop, NodePush 4, NodeClear, NodeEmpty]
         (newNodeQueue demo_queue_config :: nat LockFreeNodeQueue) =
       Some ([Accepted True, Accepted True, Accepted True, Peeked (Some 3), Popped (Some 3), Accepted True, NoResult, Answer True], q) \<and>
     nq_list q = [] \<and> total_dropped (nq_stats q) = 2"
proof -
  have "roundUpPowerOf2 2 = 2" by (simp add: roundUpPowerOf2_def)
  then show ?thesis
    using node_queue_refines [of demo_queue_config "[NodePush (1::nat), NodePush 2, NodePush 3, NodePeek, NodePop, NodePush 4, NodeClear, NodeEmpty]"]
    by (auto simp: demo_queue_config_def pq_new_def pq_push_def pq_pop_def pq_peek_def pq_clear_def pq_empty_def pq_window_def pq_tracked_def latest_def outdated_def
        stats_effect_def zero_statistics_def pq_abs_def Let_def)
qed

end
