(* ===== verification/Frame_Alignment.thy ===== *)
theory Frame_Alignment
  imports Packets "HOL-Library.Sublist" "HOL-Library.Monad_Syntax"
begin

text \<open>
  \<open>src/frame_alignment.hpp\<close>: the three rules that decide whether the packets at the
  heads of a node's input ports belong together, and the gather loop they share.

  The port operations of the loop are the caller's lambdas, arguments of the model
  on a state of any type.  \<open>alignment_policy\<close> is what the loop needs of a rule,
  \<open>join_ports\<close> what it needs of the ports; the loop's lemmas are proved from the two
  in \<open>aligned_gather\<close>.  The three rules are interpretations of the first; the
  engine's queues are an interpretation of the second (theory \<open>Join_Gather\<close>).
\<close>

section \<open>FrameId policy\<close>

type_synonym 'v heads = "'v PortDataPtr list"

definition headId :: "'v PortDataPtr \<Rightarrow> FrameId" where
  "headId head = (case head of Some p \<Rightarrow> dp_id p | None \<Rightarrow> k_invalid_frame_id)"

definition newestId :: "'v heads \<Rightarrow> FrameId" where
  "newestId heads = foldl (\<lambda>target head. max target (headId head)) k_invalid_frame_id heads"

definition frame_aligned :: "'v heads \<Rightarrow> bool" where
  "frame_aligned heads \<longleftrightarrow>
     (let target = newestId heads
      in \<not> list_ex (\<lambda>head. headId head \<noteq> k_invalid_frame_id \<and> headId head \<noteq> target) heads)"

definition frame_stale :: "'v heads \<Rightarrow> nat list" where
  "frame_stale heads =
     (let target = newestId heads
      in filter (\<lambda>i. headId (heads ! i) \<noteq> k_invalid_frame_id \<and> headId (heads ! i) < target) [0..<length heads])"

definition frame_pairsWith :: "'v DataPacket \<Rightarrow> 'v DataPacket \<Rightarrow> bool" where
  "frame_pairsWith head reference \<longleftrightarrow> \<not> hasFrameId head \<or> dp_id head = dp_id reference"

section \<open>StreamFrameId policy\<close>

definition has_identity :: "'v PortDataPtr \<Rightarrow> bool" where
  "has_identity head \<longleftrightarrow> (case head of Some p \<Rightarrow> hasFrameId p | None \<Rightarrow> False)"

definition head_packet :: "'v PortDataPtr \<Rightarrow> 'v DataPacket" where
  "head_packet head = (case head of Some p \<Rightarrow> p | None \<Rightarrow> emptyPacket)"

definition head_key :: "'v PortDataPtr \<Rightarrow> StreamId \<times> FrameId" where
  "head_key head = (dp_stream_id (head_packet head), dp_id (head_packet head))"

fun stream_aligned_from :: "(StreamId \<times> FrameId) option \<Rightarrow> 'v heads \<Rightarrow> bool" where
  "stream_aligned_from key [] = True"
| "stream_aligned_from key (head # rest) =
     (if \<not> has_identity head then stream_aligned_from key rest
      else case key of
             None \<Rightarrow> stream_aligned_from (Some (head_key head)) rest
           | Some k \<Rightarrow> if head_key head \<noteq> k then False else stream_aligned_from key rest)"

definition stream_aligned :: "'v heads \<Rightarrow> bool" where
  "stream_aligned heads = stream_aligned_from None heads"

definition newest_ts :: "'v heads \<Rightarrow> Timestamp" where
  "newest_ts heads = foldl (\<lambda>newest head.
     if has_identity head \<and> dp_timestamp (head_packet head) > newest then dp_timestamp (head_packet head) else newest) 0 heads"

text \<open>The lexicographic \<open>operator<\<close> of \<open>std::pair\<close>.\<close>

definition key_less :: "StreamId \<times> FrameId \<Rightarrow> StreamId \<times> FrameId \<Rightarrow> bool" where
  "key_less a b \<longleftrightarrow> fst a < fst b \<or> fst a = fst b \<and> snd a < snd b"

definition stream_min_index :: "'v heads \<Rightarrow> nat" where
  "stream_min_index heads = foldl (\<lambda>min_index i.
     if \<not> has_identity (heads ! i) then min_index
     else if min_index = length heads \<or> key_less (head_key (heads ! i)) (head_key (heads ! min_index)) then i
     else min_index) (length heads) [0..<length heads]"

definition stream_stale :: "'v heads \<Rightarrow> nat list" where
  "stream_stale heads =
     (let by_time = filter (\<lambda>i. has_identity (heads ! i) \<and> dp_timestamp (head_packet (heads ! i)) < newest_ts heads) [0..<length heads];
          min_index = stream_min_index heads
      in if by_time \<noteq> [] then by_time
         else if min_index = length heads then []
         else filter (\<lambda>i. has_identity (heads ! i) \<and> head_key (heads ! i) = head_key (heads ! min_index)) [0..<length heads])"

definition stream_pairsWith :: "'v DataPacket \<Rightarrow> 'v DataPacket \<Rightarrow> bool" where
  "stream_pairsWith head reference \<longleftrightarrow>
     \<not> hasFrameId head \<or> dp_stream_id head = dp_stream_id reference \<and> dp_id head = dp_id reference"

section \<open>Timestamp policy\<close>

text \<open>\<open>Timestamp::max()\<close> and \<open>Timestamp::min()\<close>; the tolerance is in microseconds.\<close>

definition timestamp_max :: Timestamp where
  "timestamp_max = 2 ^ 63 - 1"

definition timestamp_min :: Timestamp where
  "timestamp_min = - (2 ^ 63)"

definition head_min_ts :: "'v heads \<Rightarrow> Timestamp" where
  "head_min_ts heads = foldl (\<lambda>t head. case head of None \<Rightarrow> t | Some p \<Rightarrow> min t (dp_timestamp p)) timestamp_max heads"

definition head_max_ts :: "'v heads \<Rightarrow> Timestamp" where
  "head_max_ts heads = foldl (\<lambda>t head. case head of None \<Rightarrow> t | Some p \<Rightarrow> max t (dp_timestamp p)) timestamp_min heads"

definition ts_aligned :: "int \<Rightarrow> 'v heads \<Rightarrow> bool" where
  "ts_aligned tolerance heads \<longleftrightarrow>
     head_min_ts heads > head_max_ts heads \<or> head_max_ts heads - head_min_ts heads \<le> tolerance * 1000"

definition ts_stale :: "int \<Rightarrow> 'v heads \<Rightarrow> nat list" where
  "ts_stale tolerance heads =
     filter (\<lambda>i. heads ! i \<noteq> None \<and> head_max_ts heads - dp_timestamp (head_packet (heads ! i)) > tolerance * 1000) [0..<length heads]"

definition ts_pairsWith :: "int \<Rightarrow> 'v DataPacket \<Rightarrow> 'v DataPacket \<Rightarrow> bool" where
  "ts_pairsWith tolerance head reference \<longleftrightarrow>
     (if dp_timestamp head \<ge> dp_timestamp reference then dp_timestamp head - dp_timestamp reference
      else dp_timestamp reference - dp_timestamp head) \<le> tolerance * 1000"

section \<open>The gather loop\<close>

record 'v align_policy =
  ap_aligned :: "'v heads \<Rightarrow> bool"
  ap_stale :: "'v heads \<Rightarrow> nat list"
  ap_dropReason :: string

definition FrameIdPolicy :: "'v align_policy" where
  "FrameIdPolicy = \<lparr> ap_aligned = frame_aligned, ap_stale = frame_stale, ap_dropReason = ''frame alignment drop'' \<rparr>"

definition StreamFrameIdPolicy :: "'v align_policy" where
  "StreamFrameIdPolicy = \<lparr> ap_aligned = stream_aligned, ap_stale = stream_stale, ap_dropReason = ''stream alignment drop'' \<rparr>"

definition TimestampPolicy :: "int \<Rightarrow> 'v align_policy" where
  "TimestampPolicy tolerance = \<lparr> ap_aligned = ts_aligned tolerance, ap_stale = ts_stale tolerance,
     ap_dropReason = ''timestamp alignment drop'' \<rparr>"

text \<open>
  Phase A over the ports that are left: the flags and the heads, or \<open>None\<close> when an open
  port is dry.
\<close>

fun gather_peek :: "(nat \<Rightarrow> 's \<Rightarrow> bool) \<Rightarrow> (nat \<Rightarrow> 's \<Rightarrow> 'v PortDataPtr option \<times> 's) \<Rightarrow> nat list \<Rightarrow> 's \<Rightarrow>
    (bool list \<times> 'v heads) option \<times> 's" where
  "gather_peek closed peek [] s = (Some ([], []), s)"
| "gather_peek closed peek (i # is) s =
     (if closed i s
      then (case gather_peek closed peek is s of
              (Some (cl, hs), s) \<Rightarrow> (Some (True # cl, None # hs), s)
            | (None, s) \<Rightarrow> (None, s))
      else (case peek i s of
              (None, s) \<Rightarrow> (None, s)
            | (Some h, s) \<Rightarrow> (case gather_peek closed peek is s of
                  (Some (cl, hs), s) \<Rightarrow> (Some (False # cl, h # hs), s)
                | (None, s) \<Rightarrow> (None, s))))"

text \<open>Phase B: pop the open ports.\<close>

fun gather_pop :: "(nat \<Rightarrow> 's \<Rightarrow> bool \<times> 's) \<Rightarrow> bool list \<Rightarrow> nat list \<Rightarrow> 's \<Rightarrow> bool \<times> 's" where
  "gather_pop pop is_closed [] s = (True, s)"
| "gather_pop pop is_closed (i # is) s =
     (if is_closed ! i then gather_pop pop is_closed is s
      else case pop i s of (ok, s) \<Rightarrow> if ok then gather_pop pop is_closed is s else (False, s))"

text \<open>Phase C: discard the stale heads.\<close>

definition gather_drop :: "(nat \<Rightarrow> 'v PortDataPtr \<Rightarrow> string \<Rightarrow> 's \<Rightarrow> 's) \<Rightarrow> string \<Rightarrow> 'v heads \<Rightarrow> nat list \<Rightarrow> 's \<Rightarrow> 's" where
  "gather_drop drp reason heads stale s = foldl (\<lambda>s i. drp i (heads ! i) reason s) s stale"

partial_function (option) gatherAligned :: "nat \<Rightarrow> 'v align_policy \<Rightarrow> (nat \<Rightarrow> 's \<Rightarrow> 'v PortDataPtr option \<times> 's) \<Rightarrow>
    (nat \<Rightarrow> 's \<Rightarrow> bool \<times> 's) \<Rightarrow> (nat \<Rightarrow> 'v PortDataPtr \<Rightarrow> string \<Rightarrow> 's \<Rightarrow> 's) \<Rightarrow> (nat \<Rightarrow> 's \<Rightarrow> bool) \<Rightarrow>
    's \<Rightarrow> (bool \<times> 's) option" where
  "gatherAligned port_count policy peek pop drp closed s =
     (case gather_peek closed peek [0..<port_count] s of
        (None, s) \<Rightarrow> Some (False, s)
      | (Some (is_closed, heads), s) \<Rightarrow>
          (if list_all id is_closed then Some (False, s)
           else if ap_aligned policy heads then Some (gather_pop pop is_closed [0..<port_count] s)
           else (let stale = ap_stale policy heads
                 in if stale = [] then Some (False, s)
                    else gatherAligned port_count policy peek pop drp closed (gather_drop drp (ap_dropReason policy) heads stale s))))"

section \<open>Interfaces\<close>

text \<open>The indices a policy discards are distinct open ports.\<close>

locale alignment_policy =
  fixes policy :: "'v align_policy"
  assumes stale_head: "i \<in> set (ap_stale policy heads) \<Longrightarrow> i < length heads \<and> heads ! i \<noteq> None"
    and stale_distinct: "distinct (ap_stale policy heads)"

text \<open>
  The ports of a join: \<open>items\<close> is what is queued at a port, \<open>delivered\<close> what the node
  will be given for it.  Looking at a port may discard packets in front of the head.  A port
  is closed when the end of its stream was signalled (\<open>latched\<close>) and nothing is queued.
\<close>

locale join_ports =
  fixes port_count :: nat
    and items :: "'s \<Rightarrow> nat \<Rightarrow> 'v PortDataPtr list"
    and delivered :: "'s \<Rightarrow> nat \<Rightarrow> 'v PortDataPtr option"
    and peek :: "nat \<Rightarrow> 's \<Rightarrow> 'v PortDataPtr option \<times> 's"
    and pop :: "nat \<Rightarrow> 's \<Rightarrow> bool \<times> 's"
    and drp :: "nat \<Rightarrow> 'v PortDataPtr \<Rightarrow> string \<Rightarrow> 's \<Rightarrow> 's"
    and closed :: "nat \<Rightarrow> 's \<Rightarrow> bool"
    and latched :: "nat \<Rightarrow> bool"
    and wf :: "'s \<Rightarrow> bool"
  assumes closed_iff: "wf s \<Longrightarrow> i < port_count \<Longrightarrow> closed i s \<longleftrightarrow> latched i \<and> items s i = []"
    and peek_wf: "wf s \<Longrightarrow> wf (snd (peek i s))"
    and peek_head: "wf s \<Longrightarrow> i < port_count \<Longrightarrow>
      fst (peek i s) = (case items (snd (peek i s)) i of [] \<Rightarrow> None | h # _ \<Rightarrow> Some h)"
    and peek_suffix: "wf s \<Longrightarrow> suffix (items (snd (peek i s)) i) (items s i)"
    and peek_frame: "wf s \<Longrightarrow> j \<noteq> i \<Longrightarrow> items (snd (peek i s)) j = items s j"
    and peek_delivered: "wf s \<Longrightarrow> delivered (snd (peek i s)) = delivered s"
    and pop_head: "wf s \<Longrightarrow> i < port_count \<Longrightarrow> items s i = h # hs \<Longrightarrow>
      \<exists>s'. pop i s = (True, s') \<and> wf s' \<and> items s' = (items s)(i := hs) \<and> delivered s' = (delivered s)(i := Some h)"
    and drop_head: "wf s \<Longrightarrow> i < port_count \<Longrightarrow> items s i = h # hs \<Longrightarrow>
      wf (drp i h reason s) \<and> items (drp i h reason s) = (items s)(i := hs) \<and> delivered (drp i h reason s) = delivered s"
begin

lemma peek_suffix_all: "wf s \<Longrightarrow> suffix (items (snd (peek i s)) j) (items s j)"
  using peek_suffix peek_frame by (cases "j = i") auto

definition head_at where
  "head_at s i h \<longleftrightarrow> (if closed i s then h = None else \<exists>rest. items s i = h # rest)"

lemma closed_mono: "wf s \<Longrightarrow> wf s' \<Longrightarrow> i < port_count \<Longrightarrow> suffix (items s' i) (items s i) \<Longrightarrow> closed i s \<Longrightarrow> closed i s'"
  by (simp add: closed_iff)

lemma gather_peek_outcome:
  assumes "wf s" and "distinct is" and "set is \<subseteq> {..<port_count}" and "gather_peek closed peek is s = (r, s')"
  shows "wf s' \<and> delivered s' = delivered s \<and> (\<forall>j. suffix (items s' j) (items s j)) \<and> (\<forall>j. j \<notin> set is \<longrightarrow> items s' j = items s j) \<and>
     (case r of None \<Rightarrow> \<exists>j\<in>set is. \<not> closed j s \<and> items s' j = []
      | Some (cl, hs) \<Rightarrow> length cl = length is \<and> length hs = length is \<and>
          (\<forall>k<length is. cl ! k = closed (is ! k) s' \<and> head_at s' (is ! k) (hs ! k)))"
  using assms
proof (induction "is" arbitrary: s r s')
  case (Cons i "is")
  have i: "i < port_count" "i \<notin> set is" "distinct is" "set is \<subseteq> {..<port_count}" using Cons.prems by auto
  show ?case
  proof (cases "closed i s")
    case True
    obtain r1 s1 where g: "gather_peek closed peek is s = (r1, s1)" by fastforce
    note ih = Cons.IH [OF Cons.prems(1) i(3,4) g]
    have "s' = s1" "r = map_option (\<lambda>(cl, hs). (True # cl, None # hs)) r1"
      using Cons.prems(4) True g by (auto split: option.splits)
    moreover have "closed i s1" using closed_mono [OF Cons.prems(1) _ i(1) _ True] ih by blast
    moreover from this have "head_at s1 i None" by (simp add: head_at_def)
    ultimately show ?thesis using ih by (auto simp: less_Suc_eq_0_disj split: option.splits)
  next
    case False
    obtain h s1 where p: "peek i s = (h, s1)" by fastforce
    have s1: "wf s1" "delivered s1 = delivered s" "\<And>j. suffix (items s1 j) (items s j)" "\<And>j. j \<noteq> i \<Longrightarrow> items s1 j = items s j"
      "h = (case items s1 i of [] \<Rightarrow> None | h # _ \<Rightarrow> Some h)"
      using peek_wf [OF Cons.prems(1), of i] peek_delivered [OF Cons.prems(1), of i] peek_suffix_all [OF Cons.prems(1), of i]
        peek_frame [OF Cons.prems(1), of _ i] peek_head [OF Cons.prems(1) i(1)] p by auto
    show ?thesis
    proof (cases h)
      case None
      then have "items s1 i = []" using s1(5) by (auto split: list.splits)
      then show ?thesis using Cons.prems(4) False p s1 None by auto
    next
      case (Some x)
      obtain r2 s2 where g: "gather_peek closed peek is s1 = (r2, s2)" by fastforce
      note ih = Cons.IH [OF s1(1) i(3,4) g]
      obtain rest where "items s1 i = x # rest" using s1(5) Some by (auto split: list.splits)
      then have at: "head_at s2 i x" "\<not> closed i s2" using ih i(1,2) by (auto simp: head_at_def closed_iff)
      have "\<forall>j. suffix (items s2 j) (items s j)" using ih s1(3) suffix_order.trans by blast
      moreover have "\<forall>j. j \<notin> set (i # is) \<longrightarrow> items s2 j = items s j" using ih s1(4) by auto
      moreover have r: "s' = s2" "r = map_option (\<lambda>(cl, hs). (False # cl, x # hs)) r2"
        using Cons.prems(4) False p Some g by (auto split: option.splits)
      moreover have "\<exists>j\<in>set (i # is). \<not> closed j s \<and> items s2 j = []" if "r2 = None"
      proof -
        obtain j where "j \<in> set is" "\<not> closed j s1" "items s2 j = []" using ih \<open>r2 = None\<close> by auto
        then show ?thesis using closed_mono [OF Cons.prems(1) s1(1) _ s1(3), of j] i(4) by auto
      qed
      ultimately show ?thesis using ih s1(2) at by (auto simp: less_Suc_eq_0_disj split: option.splits)
    qed
  qed
qed auto

lemma gather_pop_outcome:
  assumes "wf s" and "distinct is" and "set is \<subseteq> {..<port_count}" and "\<And>i. i \<in> set is \<Longrightarrow> \<not> cl ! i \<Longrightarrow> \<exists>rest. items s i = heads ! i # rest"
  shows "\<exists>s'. gather_pop pop cl is s = (True, s') \<and> wf s' \<and>
     (\<forall>i. if i \<in> set is \<and> \<not> cl ! i then items s i = heads ! i # items s' i \<and> delivered s' i = Some (heads ! i)
          else items s' i = items s i \<and> delivered s' i = delivered s i)"
  using assms
proof (induction "is" arbitrary: s)
  case (Cons i "is")
  show ?case
  proof (cases "cl ! i")
    case True
    then show ?thesis using Cons.IH [of s] Cons.prems by auto
  next
    case False
    obtain rest where r: "items s i = heads ! i # rest" using Cons.prems(4) False by auto
    obtain s1 where s1: "pop i s = (True, s1)" "wf s1" "items s1 = (items s)(i := rest)" "delivered s1 = (delivered s)(i := Some (heads ! i))"
      using pop_head [OF Cons.prems(1) _ r] Cons.prems(3) by auto
    have "\<And>j. j \<in> set is \<Longrightarrow> \<not> cl ! j \<Longrightarrow> \<exists>rest. items s1 j = heads ! j # rest" using Cons.prems(2,4) s1(3) by auto
    then obtain s2 where s2: "gather_pop pop cl is s1 = (True, s2)" "wf s2"
      and all: "\<forall>j. if j \<in> set is \<and> \<not> cl ! j then items s1 j = heads ! j # items s2 j \<and> delivered s2 j = Some (heads ! j)
          else items s2 j = items s1 j \<and> delivered s2 j = delivered s1 j"
      using Cons.IH [OF s1(2)] Cons.prems(2,3) by auto
    have "if j \<in> set (i # is) \<and> \<not> cl ! j then items s j = heads ! j # items s2 j \<and> delivered s2 j = Some (heads ! j)
          else items s2 j = items s j \<and> delivered s2 j = delivered s j" for j
      using all [rule_format, of j] s1(3,4) r False Cons.prems(2) by (cases "j = i") auto
    then show ?thesis using s1(1) s2 False by simp
  qed
qed auto

lemma gather_drop_outcome:
  assumes "wf s" and "distinct is" and "set is \<subseteq> {..<port_count}" and "\<And>i. i \<in> set is \<Longrightarrow> \<exists>rest. items s i = heads ! i # rest"
  shows "wf (gather_drop drp reason heads is s) \<and> delivered (gather_drop drp reason heads is s) = delivered s \<and>
     items (gather_drop drp reason heads is s) = (\<lambda>i. if i \<in> set is then tl (items s i) else items s i)"
  using assms
proof (induction "is" arbitrary: s)
  case (Cons i "is")
  obtain rest where r: "items s i = heads ! i # rest" using Cons.prems(4) by auto
  let ?s1 = "drp i (heads ! i) reason s"
  have s1: "wf ?s1" "items ?s1 = (items s)(i := rest)" "delivered ?s1 = delivered s"
    using drop_head [OF Cons.prems(1) _ r] Cons.prems(3) by auto
  have "\<And>j. j \<in> set is \<Longrightarrow> \<exists>rest. items ?s1 j = heads ! j # rest" using Cons.prems(2,4) s1(2) by auto
  then show ?case using Cons.IH [OF s1(1)] Cons.prems(2,3) s1 r by (auto simp: gather_drop_def fun_eq_iff)
qed (auto simp: gather_drop_def)

end

text \<open>
  A gather always returns.  Before it delivers, it only removes packets in ways the provider accounts for: \<open>via\<close> relates
  two states when the second arises from the first by looking at ports and by discarding
  the stale heads of sets that are not aligned.  From the state it reaches this way it takes one aligned set, the heads of
  all open ports, or nothing; and it takes nothing only if an open port ran dry, all ports are closed, or the
  rule named nothing to discard.
\<close>

locale aligned_gather = join_ports port_count items delivered peek pop drp closed latched wf + alignment_policy policy
  for port_count and items :: "'s \<Rightarrow> nat \<Rightarrow> 'v PortDataPtr list" and delivered and peek and pop and drp and closed and latched and wf
    and policy :: "'v align_policy" +
  fixes via :: "'s \<Rightarrow> 's \<Rightarrow> bool"
  assumes via_refl: "via s s"
    and via_trans: "via s1 s2 \<Longrightarrow> via s2 s3 \<Longrightarrow> via s1 s3"
    and via_peek: "wf s \<Longrightarrow> i < port_count \<Longrightarrow> via s (snd (peek i s))"
    and via_stale: "wf s \<Longrightarrow> length heads = port_count \<Longrightarrow>
      (\<forall>k<port_count. if closed k s then heads ! k = None else \<exists>rest. items s k = heads ! k # rest) \<Longrightarrow> \<not> ap_aligned policy heads \<Longrightarrow>
      via s (gather_drop drp (ap_dropReason policy) heads (ap_stale policy heads) s)"
begin

definition queued where
  "queued s = (\<Sum>i<port_count. length (items s i))"

definition shown where
  "shown s heads \<longleftrightarrow> length heads = port_count \<and> (\<forall>k<port_count. head_at s k (heads ! k))"

definition taken where
  "taken s1 heads s' \<longleftrightarrow> shown s1 heads \<and> ap_aligned policy heads \<and> (\<exists>i<port_count. \<not> closed i s1) \<and>
     (\<forall>i<port_count. if closed i s1 then items s' i = items s1 i \<and> delivered s' i = delivered s1 i
        else items s1 i = heads ! i # items s' i \<and> delivered s' i = Some (heads ! i)) \<and>
     (\<forall>i\<ge>port_count. items s' i = items s1 i)"

definition stuck where
  "stuck s s1 \<longleftrightarrow> (\<exists>i<port_count. \<not> closed i s \<and> items s1 i = []) \<or> (\<forall>i<port_count. closed i s1) \<or>
     (\<exists>heads. shown s1 heads \<and> \<not> ap_aligned policy heads \<and> ap_stale policy heads = [])"

definition gathered where
  "gathered s ok s' \<longleftrightarrow> wf s' \<and> (\<exists>s1. wf s1 \<and> via s s1 \<and> delivered s1 = delivered s \<and> (\<forall>i. suffix (items s1 i) (items s i)) \<and>
     (if ok then \<exists>heads. taken s1 heads s' else s1 = s' \<and> stuck s s1))"

lemma gathered_after:
  assumes "gathered s1 ok s'" and "wf s" and "wf s1" and "via s s1" and "\<And>i. suffix (items s1 i) (items s i)" and "delivered s1 = delivered s"
  shows "gathered s ok s'"
proof -
  obtain s2 where s2: "wf s'" "wf s2" "via s1 s2" "delivered s2 = delivered s1" "\<forall>i. suffix (items s2 i) (items s1 i)"
      "if ok then \<exists>heads. taken s2 heads s' else s2 = s' \<and> stuck s1 s2"
    using assms(1) unfolding gathered_def by blast
  have "suffix (items s2 i) (items s i)" for i using s2(5) suffix_order.trans [OF _ assms(5)] by blast
  moreover have "stuck s s2" if "stuck s1 s2"
    using that closed_mono [OF assms(2,3) _ assms(5)] unfolding stuck_def by blast
  ultimately show ?thesis using s2 via_trans [OF assms(4) s2(3)] assms(6) unfolding gathered_def by (auto split: if_splits)
qed

lemma ports: "set [0..<port_count] \<subseteq> {..<port_count}"
  by auto

lemma gather_peek_via:
  "wf s \<Longrightarrow> set is \<subseteq> {..<port_count} \<Longrightarrow> gather_peek closed peek is s = (r, s') \<Longrightarrow> via s s'"
proof (induction "is" arbitrary: s r s')
  case (Cons i "is")
  have i: "i < port_count" "set is \<subseteq> {..<port_count}" using Cons.prems by auto
  obtain h s1 where p: "peek i s = (h, s1)" by fastforce
  have s1: "wf s1" "via s s1" using peek_wf [OF Cons.prems(1), of i] via_peek [OF Cons.prems(1) i(1)] p by simp_all
  obtain r1 s2 r2 s3 where g: "gather_peek closed peek is s = (r1, s2)" "gather_peek closed peek is s1 = (r2, s3)" by fastforce
  have "via s s2" "via s s3" using Cons.IH [OF Cons.prems(1) i(2) g(1)] via_trans [OF s1(2) Cons.IH [OF s1(1) i(2) g(2)]] by simp_all
  then show ?case using Cons.prems(3) p g s1(2) by (auto split: if_splits option.splits)
qed (simp add: via_refl)

text \<open>The result of phase A: every open port has a head, or one ran dry.\<close>

lemma phase_a:
  assumes "wf s" and "gather_peek closed peek [0..<port_count] s = (r, s1)"
  shows "wf s1" and "delivered s1 = delivered s" and "\<And>j. suffix (items s1 j) (items s j)" and "via s s1"
    and "r = None \<Longrightarrow> \<exists>j<port_count. \<not> closed j s \<and> items s1 j = []"
    and "\<And>cl hs. r = Some (cl, hs) \<Longrightarrow> cl = map (\<lambda>k. closed k s1) [0..<port_count] \<and> shown s1 hs"
  using gather_peek_outcome [OF assms(1) _ ports assms(2)] gather_peek_via [OF assms(1) ports assms(2)]
  by (auto simp: shown_def intro!: nth_equalityI split: option.splits)

lemma deliver_aligned:
  assumes "wf s" and "shown s heads" and "ap_aligned policy heads" and "cl = map (\<lambda>k. closed k s) [0..<port_count]" and "\<not> list_all id cl"
  shows "\<exists>s'. gather_pop pop cl [0..<port_count] s = (True, s') \<and> wf s' \<and> taken s heads s'"
proof -
  have cl: "cl ! k = closed k s" if "k < port_count" for k using that assms(4) by simp
  obtain s' where s': "gather_pop pop cl [0..<port_count] s = (True, s')" "wf s'"
    and all: "\<forall>i. if i \<in> set [0..<port_count] \<and> \<not> cl ! i then items s i = heads ! i # items s' i \<and> delivered s' i = Some (heads ! i)
       else items s' i = items s i \<and> delivered s' i = delivered s i"
    using gather_pop_outcome [OF assms(1) distinct_upt ports, of cl heads] assms(2) cl by (auto simp: shown_def head_at_def)
  have "\<exists>i<port_count. \<not> closed i s" using assms(4,5) by (auto simp: list_all_length)
  moreover have "if closed i s then items s' i = items s i \<and> delivered s' i = delivered s i
       else items s i = heads ! i # items s' i \<and> delivered s' i = Some (heads ! i)" if "i < port_count" for i
    using that all [rule_format, of i] cl [OF that] by auto
  moreover have "\<forall>i\<ge>port_count. items s' i = items s i" using all by auto
  ultimately show ?thesis using s' assms(2,3) unfolding taken_def by blast
qed

lemma discard_stale:
  fixes heads defines "is \<equiv> ap_stale policy heads"
  assumes "wf s" and "shown s heads" and "is \<noteq> []"
  shows "wf (gather_drop drp reason heads is s)" and "delivered (gather_drop drp reason heads is s) = delivered s"
    and "\<And>i. suffix (items (gather_drop drp reason heads is s) i) (items s i)"
    and "queued (gather_drop drp reason heads is s) < queued s"
proof -
  let ?s = "gather_drop drp reason heads is s"
  have st: "i < port_count \<and> (\<exists>rest. items s i = heads ! i # rest)" if "i \<in> set is" for i
    using stale_head [of i heads] that assms(3) unfolding is_def shown_def head_at_def by metis
  have o: "wf ?s \<and> delivered ?s = delivered s \<and> items ?s = (\<lambda>i. if i \<in> set is then tl (items s i) else items s i)"
    using gather_drop_outcome [OF assms(2), of "is" heads reason] stale_distinct [of heads] st unfolding is_def by blast
  then show "wf ?s" "delivered ?s = delivered s" "\<And>i. suffix (items ?s i) (items s i)" by auto
  obtain j where j: "j \<in> set is" using assms(4) by (cases "is") auto
  then have "j < port_count" "length (items ?s j) < length (items s j)" using st [of j] o by auto
  moreover have "length (items ?s i) \<le> length (items s i)" for i using o by auto
  ultimately show "queued ?s < queued s"
    unfolding queued_def by (intro sum_strict_mono_ex1) auto
qed

lemma gather_unfold:
  assumes "gather_peek closed peek [0..<port_count] s = (r, s1)"
  shows "\<not> (\<exists>cl heads. r = Some (cl, heads) \<and> \<not> list_all id cl) \<Longrightarrow>
      gatherAligned port_count policy peek pop drp closed s = Some (False, s1)"
    and "r = Some (cl, heads) \<Longrightarrow> \<not> list_all id cl \<Longrightarrow> ap_aligned policy heads \<Longrightarrow>
      gatherAligned port_count policy peek pop drp closed s = Some (gather_pop pop cl [0..<port_count] s1)"
    and "r = Some (cl, heads) \<Longrightarrow> \<not> list_all id cl \<Longrightarrow> \<not> ap_aligned policy heads \<Longrightarrow> ap_stale policy heads = [] \<Longrightarrow>
      gatherAligned port_count policy peek pop drp closed s = Some (False, s1)"
    and "r = Some (cl, heads) \<Longrightarrow> \<not> list_all id cl \<Longrightarrow> \<not> ap_aligned policy heads \<Longrightarrow> ap_stale policy heads \<noteq> [] \<Longrightarrow>
      gatherAligned port_count policy peek pop drp closed s =
      gatherAligned port_count policy peek pop drp closed (gather_drop drp (ap_dropReason policy) heads (ap_stale policy heads) s1)"
  by (subst gatherAligned.simps, force simp: assms Let_def split: option.splits)+

lemma gather_outcome:
  "wf s \<Longrightarrow> \<exists>ok s'. gatherAligned port_count policy peek pop drp closed s = Some (ok, s') \<and> gathered s ok s'"
proof (induction "queued s" arbitrary: s rule: less_induct)
  case less
  obtain r s1 where g: "gather_peek closed peek [0..<port_count] s = (r, s1)" by fastforce
  note a = phase_a [OF less.prems g]
  note unfold = gather_unfold [OF g]
  have idle: "gathered s False s1" if "stuck s s1" using a(1-4) that unfolding gathered_def by auto
  show ?case
  proof (cases "\<exists>cl heads. r = Some (cl, heads) \<and> \<not> list_all id cl")
    case False
    have "stuck s s1"
    proof (cases r)
      case None
      then show ?thesis using a(5) unfolding stuck_def by blast
    next
      case (Some p)
      then have "list_all id (map (\<lambda>k. closed k s1) [0..<port_count])" using a(6) [of "fst p" "snd p"] False by (metis prod.collapse)
      then show ?thesis unfolding stuck_def by (auto simp: list_all_length)
    qed
    then show ?thesis using unfold(1) [OF False] idle by blast
  next
    case True
    then obtain cl heads where r: "r = Some (cl, heads)" "\<not> list_all id cl" by blast
    note h = a(6) [OF r(1)]
    consider "ap_aligned policy heads" | "\<not> ap_aligned policy heads" "ap_stale policy heads = []"
      | "\<not> ap_aligned policy heads" "ap_stale policy heads \<noteq> []" by blast
    then show ?thesis
    proof cases
      case 1
      then obtain s' where "gather_pop pop cl [0..<port_count] s1 = (True, s')" "wf s'" "taken s1 heads s'"
        using deliver_aligned [OF a(1) conjunct2 [OF h] _ conjunct1 [OF h] r(2)] by blast
      then show ?thesis using unfold(2) [OF r 1] a(1-4) unfolding gathered_def by auto
    next
      case 2
      then have "stuck s s1" using h unfolding stuck_def by blast
      then show ?thesis using unfold(3) [OF r 2] idle by blast
    next
      case 3
      let ?s2 = "gather_drop drp (ap_dropReason policy) heads (ap_stale policy heads) s1"
      note d = discard_stale [OF a(1) conjunct2 [OF h] 3(2), of "ap_dropReason policy"]
      have "queued s1 \<le> queued s" unfolding queued_def using a(3) by (intro sum_mono) (simp add: suffix_length_le)
      then have "queued ?s2 < queued s" using d(4) by simp
      then obtain ok s' where ih: "gatherAligned port_count policy peek pop drp closed ?s2 = Some (ok, s')" "gathered ?s2 ok s'"
        using less.hyps d(1) by blast
      have "via s1 ?s2" using via_stale [OF a(1) _ _ 3(1)] h unfolding shown_def head_at_def by blast
      then have "gathered s ok s'"
        using gathered_after [OF gathered_after [OF ih(2) a(1) d(1) _ d(3,2)] less.prems a(1,4,3,2)] by blast
      then show ?thesis using ih(1) unfold(4) [OF r 3] by auto
    qed
  qed
qed

end

section \<open>The policies\<close>

lemma foldl_max_guard:
  fixes f :: "'a \<Rightarrow> 'b::linorder" and P :: "'a \<Rightarrow> bool"
  assumes "R = foldl (\<lambda>t x. if P x \<and> f x > t then f x else t) a xs"
  shows "a \<le> R \<and> (\<forall>x\<in>set xs. P x \<longrightarrow> f x \<le> R) \<and> (R = a \<or> (\<exists>x\<in>set xs. P x \<and> f x = R))"
  using assms by (induction xs arbitrary: a) (simp, fastforce)

lemma foldl_min_guard:
  fixes f :: "'a \<Rightarrow> 'b::linorder" and P :: "'a \<Rightarrow> bool"
  assumes "R = foldl (\<lambda>t x. if P x \<and> f x < t then f x else t) a xs"
  shows "R \<le> a \<and> (\<forall>x\<in>set xs. P x \<longrightarrow> R \<le> f x) \<and> (R = a \<or> (\<exists>x\<in>set xs. P x \<and> f x = R))"
  using assms by (induction xs arbitrary: a) (simp, fastforce)

lemma newestId_max:
  "\<forall>h\<in>set heads. headId h \<le> newestId heads" "newestId heads = k_invalid_frame_id \<or> (\<exists>h\<in>set heads. headId h = newestId heads)"
proof -
  have step: "(\<lambda>target head. max target (headId head)) = (\<lambda>t h. if True \<and> headId h > t then headId h else t)"
    by (auto simp: fun_eq_iff max_def)
  show "\<forall>h\<in>set heads. headId h \<le> newestId heads" "newestId heads = k_invalid_frame_id \<or> (\<exists>h\<in>set heads. headId h = newestId heads)"
    using foldl_max_guard [OF newestId_def [unfolded step]] by auto
qed

lemma newest_ts_max:
  "0 \<le> newest_ts heads" "\<forall>h\<in>set heads. has_identity h \<longrightarrow> dp_timestamp (head_packet h) \<le> newest_ts heads"
  "newest_ts heads = 0 \<or> (\<exists>h\<in>set heads. has_identity h \<and> dp_timestamp (head_packet h) = newest_ts heads)"
  using foldl_max_guard [OF newest_ts_def] by auto

lemma head_max_ts_max:
  "\<forall>h\<in>set heads. h \<noteq> None \<longrightarrow> dp_timestamp (head_packet h) \<le> head_max_ts heads"
  "head_max_ts heads = timestamp_min \<or> (\<exists>h\<in>set heads. h \<noteq> None \<and> dp_timestamp (head_packet h) = head_max_ts heads)"
proof -
  have step: "(\<lambda>t head. case head of None \<Rightarrow> t | Some p \<Rightarrow> max t (dp_timestamp p)) =
      (\<lambda>t h. if h \<noteq> None \<and> dp_timestamp (head_packet h) > t then dp_timestamp (head_packet h) else t)"
    by (auto simp: fun_eq_iff max_def head_packet_def split: option.split)
  show "\<forall>h\<in>set heads. h \<noteq> None \<longrightarrow> dp_timestamp (head_packet h) \<le> head_max_ts heads"
    "head_max_ts heads = timestamp_min \<or> (\<exists>h\<in>set heads. h \<noteq> None \<and> dp_timestamp (head_packet h) = head_max_ts heads)"
    using foldl_max_guard [OF head_max_ts_def [unfolded step]] by auto
qed

lemma head_min_ts_min:
  "\<forall>h\<in>set heads. h \<noteq> None \<longrightarrow> head_min_ts heads \<le> dp_timestamp (head_packet h)"
  "head_min_ts heads = timestamp_max \<or> (\<exists>h\<in>set heads. h \<noteq> None \<and> dp_timestamp (head_packet h) = head_min_ts heads)"
proof -
  have step: "(\<lambda>t head. case head of None \<Rightarrow> t | Some p \<Rightarrow> min t (dp_timestamp p)) =
      (\<lambda>t h. if h \<noteq> None \<and> dp_timestamp (head_packet h) < t then dp_timestamp (head_packet h) else t)"
    by (auto simp: fun_eq_iff min_def head_packet_def split: option.split)
  show "\<forall>h\<in>set heads. h \<noteq> None \<longrightarrow> head_min_ts heads \<le> dp_timestamp (head_packet h)"
    "head_min_ts heads = timestamp_max \<or> (\<exists>h\<in>set heads. h \<noteq> None \<and> dp_timestamp (head_packet h) = head_min_ts heads)"
    using foldl_min_guard [OF head_min_ts_def [unfolded step]] by auto
qed

lemma stream_aligned_from_Some:
  "stream_aligned_from (Some k) heads \<longleftrightarrow> (\<forall>h\<in>set heads. has_identity h \<longrightarrow> head_key h = k)"
  by (induction heads) auto

lemma stream_aligned_iff:
  "stream_aligned heads \<longleftrightarrow> (\<forall>h\<in>set heads. \<forall>h'\<in>set heads. has_identity h \<longrightarrow> has_identity h' \<longrightarrow> head_key h = head_key h')"
  unfolding stream_aligned_def by (induction heads) (auto simp: stream_aligned_from_Some)


lemma key_less_order: "\<not> key_less a a" "key_less a b \<Longrightarrow> \<not> key_less c b \<Longrightarrow> \<not> key_less c a"
  by (auto simp: key_less_def)

lemma stream_min_index_range:
  "stream_min_index heads = length heads \<and> (\<forall>i<length heads. \<not> has_identity (heads ! i)) \<or>
   stream_min_index heads < length heads \<and> has_identity (heads ! stream_min_index heads) \<and>
   (\<forall>i<length heads. has_identity (heads ! i) \<longrightarrow> \<not> key_less (head_key (heads ! i)) (head_key (heads ! stream_min_index heads)))"
proof -
  define f where "f = (\<lambda>min_index i. if \<not> has_identity (heads ! i) then min_index
     else if min_index = length heads \<or> key_less (head_key (heads ! i)) (head_key (heads ! min_index)) then i else min_index)"
  have "m \<le> length heads \<Longrightarrow>
      foldl f (length heads) [0..<m] = length heads \<and> (\<forall>i<m. \<not> has_identity (heads ! i)) \<or>
      foldl f (length heads) [0..<m] < length heads \<and> has_identity (heads ! foldl f (length heads) [0..<m]) \<and>
      (\<forall>i<m. has_identity (heads ! i) \<longrightarrow> \<not> key_less (head_key (heads ! i)) (head_key (heads ! foldl f (length heads) [0..<m])))" for m
    by (induction m) (auto simp: f_def less_Suc_eq key_less_order(1) dest: key_less_order(2))
  from this [of "length heads"] show ?thesis by (simp add: stream_min_index_def f_def)
qed

lemma stream_min_index_least:
  assumes "i < length heads" and "has_identity (heads ! i)"
  shows "stream_min_index heads < length heads" and "has_identity (heads ! stream_min_index heads)"
    and "\<not> key_less (head_key (heads ! i)) (head_key (heads ! stream_min_index heads))"
  using stream_min_index_range [of heads] assms by blast+

lemma has_identity_iff: "has_identity h \<longleftrightarrow> headId h \<noteq> k_invalid_frame_id"
  by (auto simp: has_identity_def headId_def hasFrameId_def split: option.split)

lemma has_identity_head: "has_identity h \<Longrightarrow> h \<noteq> None"
  by (auto simp: has_identity_def split: option.splits)

interpretation frame_policy: alignment_policy FrameIdPolicy
  by unfold_locales (auto simp: FrameIdPolicy_def frame_stale_def Let_def simp flip: has_identity_iff dest: has_identity_head)

interpretation stream_policy: alignment_policy StreamFrameIdPolicy
  by unfold_locales (auto simp: StreamFrameIdPolicy_def stream_stale_def Let_def dest: has_identity_head split: if_splits)

interpretation ts_policy: alignment_policy "TimestampPolicy tolerance" for tolerance
  by unfold_locales (auto simp: TimestampPolicy_def ts_stale_def)

text \<open>
  Progress and survival.  Heads that disagree always leave something to discard, and
  never everything: the newest head stays.
\<close>

lemma frame_progress:
  assumes "\<not> frame_aligned heads"
  shows "frame_stale heads \<noteq> []" and "\<exists>i<length heads. heads ! i \<noteq> None \<and> i \<notin> set (frame_stale heads)"
proof -
  obtain h where h: "h \<in> set heads" "headId h \<noteq> k_invalid_frame_id" "headId h \<noteq> newestId heads"
    using assms by (auto simp: frame_aligned_def list_ex_iff Let_def)
  then obtain i where i: "i < length heads" "heads ! i = h" by (auto simp: in_set_conv_nth)
  have "headId h < newestId heads" using newestId_max(1) [of heads] h by fastforce
  then have "i \<in> set (frame_stale heads)" using i h by (auto simp: frame_stale_def Let_def)
  then show "frame_stale heads \<noteq> []" by auto
  have "newestId heads \<noteq> k_invalid_frame_id" using \<open>headId h < newestId heads\<close> by (auto simp: k_invalid_frame_id_def)
  then obtain j where j: "j < length heads" "headId (heads ! j) = newestId heads"
    using newestId_max(2) [of heads] by (auto simp: in_set_conv_nth)
  then have "j \<notin> set (frame_stale heads)" by (auto simp: frame_stale_def Let_def)
  moreover have "heads ! j \<noteq> None" using j(2) \<open>newestId heads \<noteq> k_invalid_frame_id\<close> by (auto simp: headId_def split: option.splits)
  ultimately show "\<exists>i<length heads. heads ! i \<noteq> None \<and> i \<notin> set (frame_stale heads)" using j(1) by blast
qed

lemma stream_progress:
  assumes "\<not> stream_aligned heads" and "\<forall>h\<in>set heads. 0 \<le> dp_timestamp (head_packet h)"
  shows "stream_stale heads \<noteq> []" and "\<exists>i<length heads. heads ! i \<noteq> None \<and> i \<notin> set (stream_stale heads)"
proof -
  obtain i j where ij: "i < length heads" "j < length heads" "has_identity (heads ! i)" "has_identity (heads ! j)"
    "head_key (heads ! i) \<noteq> head_key (heads ! j)"
    using assms(1) by (auto simp: stream_aligned_iff in_set_conv_nth)
  let ?late = "filter (\<lambda>i. has_identity (heads ! i) \<and> dp_timestamp (head_packet (heads ! i)) < newest_ts heads) [0..<length heads]"
  let ?m = "stream_min_index heads"
  have m: "?m < length heads" "has_identity (heads ! ?m)" using stream_min_index_least(1,2) [OF ij(1,3)] .
  have "?late \<noteq> [] \<Longrightarrow> \<exists>k<length heads. has_identity (heads ! k) \<and> k \<notin> set ?late"
  proof -
    assume "?late \<noteq> []"
    then obtain k where "k < length heads" "has_identity (heads ! k)" "dp_timestamp (head_packet (heads ! k)) < newest_ts heads"
      by (auto simp: filter_empty_conv)
    then have "newest_ts heads \<noteq> 0" using assms(2) nth_mem [of k heads] by fastforce
    then obtain h where "h \<in> set heads" "has_identity h" "dp_timestamp (head_packet h) = newest_ts heads"
      using newest_ts_max(3) [of heads] by blast
    then show ?thesis by (auto simp: in_set_conv_nth)
  qed
  moreover have "\<exists>k<length heads. has_identity (heads ! k) \<and> head_key (heads ! k) \<noteq> head_key (heads ! ?m)" using ij by metis
  ultimately show "\<exists>i<length heads. heads ! i \<noteq> None \<and> i \<notin> set (stream_stale heads)"
    using m by (auto simp: stream_stale_def Let_def dest: has_identity_head split: if_splits)
  show "stream_stale heads \<noteq> []" using m by (auto simp: stream_stale_def Let_def filter_empty_conv)
qed

lemma ts_progress:
  assumes "\<not> ts_aligned tolerance heads" and "0 \<le> tolerance"
    and "\<forall>h\<in>set heads. h \<noteq> None \<longrightarrow> timestamp_min < dp_timestamp (head_packet h) \<and> dp_timestamp (head_packet h) < timestamp_max"
  shows "ts_stale tolerance heads \<noteq> []" and "\<exists>i<length heads. heads ! i \<noteq> None \<and> i \<notin> set (ts_stale tolerance heads)"
proof -
  have far: "head_min_ts heads \<le> head_max_ts heads" "head_max_ts heads - head_min_ts heads > tolerance * 1000"
    using assms(1) by (auto simp: ts_aligned_def)
  have "\<exists>h\<in>set heads. h \<noteq> None"
  proof (rule ccontr)
    assume "\<not> (\<exists>h\<in>set heads. h \<noteq> None)"
    then show False using far(1) head_max_ts_max(2) [of heads] head_min_ts_min(2) [of heads]
      by (auto simp: timestamp_min_def timestamp_max_def)
  qed
  then obtain h where h: "h \<in> set heads" "h \<noteq> None" by blast
  have "head_min_ts heads \<noteq> timestamp_max" using h head_min_ts_min(1) [of heads] assms(3) by force
  then obtain i where i: "i < length heads" "heads ! i \<noteq> None" "dp_timestamp (head_packet (heads ! i)) = head_min_ts heads"
    using head_min_ts_min(2) [of heads] by (auto simp: in_set_conv_nth)
  then have "i \<in> set (ts_stale tolerance heads)" using far by (auto simp: ts_stale_def)
  then show "ts_stale tolerance heads \<noteq> []" by auto
  have "head_max_ts heads \<noteq> timestamp_min" using h head_max_ts_max(1) [of heads] assms(3) by force
  then obtain j where "j < length heads" "heads ! j \<noteq> None" "dp_timestamp (head_packet (heads ! j)) = head_max_ts heads"
    using head_max_ts_max(2) [of heads] by (auto simp: in_set_conv_nth)
  then show "\<exists>i<length heads. heads ! i \<noteq> None \<and> i \<notin> set (ts_stale tolerance heads)"
    using assms(2) by (auto simp: ts_stale_def)
qed

section \<open>Properties\<close>

definition discards_some :: "'v heads \<Rightarrow> nat list \<Rightarrow> bool" where
  "discards_some heads stale \<longleftrightarrow> stale \<noteq> [] \<and> (\<exists>i<length heads. heads ! i \<noteq> None \<and> i \<notin> set stale)"

text \<open>
  C17. Every alignment rule makes progress without starving a join: when the heads do not
  belong together, at least one of them is discarded and at least one is kept, for all
  non-negative steady-clock timestamps below the largest one.  So the defensive exit of the
  gather loop is never taken.
\<close>

theorem alignment_progress:
  assumes "0 \<le> tolerance" and "\<forall>h\<in>set heads. 0 \<le> dp_timestamp (head_packet h) \<and> dp_timestamp (head_packet h) < timestamp_max"
  shows "(\<not> frame_aligned heads \<longrightarrow> discards_some heads (frame_stale heads)) \<and>
     (\<not> stream_aligned heads \<longrightarrow> discards_some heads (stream_stale heads)) \<and>
     (\<not> ts_aligned tolerance heads \<longrightarrow> discards_some heads (ts_stale tolerance heads))"
proof -
  have "\<forall>h\<in>set heads. h \<noteq> None \<longrightarrow> timestamp_min < dp_timestamp (head_packet h) \<and> dp_timestamp (head_packet h) < timestamp_max"
    using assms(2) by (force simp: timestamp_min_def)
  then show ?thesis
    using frame_progress [of heads] stream_progress [of heads] ts_progress [OF _ assms(1), of heads] assms(2)
    unfolding discards_some_def by blast
qed

definition demo_head :: "FrameId \<Rightarrow> int \<Rightarrow> nat PortDataPtr" where
  "demo_head i ts = Some \<lparr> dp_id = i, dp_stream_id = 0, dp_timestamp = ts, dp_params = [] \<rparr>"

theorem alignment_progress_witness:
  "discards_some [demo_head 1 5, demo_head 2 7] (frame_stale [demo_head 1 5, demo_head 2 7]) \<and>
   discards_some [demo_head 1 5, demo_head 2 7] (stream_stale [demo_head 1 5, demo_head 2 7]) \<and>
   discards_some [demo_head 1 5, demo_head 2 7] (ts_stale 0 [demo_head 1 5, demo_head 2 7])"
proof -
  let ?h = "[demo_head 1 5, demo_head 2 7]"
  have "\<not> frame_aligned ?h" "\<not> stream_aligned ?h" "\<not> ts_aligned 0 ?h"
    by (simp_all add: demo_head_def frame_aligned_def newestId_def headId_def k_invalid_frame_id_def stream_aligned_def has_identity_def
        hasFrameId_def head_key_def head_packet_def ts_aligned_def head_min_ts_def head_max_ts_def timestamp_max_def timestamp_min_def)
  then show ?thesis
    using alignment_progress [of 0 ?h] by (simp add: demo_head_def head_packet_def timestamp_max_def)
qed










end
