(* ===== verification/Exec_Types.thy ===== *)
theory Exec_Types
  imports Packets "HOL-Library.Log_Nat"
begin

text \<open>
  \<open>include/ai_pipe/execution_types.hpp\<close>: the configuration of the engine, the outcome of a
  push, the latency histogram and the statistics.

  Counters are natural numbers; the times are integers in the unit the source names.  A
  \<open>double\<close> is the rational it stands for, and \<open>rnd53\<close> is the rounding of an exact result to
  53 significant bits, to the nearest and to the even one of two nearest (the quotients here
  stay far from the limits of the exponent).
\<close>

section \<open>Double precision\<close>

definition rat_log2 :: "rat \<Rightarrow> int" where
  "rat_log2 x = (let (n, d) = quotient_of x; k = bitlen n - bitlen d in
     if 2 powi k \<le> x then k else k - 1)"

definition round_half_even :: "rat \<Rightarrow> int" where
  "round_half_even x = (let n = \<lfloor>x\<rfloor>; r = x - of_int n in
     if r < 1 / 2 then n else if r > 1 / 2 then n + 1 else if even n then n else n + 1)"

definition rnd53 :: "rat \<Rightarrow> rat" where
  "rnd53 x = (if x = 0 then 0 else
     (let e = rat_log2 \<bar>x\<bar> - 52 in of_int (round_half_even (x / 2 powi e)) * 2 powi e))"

text \<open>\<open>static_cast<double>\<close> of a count, and the quotient of two counts.\<close>

definition to_double :: "nat \<Rightarrow> rat" where
  "to_double n = rnd53 (of_nat n)"

definition double_quotient :: "nat \<Rightarrow> nat \<Rightarrow> rat" where
  "double_quotient a b = rnd53 (to_double a / to_double b)"

section \<open>Decimal digits\<close>

text \<open>\<open>std::to_string\<close> of an unsigned number.\<close>

fun to_string :: "nat \<Rightarrow> string" where
  "to_string n = (if n < 10 then [char_of (48 + n)] else to_string (n div 10) @ [char_of (48 + n mod 10)])"

declare to_string.simps [simp del]

section \<open>Configuration\<close>

datatype ExecutionMode = BATCH | STREAM

fun executionModeToString :: "ExecutionMode \<Rightarrow> string" where
  "executionModeToString BATCH = ''BATCH''"
| "executionModeToString STREAM = ''STREAM''"

datatype AlignmentPolicy = AlignFrameId | AlignStreamFrameId | AlignTimestamp

fun alignmentPolicyToString :: "AlignmentPolicy \<Rightarrow> string" where
  "alignmentPolicyToString AlignFrameId = ''FrameId''"
| "alignmentPolicyToString AlignStreamFrameId = ''StreamFrameId''"
| "alignmentPolicyToString AlignTimestamp = ''Timestamp''"

datatype JoinTimeoutPolicy = PartialInputs | SkipFrame

fun joinTimeoutPolicyToString :: "JoinTimeoutPolicy \<Rightarrow> string" where
  "joinTimeoutPolicyToString PartialInputs = ''PartialInputs''"
| "joinTimeoutPolicyToString SkipFrame = ''SkipFrame''"

record QueueConfig =
  qc_capacity :: nat
  qc_drop_strategy :: string
  qc_keep_latest_n :: nat
  qc_track_statistics :: bool

definition default_QueueConfig :: QueueConfig where
  "default_QueueConfig = \<lparr> qc_capacity = 0, qc_drop_strategy = ''DropHead'', qc_keep_latest_n = 1, qc_track_statistics = True \<rparr>"

datatype Outcome = Enqueued | DroppedOutcome

record PushStatus =
  ps_outcome :: Outcome
  ps_detail :: string
  ps_queue_size :: nat

definition isDropped :: "PushStatus \<Rightarrow> bool" where
  "isDropped s \<longleftrightarrow> ps_outcome s = DroppedOutcome"

definition enqueued :: "nat \<Rightarrow> PushStatus" where
  "enqueued n = \<lparr> ps_outcome = Enqueued, ps_detail = ''success'', ps_queue_size = n \<rparr>"

definition dropped :: "string \<Rightarrow> nat \<Rightarrow> PushStatus" where
  "dropped reason n = \<lparr> ps_outcome = DroppedOutcome, ps_detail = reason, ps_queue_size = n \<rparr>"

text \<open>The intervals and the timeout are in milliseconds, the tolerance in microseconds.\<close>

record EngineConfig =
  ec_mode :: ExecutionMode
  ec_num_workers :: nat
  ec_default_queue_capacity :: nat
  ec_default_drop_strategy :: string
  ec_enable_sync_coordination :: bool
  ec_allow_partial_inputs :: bool
  ec_min_execution_interval :: int
  ec_alignment_policy :: AlignmentPolicy
  ec_alignment_tolerance :: int
  ec_join_wait_timeout :: int
  ec_join_timeout_policy :: JoinTimeoutPolicy
  ec_enable_statistics :: bool
  ec_enable_drop_logging :: bool

definition default_EngineConfig :: EngineConfig where
  "default_EngineConfig = \<lparr> ec_mode = BATCH, ec_num_workers = 4, ec_default_queue_capacity = 0,
     ec_default_drop_strategy = ''DropHead'', ec_enable_sync_coordination = False, ec_allow_partial_inputs = False,
     ec_min_execution_interval = 0, ec_alignment_policy = AlignFrameId, ec_alignment_tolerance = 33000,
     ec_join_wait_timeout = 0, ec_join_timeout_policy = PartialInputs, ec_enable_statistics = True,
     ec_enable_drop_logging = True \<rparr>"

definition batch_config :: "nat \<Rightarrow> EngineConfig" where
  "batch_config workers = default_EngineConfig \<lparr> ec_mode := BATCH, ec_num_workers := workers,
     ec_default_queue_capacity := 0, ec_enable_sync_coordination := False \<rparr>"

definition stream_config :: "nat \<Rightarrow> nat \<Rightarrow> EngineConfig" where
  "stream_config workers queue_capacity = default_EngineConfig \<lparr> ec_mode := STREAM, ec_num_workers := workers,
     ec_default_queue_capacity := queue_capacity, ec_enable_sync_coordination := True \<rparr>"

section \<open>Latency histogram\<close>

definition k_num_buckets :: nat where
  "k_num_buckets = 16"

definition k_bucket_bounds :: "nat list" where
  "k_bucket_bounds = [10, 25, 50, 100, 250, 500, 1000, 2500, 5000, 10000, 25000, 50000, 100000, 250000, 500000]"

type_synonym LatencyHistogram = "nat list"

definition newHistogram :: LatencyHistogram where
  "newHistogram = replicate k_num_buckets 0"

fun bucket_from :: "nat list \<Rightarrow> nat \<Rightarrow> nat \<Rightarrow> nat" where
  "bucket_from [] i latency_us = k_num_buckets - 1"
| "bucket_from (b # bs) i latency_us = (if latency_us < b then i else bucket_from bs (Suc i) latency_us)"

definition getBucketIndex :: "nat \<Rightarrow> nat" where
  "getBucketIndex latency_us = bucket_from k_bucket_bounds 0 latency_us"

definition histogram_record :: "nat \<Rightarrow> LatencyHistogram \<Rightarrow> LatencyHistogram" where
  "histogram_record latency_us h = h[getBucketIndex latency_us := h ! getBucketIndex latency_us + 1]"

definition histogram_reset :: "LatencyHistogram \<Rightarrow> LatencyHistogram" where
  "histogram_reset h = map (\<lambda>_. 0) h"

definition totalCount :: "LatencyHistogram \<Rightarrow> nat" where
  "totalCount h = foldl (+) 0 h"

definition getBucketLabel :: "nat \<Rightarrow> string" where
  "getBucketLabel index =
     (if index = 0 then ''<10us''
      else if index \<ge> k_num_buckets - 1 then ''>=500ms''
      else let bound = k_bucket_bounds ! index in
        if bound < 1000 then ''<'' @ to_string bound @ ''us''
        else if bound < 1000000 then
          if bound mod 1000 = 0 then ''<'' @ to_string (bound div 1000) @ ''ms''
          else let ms = rnd53 (to_double bound / 1000);
                   result = ''<'' @ to_string (nat \<lfloor>ms\<rfloor>);
                   decimal = nat \<lfloor>rnd53 (rnd53 (ms - of_int \<lfloor>ms\<rfloor>) * 10)\<rfloor>;
                   result = (if decimal > 0 then result @ ''.'' @ to_string decimal else result)
               in result @ ''ms''
        else ''<'' @ to_string (bound div 1000) @ ''ms'')"

section \<open>Statistics of a node\<close>

record NodeStatistics =
  ns_node_name :: string
  ns_execution_count :: nat
  ns_success_count :: nat
  ns_failure_count :: nat
  ns_total_processing_us :: nat
  ns_min_processing_us :: nat
  ns_max_processing_us :: nat
  ns_total_input_count :: nat
  ns_total_output_count :: nat
  ns_current_queue_depth :: nat

definition node_avgProcessingTimeUs :: "NodeStatistics \<Rightarrow> rat" where
  "node_avgProcessingTimeUs s =
     (if ns_success_count s = 0 then 0 else double_quotient (ns_total_processing_us s) (ns_success_count s))"

definition node_successRate :: "NodeStatistics \<Rightarrow> rat" where
  "node_successRate s = (if ns_execution_count s = 0 then 100
     else rnd53 (rnd53 (100 * to_double (ns_success_count s)) / to_double (ns_execution_count s)))"

record AtomicNodeStatistics =
  an_execution_count :: nat
  an_success_count :: nat
  an_failure_count :: nat
  an_total_processing_us :: nat
  an_min_processing_us :: nat
  an_max_processing_us :: nat
  an_total_input_count :: nat
  an_total_output_count :: nat

definition fresh_AtomicNodeStatistics :: AtomicNodeStatistics where
  "fresh_AtomicNodeStatistics = \<lparr> an_execution_count = 0, an_success_count = 0, an_failure_count = 0,
     an_total_processing_us = 0, an_min_processing_us = 2 ^ 64 - 1, an_max_processing_us = 0,
     an_total_input_count = 0, an_total_output_count = 0 \<rparr>"

definition recordIo :: "nat \<Rightarrow> nat \<Rightarrow> AtomicNodeStatistics \<Rightarrow> AtomicNodeStatistics" where
  "recordIo inputs outputs s = s \<lparr> an_total_input_count := an_total_input_count s + inputs,
     an_total_output_count := an_total_output_count s + outputs \<rparr>"

definition recordExecution :: "bool \<Rightarrow> nat \<Rightarrow> AtomicNodeStatistics \<Rightarrow> AtomicNodeStatistics" where
  "recordExecution success processing_us s =
     (let s = s \<lparr> an_execution_count := an_execution_count s + 1 \<rparr>;
          s = (if success then s \<lparr> an_success_count := an_success_count s + 1 \<rparr>
               else s \<lparr> an_failure_count := an_failure_count s + 1 \<rparr>);
          s = s \<lparr> an_total_processing_us := an_total_processing_us s + processing_us \<rparr>;
          s = (if processing_us < an_min_processing_us s then s \<lparr> an_min_processing_us := processing_us \<rparr> else s)
      in if processing_us > an_max_processing_us s then s \<lparr> an_max_processing_us := processing_us \<rparr> else s)"

definition stats_snapshot :: "string \<Rightarrow> AtomicNodeStatistics \<Rightarrow> NodeStatistics" where
  "stats_snapshot name s = \<lparr> ns_node_name = name, ns_execution_count = an_execution_count s,
     ns_success_count = an_success_count s, ns_failure_count = an_failure_count s,
     ns_total_processing_us = an_total_processing_us s, ns_min_processing_us = an_min_processing_us s,
     ns_max_processing_us = an_max_processing_us s, ns_total_input_count = an_total_input_count s,
     ns_total_output_count = an_total_output_count s, ns_current_queue_depth = 0 \<rparr>"

definition stats_reset :: "AtomicNodeStatistics \<Rightarrow> AtomicNodeStatistics" where
  "stats_reset s = s \<lparr> an_execution_count := 0, an_success_count := 0, an_failure_count := 0,
     an_total_processing_us := 0, an_min_processing_us := 2 ^ 64 - 1, an_max_processing_us := 0,
     an_total_input_count := 0, an_total_output_count := 0 \<rparr>"

section \<open>Statistics of the engine\<close>

record EngineStatistics =
  total_executions :: nat
  successful_executions :: nat
  failed_executions :: nat
  total_input_frames :: nat
  total_output_frames :: nat
  total_dropped_frames :: nat
  total_join_timeouts :: nat
  total_queue_pushes :: nat
  total_queue_pops :: nat
  queue_full_events :: nat
  total_processing_time_us :: nat
  total_wait_time_us :: nat
  total_schedule_time_us :: nat
  latency_histogram :: LatencyHistogram
  start_time :: Timestamp

definition zero_EngineStatistics :: "Timestamp \<Rightarrow> EngineStatistics" where
  "zero_EngineStatistics now = \<lparr> total_executions = 0, successful_executions = 0, failed_executions = 0,
     total_input_frames = 0, total_output_frames = 0, total_dropped_frames = 0, total_join_timeouts = 0,
     total_queue_pushes = 0, total_queue_pops = 0, queue_full_events = 0, total_processing_time_us = 0,
     total_wait_time_us = 0, total_schedule_time_us = 0, latency_histogram = newHistogram, start_time = now \<rparr>"

definition statistics_reset :: "Timestamp \<Rightarrow> EngineStatistics \<Rightarrow> EngineStatistics" where
  "statistics_reset now s = s \<lparr> total_executions := 0, successful_executions := 0, failed_executions := 0,
     total_input_frames := 0, total_output_frames := 0, total_dropped_frames := 0, total_join_timeouts := 0,
     total_queue_pushes := 0, total_queue_pops := 0, queue_full_events := 0, total_processing_time_us := 0,
     total_wait_time_us := 0, total_schedule_time_us := 0,
     latency_histogram := histogram_reset (latency_histogram s), start_time := now \<rparr>"

definition recordLatency :: "nat \<Rightarrow> EngineStatistics \<Rightarrow> EngineStatistics" where
  "recordLatency latency_us s = s \<lparr> latency_histogram := histogram_record latency_us (latency_histogram s) \<rparr>"

definition successRate :: "EngineStatistics \<Rightarrow> rat" where
  "successRate s = (if total_executions s = 0 then 100
     else rnd53 (rnd53 (100 * to_double (successful_executions s)) / to_double (total_executions s)))"

definition dropRate :: "EngineStatistics \<Rightarrow> rat" where
  "dropRate s = (let total = total_output_frames s + total_dropped_frames s in
     if total = 0 then 0
     else rnd53 (rnd53 (100 * to_double (total_dropped_frames s)) / to_double total))"

text \<open>The clock counts nanoseconds; the elapsed time is cut to whole seconds.\<close>

definition throughput :: "Timestamp \<Rightarrow> EngineStatistics \<Rightarrow> rat" where
  "throughput now s = (let seconds = nat ((now - start_time s) div 1000000000) in
     if seconds = 0 then 0 else double_quotient (total_output_frames s) seconds)"

definition inputOutputRatio :: "EngineStatistics \<Rightarrow> rat" where
  "inputOutputRatio s =
     (if total_output_frames s = 0 then 0 else double_quotient (total_input_frames s) (total_output_frames s))"

definition avgProcessingTimeUs :: "EngineStatistics \<Rightarrow> rat" where
  "avgProcessingTimeUs s = (if successful_executions s = 0 then 0
     else double_quotient (total_processing_time_us s) (successful_executions s))"

definition avgWaitTimeUs :: "EngineStatistics \<Rightarrow> rat" where
  "avgWaitTimeUs s =
     (if total_queue_pops s = 0 then 0 else double_quotient (total_wait_time_us s) (total_queue_pops s))"

definition avgScheduleTimeUs :: "EngineStatistics \<Rightarrow> rat" where
  "avgScheduleTimeUs s =
     (if total_executions s = 0 then 0 else double_quotient (total_schedule_time_us s) (total_executions s))"

text \<open>
  The snapshot copies the counters and fixes the rates; its \<open>node_stats\<close> are filled by the
  engine.  \<open>sn_counters\<close> holds the copied counters, the buckets and the start time.
\<close>

record EngineStatisticsSnapshot =
  sn_counters :: EngineStatistics
  sn_success_rate :: rat
  sn_drop_rate :: rat
  sn_throughput :: rat
  sn_snapshot_time :: Timestamp
  sn_node_stats :: "NodeStatistics list"

definition take_snapshot :: "Timestamp \<Rightarrow> EngineStatistics \<Rightarrow> EngineStatisticsSnapshot" where
  "take_snapshot now s = \<lparr> sn_counters = s, sn_success_rate = successRate s, sn_drop_rate = dropRate s,
     sn_throughput = throughput now s, sn_snapshot_time = now, sn_node_stats = [] \<rparr>"

definition percentile_target :: "nat \<Rightarrow> rat \<Rightarrow> nat" where
  "percentile_target n percentile = nat \<lfloor>rnd53 (rnd53 (to_double n * percentile) / 100)\<rfloor>"

fun percentile_from :: "nat \<Rightarrow> nat \<Rightarrow> nat \<Rightarrow> nat list \<Rightarrow> nat" where
  "percentile_from target cumulative i [] = 500000"
| "percentile_from target cumulative i (count # rest) =
     (let cumulative = cumulative + count in
      if cumulative \<ge> target
      then if i < length k_bucket_bounds then k_bucket_bounds ! i else 500000
      else percentile_from target cumulative (Suc i) rest)"

definition get_percentile :: "LatencyHistogram \<Rightarrow> rat \<Rightarrow> nat" where
  "get_percentile buckets percentile =
     percentile_from (percentile_target (totalCount buckets) percentile) 0 0 buckets"

definition latencyPercentiles :: "EngineStatisticsSnapshot \<Rightarrow> (string \<times> nat) list" where
  "latencyPercentiles s = (let buckets = latency_histogram (sn_counters s) in
     if totalCount buckets = 0
     then [(''p50'', 0), (''p90'', 0), (''p95'', 0), (''p99'', 0), (''p99.9'', 0)]
     else [(''p50'', get_percentile buckets 50), (''p90'', get_percentile buckets 90),
           (''p95'', get_percentile buckets 95), (''p99'', get_percentile buckets 99),
           (''p99.9'', get_percentile buckets (rnd53 (999 / 10)))])"

definition histogramData :: "EngineStatisticsSnapshot \<Rightarrow> (string \<times> nat) list" where
  "histogramData s = map (\<lambda>i. (getBucketLabel i, latency_histogram (sn_counters s) ! i)) [0..<k_num_buckets]"

section \<open>Lemmas\<close>

lemma length_bounds [simp]: "length k_bucket_bounds = 15"
  by (simp add: k_bucket_bounds_def)

lemma bounds_sorted: "sorted_wrt (<) k_bucket_bounds"
  by (simp add: k_bucket_bounds_def)

lemma bounds_last: "k_bucket_bounds ! 14 = 500000"
  by (simp add: k_bucket_bounds_def)

text \<open>The bucket of a latency is the number of bounds at or below it.\<close>

lemma bucket_from_count:
  assumes "sorted_wrt (<) bs" and "i + length bs = k_num_buckets - 1"
  shows "bucket_from bs i l = i + length (filter (\<lambda>b. b \<le> l) bs)"
  using assms
proof (induction bs arbitrary: i)
  case (Cons b bs)
  have "filter (\<lambda>c. c \<le> l) bs = []" if "l < b" using that Cons.prems(1) by (auto simp: filter_empty_conv)
  then show ?case using Cons by auto
qed simp

lemma getBucketIndex_count: "getBucketIndex l = length (filter (\<lambda>b. b \<le> l) k_bucket_bounds)"
  unfolding getBucketIndex_def using bucket_from_count [OF bounds_sorted, of 0 l] by (simp add: k_num_buckets_def)

lemma filter_sorted_prefix:
  "sorted_wrt (<) bs \<Longrightarrow> i < length bs \<Longrightarrow> length (filter (\<lambda>b. b \<le> l) bs) \<le> i \<longleftrightarrow> l < bs ! i" for bs :: "nat list"
proof (induction bs arbitrary: i)
  case (Cons b bs)
  have empty: "filter (\<lambda>c. c \<le> l) bs = []" if "l < b" using that Cons.prems(1) by (auto simp: filter_empty_conv)
  show ?case
  proof (cases i)
    case 0
    then show ?thesis using empty by auto
  next
    case (Suc j)
    then have j: "j < length bs" "b < bs ! j" using Cons.prems by auto
    show ?thesis
    proof (cases "b \<le> l")
      case True
      then show ?thesis using Cons.IH [OF _ j(1)] Cons.prems(1) Suc by simp
    next
      case False
      then have "filter (\<lambda>c. c \<le> l) bs = []" "l < bs ! j" using empty j(2) by simp_all
      then show ?thesis using False Suc by simp
    qed
  qed
qed simp

lemma getBucketIndex_le: "i < 15 \<Longrightarrow> getBucketIndex l \<le> i \<longleftrightarrow> l < k_bucket_bounds ! i"
  unfolding getBucketIndex_count using filter_sorted_prefix [OF bounds_sorted] by simp

lemma getBucketIndex_bound: "getBucketIndex l < k_num_buckets"
  using length_filter_le [of "\<lambda>b. b \<le> l" k_bucket_bounds] by (simp add: getBucketIndex_count k_num_buckets_def)

definition histogram_of :: "nat list \<Rightarrow> LatencyHistogram" where
  "histogram_of ls = foldl (\<lambda>h l. histogram_record l h) newHistogram ls"

lemma histogram_of_value: "histogram_of ls = map (\<lambda>i. length (filter (\<lambda>l. getBucketIndex l = i) ls)) [0..<k_num_buckets]"
proof (induction ls rule: rev_induct)
  case Nil
  show ?case by (simp add: histogram_of_def newHistogram_def map_replicate_const)
next
  case (snoc l ls)
  have "histogram_of (ls @ [l]) = histogram_record l (histogram_of ls)" by (simp add: histogram_of_def)
  also have "\<dots> = map (\<lambda>i. length (filter (\<lambda>l. getBucketIndex l = i) (ls @ [l]))) [0..<k_num_buckets]"
    unfolding snoc histogram_record_def using getBucketIndex_bound [of l]
    by (auto intro!: nth_equalityI simp: nth_list_update)
  finally show ?case .
qed

lemma sum_upto_buckets:
  "i < 15 \<Longrightarrow> sum_list (take (Suc i) (histogram_of ls)) = length (filter (\<lambda>l. l < k_bucket_bounds ! i) ls)"
proof -
  assume i: "i < 15"
  have "sum_list (map (\<lambda>j. length (filter (\<lambda>l. getBucketIndex l = j) ls)) [0..<n]) = length (filter (\<lambda>l. getBucketIndex l < n) ls)" for n
  proof (induction n)
    case (Suc n)
    have "length (filter (\<lambda>l. getBucketIndex l < Suc n) ls) =
        length (filter (\<lambda>l. getBucketIndex l < n) ls) + length (filter (\<lambda>l. getBucketIndex l = n) ls)"
      by (induction ls) (auto simp: less_Suc_eq)
    then show ?case using Suc by simp
  qed simp
  moreover have "take (Suc i) [0..<k_num_buckets] = [0..<Suc i]" using i by (simp add: k_num_buckets_def take_upt)
  ultimately have "sum_list (take (Suc i) (histogram_of ls)) = length (filter (\<lambda>l. getBucketIndex l < Suc i) ls)"
    unfolding histogram_of_value take_map by metis
  then show ?thesis by (simp add: less_Suc_eq_le getBucketIndex_le [OF i])
qed

lemma totalCount_sum: "totalCount h = sum_list h"
proof -
  have "foldl (+) a h = a + sum_list h" for a by (induction h arbitrary: a) (simp_all add: add.assoc)
  then show ?thesis by (simp add: totalCount_def)
qed

text \<open>The scan stops at the first bucket whose running count reaches the target.\<close>

lemma percentile_from_stops:
  assumes "j < length h" and "target \<le> cumulative + sum_list (take (Suc j) h)"
    and "\<forall>k<j. cumulative + sum_list (take (Suc k) h) < target"
  shows "percentile_from target cumulative i h = (if i + j < 15 then k_bucket_bounds ! (i + j) else 500000)"
  using assms
proof (induction h arbitrary: cumulative i j)
  case (Cons c h)
  show ?case
  proof (cases j)
    case 0
    then show ?thesis using Cons.prems by simp
  next
    case (Suc m)
    have less: "\<forall>k<m. (cumulative + c) + sum_list (take (Suc k) h) < target"
    proof (intro allI impI)
      fix k assume "k < m"
      then show "(cumulative + c) + sum_list (take (Suc k) h) < target"
        using Cons.prems(3) [rule_format, of "Suc k"] Suc by simp
    qed
    have "cumulative + c < target" using Cons.prems(3) [rule_format, of 0] Suc by simp
    then show ?thesis
      using Cons.IH [of m "cumulative + c" "Suc i"] Cons.prems(1,2) less Suc by (simp add: add.assoc)
  qed
qed simp

lemma percentile_from_never:
  assumes "\<forall>k<length h. cumulative + sum_list (take (Suc k) h) < target"
  shows "percentile_from target cumulative i h = 500000"
  using assms
proof (induction h arbitrary: cumulative i)
  case (Cons c h)
  have "\<forall>k<length h. (cumulative + c) + sum_list (take (Suc k) h) < target"
  proof (intro allI impI)
    fix k assume "k < length h"
    then show "(cumulative + c) + sum_list (take (Suc k) h) < target"
      using Cons.prems [rule_format, of "Suc k"] by simp
  qed
  moreover have "cumulative + c < target" using Cons.prems [rule_format, of 0] by simp
  ultimately show ?case using Cons.IH by simp
qed simp

lemma histogram_of_length [simp]: "length (histogram_of ls) = 16"
  by (simp add: histogram_of_value k_num_buckets_def)

lemma sum_histogram: "sum_list (histogram_of ls) = length ls"
proof -
  have "sum_list (h[i := h ! i + 1]) = sum_list h + 1" if "i < length h" for i and h :: "nat list"
    using that by (induction h arbitrary: i) (auto simp: nth_Cons' split: nat.split)
  then have "sum_list (histogram_record l h) = sum_list h + 1" if "length h = 16" for l h
    using that getBucketIndex_bound [of l] by (simp add: histogram_record_def k_num_buckets_def)
  then show ?thesis
  proof (induction ls rule: rev_induct)
    case (snoc l ls)
    then show ?case using histogram_of_length [of ls] by (simp add: histogram_of_def)
  qed (simp add: histogram_of_def newHistogram_def k_num_buckets_def sum_list_replicate)
qed

section \<open>Properties\<close>

text \<open>
  C22. The latency percentiles are those of the recorded latencies: after any sequence of
  recordings, the histogram holds every latency once, and the reported percentile is the
  least bucket bound below which at least the target number of the latencies lie, or 500000
  microseconds when no bound has that many below it.
\<close>

theorem latency_percentile:
  "get_percentile (histogram_of ls) p =
     (case find (\<lambda>b. percentile_target (length ls) p \<le> length (filter (\<lambda>l. l < b) ls)) k_bucket_bounds of
        Some b \<Rightarrow> b | None \<Rightarrow> 500000) \<and>
   totalCount (histogram_of ls) = length ls"
proof -
  let ?t = "percentile_target (length ls) p" and ?h = "histogram_of ls"
  let ?P = "\<lambda>b. ?t \<le> length (filter (\<lambda>l. l < b) ls)"
  have total: "totalCount ?h = length ls" by (simp add: totalCount_sum sum_histogram)
  have below: "sum_list (take (Suc k) ?h) < ?t" if "k < 15" "\<not> ?P (k_bucket_bounds ! k)" for k
    using that sum_upto_buckets [of k ls] by simp
  have "percentile_from ?t 0 0 ?h = (case find ?P k_bucket_bounds of Some b \<Rightarrow> b | None \<Rightarrow> 500000)"
  proof (cases "find ?P k_bucket_bounds")
    case (Some b)
    then obtain i where i: "i < 15" "?P (k_bucket_bounds ! i)" "b = k_bucket_bounds ! i" "\<forall>j<i. \<not> ?P (k_bucket_bounds ! j)"
      unfolding find_Some_iff by auto
    have "percentile_from ?t 0 0 ?h = (if 0 + i < 15 then k_bucket_bounds ! (0 + i) else 500000)"
      using i below sum_upto_buckets [OF i(1), of ls] by (intro percentile_from_stops) auto
    then show ?thesis using Some i by simp
  next
    case None
    then have less: "\<forall>k<15. sum_list (take (Suc k) ?h) < ?t"
      using below unfolding find_None_iff by (metis length_bounds nth_mem)
    have "percentile_from ?t 0 0 ?h = 500000"
    proof (cases "?t \<le> sum_list (take (Suc 15) ?h)")
      case True
      then show ?thesis using percentile_from_stops [of 15 ?h ?t 0 0] less by simp
    next
      case False
      then have "\<forall>k<length ?h. 0 + sum_list (take (Suc k) ?h) < ?t" using less by (auto simp: less_Suc_eq numeral_eq_Suc)
      then show ?thesis by (rule percentile_from_never)
    qed
    then show ?thesis using None by simp
  qed
  then show ?thesis using total by (simp add: get_percentile_def)
qed

end
