(* ===== verification/Schedulers.thy ===== *)
theory Schedulers
  imports Exec_Types
begin

text \<open>
  \<open>include/ai_pipe/i_scheduler_strategy.hpp\<close>, \<open>include/ai_pipe/strategies.hpp\<close>,
  \<open>src/scheduler_strategies.hpp\<close> and \<open>src/strategies.cpp\<close>: when a node runs and when a run is
  complete.

  The interface is the datatype of its two implementations, each operation dispatching on it.
  The current time, in nanoseconds, is an argument.
\<close>

section \<open>Decisions\<close>

datatype ScheduleDecision = ScheduleNow | WaitForInputs | SkipExecution | DeferToNextCycle

record SchedulingContext =
  sc_node :: ptr
  sc_expected_input_count :: nat
  sc_ready_input_count :: nat
  sc_ready_port_mask :: "64 word"
  sc_pending_predecessor_count :: nat
  sc_is_source_node :: bool
  sc_is_sink_node :: bool
  sc_has_initial_input :: bool
  sc_last_execution_time :: Timestamp
  sc_execution_count :: nat

definition allInputsReady :: "SchedulingContext \<Rightarrow> bool" where
  "allInputsReady c \<longleftrightarrow> sc_ready_input_count c \<ge> sc_expected_input_count c"

definition hasReadyInput :: "SchedulingContext \<Rightarrow> bool" where
  "hasReadyInput c \<longleftrightarrow> sc_ready_input_count c > 0"

definition inputReadinessRatio :: "SchedulingContext \<Rightarrow> rat" where
  "inputReadinessRatio c = (if sc_expected_input_count c = 0 then 1
     else double_quotient (sc_ready_input_count c) (sc_expected_input_count c))"

text \<open>The delay is in milliseconds.\<close>

record ScheduleResult =
  sr_decision :: ScheduleDecision
  sr_retry_delay :: "int option"
  sr_reason :: string

definition scheduleNow :: "string \<Rightarrow> ScheduleResult" where
  "scheduleNow reason = \<lparr> sr_decision = ScheduleNow, sr_retry_delay = None, sr_reason = reason \<rparr>"

definition waitForInputs :: "string \<Rightarrow> ScheduleResult" where
  "waitForInputs reason = \<lparr> sr_decision = WaitForInputs, sr_retry_delay = None, sr_reason = reason \<rparr>"

definition skip_result :: "string \<Rightarrow> ScheduleResult" where
  "skip_result reason = \<lparr> sr_decision = SkipExecution, sr_retry_delay = None, sr_reason = reason \<rparr>"

definition defer_result :: "int \<Rightarrow> string \<Rightarrow> ScheduleResult" where
  "defer_result delay reason = \<lparr> sr_decision = DeferToNextCycle, sr_retry_delay = Some delay, sr_reason = reason \<rparr>"

datatype CompletionSemantics = SinglePass | Continuous | ConditionBased | TimeoutBased

record CompletionStatus =
  cs_is_complete :: bool
  cs_reason :: string
  cs_time_to_completion :: "int option"

record SinkExecutionCount =
  sk_name :: string
  sk_executions :: nat

section \<open>Batch scheduler\<close>

definition batch_shouldSchedule :: "SchedulingContext \<Rightarrow> ScheduleResult" where
  "batch_shouldSchedule context =
     (if sc_is_source_node context \<and> sc_has_initial_input context then scheduleNow ''source node with initial input''
      else if sc_is_source_node context \<and> sc_expected_input_count context = 0
        then scheduleNow ''source node with no expected inputs''
      else if allInputsReady context then scheduleNow ''all inputs ready''
      else waitForInputs (''waiting for '' @ to_string (sc_expected_input_count context - sc_ready_input_count context)
        @ '' more inputs''))"

definition batch_onNodeComplete :: "bool \<Rightarrow> bool" where
  "batch_onNodeComplete success = False"

fun first_idle_sink :: "SinkExecutionCount list \<Rightarrow> SinkExecutionCount option" where
  "first_idle_sink [] = None"
| "first_idle_sink (sink # rest) = (if sk_executions sink = 0 then Some sink else first_idle_sink rest)"

definition batch_checkCompletion :: "nat \<Rightarrow> nat \<Rightarrow> SinkExecutionCount list \<Rightarrow> CompletionStatus" where
  "batch_checkCompletion active_node_count pending_node_count sinks =
     (if active_node_count > 0
      then \<lparr> cs_is_complete = False, cs_reason = ''active tasks remaining'', cs_time_to_completion = None \<rparr>
      else case first_idle_sink sinks of
        Some sink \<Rightarrow> \<lparr> cs_is_complete = False,
            cs_reason = ''sink '' @ [CHR 0x27] @ sk_name sink @ [CHR 0x27] @ '' has not executed'', cs_time_to_completion = None \<rparr>
      | None \<Rightarrow> \<lparr> cs_is_complete = True, cs_reason = ''all sinks executed'', cs_time_to_completion = None \<rparr>)"

section \<open>Stream scheduler\<close>

text \<open>The interval is in milliseconds.\<close>

record StreamSchedulerConfig =
  ss_allow_partial_inputs :: bool
  ss_min_input_ratio :: rat
  ss_auto_reschedule :: bool
  ss_min_interval :: int

definition default_StreamSchedulerConfig :: StreamSchedulerConfig where
  "default_StreamSchedulerConfig = \<lparr> ss_allow_partial_inputs = False, ss_min_input_ratio = 0,
     ss_auto_reschedule = True, ss_min_interval = 0 \<rparr>"

definition hasReadyWork :: "StreamSchedulerConfig \<Rightarrow> SchedulingContext \<Rightarrow> bool" where
  "hasReadyWork config context \<longleftrightarrow>
     (if sc_is_source_node context \<and> sc_has_initial_input context then True
      else if ss_allow_partial_inputs config
        then hasReadyInput context \<and> inputReadinessRatio context \<ge> ss_min_input_ratio config
      else allInputsReady context)"

text \<open>\<open>duration_cast\<close> to a coarser unit drops the fraction.\<close>

definition duration_cast :: "int \<Rightarrow> int \<Rightarrow> int" where
  "duration_cast unit d = sgn d * (\<bar>d\<bar> div unit)"

definition stream_shouldSchedule :: "StreamSchedulerConfig \<Rightarrow> Timestamp \<Rightarrow> SchedulingContext \<Rightarrow> ScheduleResult" where
  "stream_shouldSchedule config now context =
     (let elapsed = now - sc_last_execution_time context in
      if ss_min_interval config > 0 \<and> sc_execution_count context > 0 \<and> hasReadyWork config context \<and>
         elapsed < ss_min_interval config * 1000000
      then defer_result (max (ss_min_interval config - duration_cast 1000000 elapsed) 1) ''rate limited''
      else if sc_is_source_node context \<and> sc_has_initial_input context
        then scheduleNow ''source node with input ready''
      else if ss_allow_partial_inputs config
        then if inputReadinessRatio context \<ge> ss_min_input_ratio config \<and> hasReadyInput context
          then scheduleNow ''partial inputs ready''
          else waitForInputs ''waiting for inputs in stream mode''
      else if allInputsReady context then scheduleNow ''all inputs ready''
      else waitForInputs ''waiting for inputs in stream mode'')"

definition stream_onNodeComplete :: "StreamSchedulerConfig \<Rightarrow> bool \<Rightarrow> bool" where
  "stream_onNodeComplete config success \<longleftrightarrow> success \<and> ss_auto_reschedule config"

definition stream_checkCompletion :: "nat \<Rightarrow> nat \<Rightarrow> SinkExecutionCount list \<Rightarrow> CompletionStatus" where
  "stream_checkCompletion active_node_count pending_node_count sinks =
     \<lparr> cs_is_complete = False, cs_reason = ''streaming mode - continuous execution'', cs_time_to_completion = None \<rparr>"

section \<open>The interface\<close>

datatype ISchedulerStrategy = BatchSchedulerStrategy | StreamSchedulerStrategy StreamSchedulerConfig

fun shouldSchedule :: "ISchedulerStrategy \<Rightarrow> Timestamp \<Rightarrow> SchedulingContext \<Rightarrow> ScheduleResult" where
  "shouldSchedule BatchSchedulerStrategy now context = batch_shouldSchedule context"
| "shouldSchedule (StreamSchedulerStrategy config) now context = stream_shouldSchedule config now context"

fun onNodeComplete :: "ISchedulerStrategy \<Rightarrow> bool \<Rightarrow> bool" where
  "onNodeComplete BatchSchedulerStrategy success = batch_onNodeComplete success"
| "onNodeComplete (StreamSchedulerStrategy config) success = stream_onNodeComplete config success"

fun checkCompletion :: "ISchedulerStrategy \<Rightarrow> nat \<Rightarrow> nat \<Rightarrow> SinkExecutionCount list \<Rightarrow> CompletionStatus" where
  "checkCompletion BatchSchedulerStrategy = batch_checkCompletion"
| "checkCompletion (StreamSchedulerStrategy config) = stream_checkCompletion"

fun completionSemantics :: "ISchedulerStrategy \<Rightarrow> CompletionSemantics" where
  "completionSemantics BatchSchedulerStrategy = SinglePass"
| "completionSemantics (StreamSchedulerStrategy config) = Continuous"

fun supportsStreaming :: "ISchedulerStrategy \<Rightarrow> bool" where
  "supportsStreaming BatchSchedulerStrategy = False"
| "supportsStreaming (StreamSchedulerStrategy config) = True"

fun strategy_name :: "ISchedulerStrategy \<Rightarrow> string" where
  "strategy_name BatchSchedulerStrategy = ''BatchSchedulerStrategy''"
| "strategy_name (StreamSchedulerStrategy config) = ''StreamSchedulerStrategy''"

fun createSchedulerStrategy :: "ExecutionMode \<Rightarrow> StreamSchedulerConfig \<Rightarrow> ISchedulerStrategy" where
  "createSchedulerStrategy BATCH config = BatchSchedulerStrategy"
| "createSchedulerStrategy STREAM config = StreamSchedulerStrategy config"

section \<open>Lemmas\<close>

lemmas schedule_results = scheduleNow_def waitForInputs_def defer_result_def

lemma first_idle_sink_None: "first_idle_sink sinks = None \<longleftrightarrow> (\<forall>s\<in>set sinks. sk_executions s \<noteq> 0)"
  by (induction sinks) auto

lemma batch_complete_iff:
  "cs_is_complete (batch_checkCompletion active pending sinks) \<longleftrightarrow> active = 0 \<and> (\<forall>s\<in>set sinks. sk_executions s \<noteq> 0)"
  unfolding first_idle_sink_None [symmetric] by (auto simp: batch_checkCompletion_def split: option.splits)

text \<open>Is the node held back by the rate limit?\<close>

definition rate_limited :: "StreamSchedulerConfig \<Rightarrow> Timestamp \<Rightarrow> SchedulingContext \<Rightarrow> bool" where
  "rate_limited config now context \<longleftrightarrow> ss_min_interval config > 0 \<and> sc_execution_count context > 0 \<and>
     now - sc_last_execution_time context < ss_min_interval config * 1000000"

lemma stream_decision:
  "sr_decision (stream_shouldSchedule config now context) =
     (if \<not> hasReadyWork config context then WaitForInputs
      else if rate_limited config now context then DeferToNextCycle else ScheduleNow)"
  by (auto simp: stream_shouldSchedule_def schedule_results hasReadyWork_def rate_limited_def Let_def)

section \<open>Properties\<close>

text \<open>
  C23. The stream scheduler is live: it runs a node exactly when the node has the inputs it
  needs and its minimum interval has passed.  When the interval has not passed it defers by a
  positive delay, and the evaluation at the end of that delay runs the node, so no ready
  node waits longer than its interval.
\<close>

theorem stream_schedule_live:
  assumes "sc_last_execution_time context \<le> now"
  shows "(sr_decision (stream_shouldSchedule config now context) = ScheduleNow \<longleftrightarrow>
      hasReadyWork config context \<and> \<not> rate_limited config now context) \<and>
    (sr_decision (stream_shouldSchedule config now context) = DeferToNextCycle \<longrightarrow>
      (\<exists>delay. sr_retry_delay (stream_shouldSchedule config now context) = Some delay \<and> 1 \<le> delay \<and>
         delay \<le> ss_min_interval config \<and>
         sr_decision (stream_shouldSchedule config (now + delay * 1000000) context) = ScheduleNow))"
proof -
  let ?elapsed = "now - sc_last_execution_time context" and ?i = "ss_min_interval config"
  have "\<exists>delay. sr_retry_delay (stream_shouldSchedule config now context) = Some delay \<and> 1 \<le> delay \<and> delay \<le> ?i \<and>
      sr_decision (stream_shouldSchedule config (now + delay * 1000000) context) = ScheduleNow"
    if limited: "rate_limited config now context" and work: "hasReadyWork config context"
  proof (intro exI conjI)
    let ?delay = "max (?i - duration_cast 1000000 ?elapsed) 1"
    have pos: "0 \<le> duration_cast 1000000 ?elapsed" using assms by (cases "?elapsed = 0") (simp_all add: duration_cast_def)
    have i: "0 < ?i" using limited by (simp add: rate_limited_def)
    show "sr_retry_delay (stream_shouldSchedule config now context) = Some ?delay"
      using limited work by (simp add: stream_shouldSchedule_def rate_limited_def schedule_results Let_def)
    show "1 \<le> ?delay" by simp
    show "?delay \<le> ?i" using pos i by simp
    have "?i * 1000000 \<le> ?elapsed + ?delay * 1000000"
    proof -
      have "duration_cast 1000000 ?elapsed * 1000000 \<le> ?elapsed"
        using assms by (cases "?elapsed = 0") (simp_all add: duration_cast_def)
      then show ?thesis by (simp add: max_def algebra_simps)
    qed
    then have "\<not> rate_limited config (now + ?delay * 1000000) context" by (simp add: rate_limited_def)
    then show "sr_decision (stream_shouldSchedule config (now + ?delay * 1000000) context) = ScheduleNow"
      using work by (simp add: stream_decision)
  qed
  then show ?thesis by (simp add: stream_decision)
qed

definition demo_context :: SchedulingContext where
  "demo_context = \<lparr> sc_node = 0, sc_expected_input_count = 1, sc_ready_input_count = 1, sc_ready_port_mask = 1,
     sc_pending_predecessor_count = 0, sc_is_source_node = True, sc_is_sink_node = False, sc_has_initial_input = True,
     sc_last_execution_time = 0, sc_execution_count = 1 \<rparr>"

theorem stream_schedule_live_witness:
  "\<exists>delay. sr_retry_delay (stream_shouldSchedule (default_StreamSchedulerConfig \<lparr> ss_min_interval := 10 \<rparr>) 3000000 demo_context) = Some delay \<and>
     sr_decision (stream_shouldSchedule (default_StreamSchedulerConfig \<lparr> ss_min_interval := 10 \<rparr>) (3000000 + delay * 1000000) demo_context) = ScheduleNow"
proof -
  let ?c = "default_StreamSchedulerConfig \<lparr> ss_min_interval := 10 \<rparr>"
  have "sr_decision (stream_shouldSchedule ?c 3000000 demo_context) = DeferToNextCycle"
    by (simp add: stream_decision hasReadyWork_def rate_limited_def demo_context_def)
  moreover have "sc_last_execution_time demo_context \<le> 3000000" by (simp add: demo_context_def)
  ultimately show ?thesis using stream_schedule_live [of demo_context 3000000 ?c] by blast
qed

end
