(* ===== verification/Sync_Groups.thy ===== *)
theory Sync_Groups
  imports Packets
begin

text \<open>
  \<open>src/sync_coordinator.hpp\<close>: groups of parallel branches whose drops are coordinated.

  The classes take their lock for the length of every operation, so an operation is
  one step.  The unordered maps are association lists whose order is arbitrary, the
  unordered sets lists without repetition.  The coordinator's drop callback is the log
  \<open>co_notified\<close> of the calls made to it.
\<close>

section \<open>Branches and groups\<close>

type_synonym SyncGroupId = string
type_synonym BranchId = string

record BranchState =
  bs_branch_id :: BranchId
  latest_frame :: FrameId
  processed_frame :: FrameId
  dropped_frames :: "FrameId list"
  pending_sync_drops :: "FrameId list"
  bs_active :: bool

record SyncGroup =
  sg_groupId :: SyncGroupId
  sg_branches :: "(BranchId \<times> BranchState) list"
  sg_globalDrops :: "FrameId list"
  sg_dropReasons :: "FrameId \<Rightarrow> string option"
  sg_watermark :: FrameId

definition newBranch :: "BranchId \<Rightarrow> BranchState" where
  "newBranch b = \<lparr> bs_branch_id = b, latest_frame = k_invalid_frame_id, processed_frame = k_invalid_frame_id,
     dropped_frames = [], pending_sync_drops = [], bs_active = True \<rparr>"

definition newSyncGroup :: "SyncGroupId \<Rightarrow> SyncGroup" where
  "newSyncGroup g = \<lparr> sg_groupId = g, sg_branches = [], sg_globalDrops = [], sg_dropReasons = Map.empty,
     sg_watermark = k_invalid_frame_id \<rparr>"

text \<open>Update of the state of one branch.\<close>

definition on_branch :: "BranchId \<Rightarrow> (BranchState \<Rightarrow> BranchState) \<Rightarrow> SyncGroup \<Rightarrow> SyncGroup" where
  "on_branch b f g = g \<lparr> sg_branches := map (\<lambda>(i, s). if i = b then (i, f s) else (i, s)) (sg_branches g) \<rparr>"

definition hasBranch :: "BranchId \<Rightarrow> SyncGroup \<Rightarrow> bool" where
  "hasBranch b g \<longleftrightarrow> map_of (sg_branches g) b \<noteq> None"

definition sg_addBranch :: "BranchId \<Rightarrow> SyncGroup \<Rightarrow> SyncGroup" where
  "sg_addBranch b g = (if hasBranch b g then g else g \<lparr> sg_branches := sg_branches g @ [(b, newBranch b)] \<rparr>)"

definition sg_removeBranch :: "BranchId \<Rightarrow> SyncGroup \<Rightarrow> SyncGroup" where
  "sg_removeBranch b g = g \<lparr> sg_branches := filter (\<lambda>(i, s). i \<noteq> b) (sg_branches g) \<rparr>"

definition branchIds :: "SyncGroup \<Rightarrow> BranchId list" where
  "branchIds g = map fst (sg_branches g)"

definition branchCount :: "SyncGroup \<Rightarrow> nat" where
  "branchCount g = length (sg_branches g)"

definition sg_reportFrameReceived :: "BranchId \<Rightarrow> FrameId \<Rightarrow> SyncGroup \<Rightarrow> FrameId \<times> SyncGroup" where
  "sg_reportFrameReceived b frame_id g =
     (if \<not> hasBranch b g then (sg_watermark g, g)
      else (sg_watermark g, on_branch b (\<lambda>s.
        let s = (if frame_id > latest_frame s then s \<lparr> latest_frame := frame_id \<rparr> else s)
        in if frame_id \<in> set (sg_globalDrops g)
           then s \<lparr> pending_sync_drops := List.insert frame_id (pending_sync_drops s) \<rparr> else s) g))"

definition effective_processed :: "BranchState \<Rightarrow> FrameId" where
  "effective_processed s = foldl (\<lambda>effective dropped.
     if dropped > effective \<or> effective = k_invalid_frame_id then max effective dropped else effective)
     (processed_frame s) (dropped_frames s)"

definition updateWatermarkLocked :: "SyncGroup \<Rightarrow> SyncGroup" where
  "updateWatermarkLocked g =
     (let new_watermark = foldl (\<lambda>w (i, s).
            if \<not> bs_active s then w
            else if effective_processed s \<noteq> k_invalid_frame_id \<and> (w = k_end_of_stream_frame_id \<or> effective_processed s < w)
            then effective_processed s else w) k_end_of_stream_frame_id (sg_branches g)
      in if new_watermark \<noteq> k_end_of_stream_frame_id \<and> new_watermark > sg_watermark g
         then g \<lparr> sg_watermark := new_watermark \<rparr> else g)"

definition sg_reportFrameProcessed :: "BranchId \<Rightarrow> FrameId \<Rightarrow> SyncGroup \<Rightarrow> SyncGroup" where
  "sg_reportFrameProcessed b frame_id g =
     (if \<not> hasBranch b g then g
      else updateWatermarkLocked (on_branch b (\<lambda>s.
             if frame_id > processed_frame s then s \<lparr> processed_frame := frame_id \<rparr> else s) g))"

text \<open>Must a branch other than the dropping one drop the frame too?\<close>

definition must_follow :: "BranchId \<Rightarrow> FrameId \<Rightarrow> BranchId \<times> BranchState \<Rightarrow> bool" where
  "must_follow b frame_id entry \<longleftrightarrow> fst entry \<noteq> b \<and>
     (processed_frame (snd entry) < frame_id \<or> processed_frame (snd entry) = k_invalid_frame_id)"

definition reportFrameDropped :: "BranchId \<Rightarrow> FrameId \<Rightarrow> string \<Rightarrow> SyncGroup \<Rightarrow> BranchId list \<times> SyncGroup" where
  "reportFrameDropped b frame_id reason g =
     (if \<not> hasBranch b g then ([], g)
      else let g = on_branch b (\<lambda>s. s \<lparr> dropped_frames := List.insert frame_id (dropped_frames s) \<rparr>) g;
               g = g \<lparr> sg_globalDrops := List.insert frame_id (sg_globalDrops g),
                       sg_dropReasons := (sg_dropReasons g)(frame_id \<mapsto> reason) \<rparr>
           in (map fst (filter (must_follow b frame_id) (sg_branches g)),
               g \<lparr> sg_branches := map (\<lambda>(i, s). if must_follow b frame_id (i, s)
                     then (i, s \<lparr> pending_sync_drops := List.insert frame_id (pending_sync_drops s) \<rparr>) else (i, s)) (sg_branches g) \<rparr>))"

definition sg_shouldDropFrame :: "BranchId \<Rightarrow> FrameId \<Rightarrow> SyncGroup \<Rightarrow> bool" where
  "sg_shouldDropFrame b frame_id g \<longleftrightarrow> frame_id \<in> set (sg_globalDrops g) \<or>
     (case map_of (sg_branches g) b of Some s \<Rightarrow> frame_id \<in> set (pending_sync_drops s) | None \<Rightarrow> False)"

definition sg_getPendingSyncDrops :: "BranchId \<Rightarrow> SyncGroup \<Rightarrow> FrameId list" where
  "sg_getPendingSyncDrops b g = (case map_of (sg_branches g) b of Some s \<Rightarrow> pending_sync_drops s | None \<Rightarrow> [])"

definition sg_clearPendingSyncDrop :: "BranchId \<Rightarrow> FrameId \<Rightarrow> SyncGroup \<Rightarrow> SyncGroup" where
  "sg_clearPendingSyncDrop b frame_id g = on_branch b (\<lambda>s. s \<lparr>
     pending_sync_drops := removeAll frame_id (pending_sync_drops s),
     dropped_frames := List.insert frame_id (dropped_frames s) \<rparr>) g"

definition clearPendingSyncDropsBefore :: "BranchId \<Rightarrow> FrameId \<Rightarrow> SyncGroup \<Rightarrow> SyncGroup" where
  "clearPendingSyncDropsBefore b frame_id g = on_branch b (\<lambda>s. s \<lparr>
     pending_sync_drops := filter (\<lambda>f. \<not> f < frame_id) (pending_sync_drops s),
     dropped_frames := fold List.insert (filter (\<lambda>f. f < frame_id) (pending_sync_drops s)) (dropped_frames s) \<rparr>) g"

definition minLatestFrame :: "SyncGroup \<Rightarrow> FrameId" where
  "minLatestFrame g = foldl (\<lambda>m (i, s). if bs_active s \<and> latest_frame s < m then latest_frame s else m)
     k_end_of_stream_frame_id (sg_branches g)"

definition sg_cleanup :: "SyncGroup \<Rightarrow> SyncGroup" where
  "sg_cleanup g = g \<lparr>
     sg_dropReasons := (\<lambda>f. if f \<in> set (sg_globalDrops g) \<and> f < sg_watermark g then None else sg_dropReasons g f),
     sg_globalDrops := filter (\<lambda>f. \<not> f < sg_watermark g) (sg_globalDrops g),
     sg_branches := map (\<lambda>(i, s). (i, s \<lparr> dropped_frames := filter (\<lambda>f. \<not> f < sg_watermark g) (dropped_frames s) \<rparr>)) (sg_branches g) \<rparr>"

section \<open>The coordinator\<close>

record SyncCoordinator =
  co_groups :: "(SyncGroupId \<times> SyncGroup) list"
  co_dropCallback :: bool
  co_notified :: "(SyncGroupId \<times> BranchId \<times> FrameId \<times> string) list"

definition newCoordinator :: SyncCoordinator where
  "newCoordinator = \<lparr> co_groups = [], co_dropCallback = False, co_notified = [] \<rparr>"

definition on_group :: "SyncGroupId \<Rightarrow> (SyncGroup \<Rightarrow> SyncGroup) \<Rightarrow> SyncCoordinator \<Rightarrow> SyncCoordinator" where
  "on_group gid f c = c \<lparr> co_groups := map (\<lambda>(i, g). if i = gid then (i, f g) else (i, g)) (co_groups c) \<rparr>"

definition getSyncGroup :: "SyncGroupId \<Rightarrow> SyncCoordinator \<Rightarrow> SyncGroup option" where
  "getSyncGroup gid c = map_of (co_groups c) gid"

definition hasSyncGroup :: "SyncGroupId \<Rightarrow> SyncCoordinator \<Rightarrow> bool" where
  "hasSyncGroup gid c \<longleftrightarrow> getSyncGroup gid c \<noteq> None"

definition createSyncGroup :: "SyncGroupId \<Rightarrow> BranchId list \<Rightarrow> SyncCoordinator \<Rightarrow> bool \<times> SyncCoordinator" where
  "createSyncGroup gid branch_ids c =
     (if hasSyncGroup gid c then (False, c)
      else (True, c \<lparr> co_groups := co_groups c @ [(gid, foldl (\<lambda>g b. sg_addBranch b g) (newSyncGroup gid) branch_ids)] \<rparr>))"

definition removeSyncGroup :: "SyncGroupId \<Rightarrow> SyncCoordinator \<Rightarrow> SyncCoordinator" where
  "removeSyncGroup gid c = c \<lparr> co_groups := filter (\<lambda>(i, g). i \<noteq> gid) (co_groups c) \<rparr>"

definition co_addBranch :: "SyncGroupId \<Rightarrow> BranchId \<Rightarrow> SyncCoordinator \<Rightarrow> bool \<times> SyncCoordinator" where
  "co_addBranch gid b c = (if hasSyncGroup gid c then (True, on_group gid (sg_addBranch b) c) else (False, c))"

definition co_removeBranch :: "SyncGroupId \<Rightarrow> BranchId \<Rightarrow> SyncCoordinator \<Rightarrow> SyncCoordinator" where
  "co_removeBranch gid b c = on_group gid (sg_removeBranch b) c"

definition co_reportFrameReceived :: "SyncGroupId \<Rightarrow> BranchId \<Rightarrow> FrameId \<Rightarrow> SyncCoordinator \<Rightarrow> FrameId \<times> SyncCoordinator" where
  "co_reportFrameReceived gid b frame_id c = (case getSyncGroup gid c of
     None \<Rightarrow> (k_invalid_frame_id, c)
   | Some g \<Rightarrow> (fst (sg_reportFrameReceived b frame_id g), on_group gid (\<lambda>g. snd (sg_reportFrameReceived b frame_id g)) c))"

definition co_reportFrameProcessed :: "SyncGroupId \<Rightarrow> BranchId \<Rightarrow> FrameId \<Rightarrow> SyncCoordinator \<Rightarrow> SyncCoordinator" where
  "co_reportFrameProcessed gid b frame_id c = on_group gid (sg_reportFrameProcessed b frame_id) c"

definition co_reportDrop :: "SyncGroupId \<Rightarrow> BranchId \<Rightarrow> FrameId \<Rightarrow> string \<Rightarrow> SyncCoordinator \<Rightarrow> SyncCoordinator" where
  "co_reportDrop gid b frame_id reason c = (case getSyncGroup gid c of
     None \<Rightarrow> c
   | Some g \<Rightarrow>
       let affected = fst (reportFrameDropped b frame_id reason g);
           c = on_group gid (\<lambda>g. snd (reportFrameDropped b frame_id reason g)) c
       in if co_dropCallback c
          then c \<lparr> co_notified := co_notified c @
                 map (\<lambda>o'. (gid, o', frame_id, ''Sync drop from '' @ b @ '': '' @ reason)) affected \<rparr>
          else c)"

definition co_shouldDropFrame :: "SyncGroupId \<Rightarrow> BranchId \<Rightarrow> FrameId \<Rightarrow> SyncCoordinator \<Rightarrow> bool" where
  "co_shouldDropFrame gid b frame_id c = (case getSyncGroup gid c of None \<Rightarrow> False | Some g \<Rightarrow> sg_shouldDropFrame b frame_id g)"

definition co_getPendingSyncDrops :: "SyncGroupId \<Rightarrow> BranchId \<Rightarrow> SyncCoordinator \<Rightarrow> FrameId list" where
  "co_getPendingSyncDrops gid b c = (case getSyncGroup gid c of None \<Rightarrow> [] | Some g \<Rightarrow> sg_getPendingSyncDrops b g)"

definition co_clearPendingSyncDrop :: "SyncGroupId \<Rightarrow> BranchId \<Rightarrow> FrameId \<Rightarrow> SyncCoordinator \<Rightarrow> SyncCoordinator" where
  "co_clearPendingSyncDrop gid b frame_id c = on_group gid (sg_clearPendingSyncDrop b frame_id) c"

definition co_getWatermark :: "SyncGroupId \<Rightarrow> SyncCoordinator \<Rightarrow> FrameId" where
  "co_getWatermark gid c = (case getSyncGroup gid c of None \<Rightarrow> k_invalid_frame_id | Some g \<Rightarrow> sg_watermark g)"

definition co_setDropCallback :: "bool \<Rightarrow> SyncCoordinator \<Rightarrow> SyncCoordinator" where
  "co_setDropCallback installed c = c \<lparr> co_dropCallback := installed \<rparr>"

definition co_cleanup :: "SyncCoordinator \<Rightarrow> SyncCoordinator" where
  "co_cleanup c = c \<lparr> co_groups := map (\<lambda>(i, g). (i, sg_cleanup g)) (co_groups c) \<rparr>"

definition co_reset :: "SyncCoordinator \<Rightarrow> SyncCoordinator" where
  "co_reset c = c \<lparr> co_groups := [] \<rparr>"

section \<open>The context of a node\<close>

text \<open>The coordinator pointer of the context may be null.\<close>

record NodeSyncContext =
  nsc_groupId :: SyncGroupId
  nsc_branchId :: BranchId

definition onFrameReceived :: "NodeSyncContext \<Rightarrow> FrameId \<Rightarrow> SyncCoordinator option \<Rightarrow> SyncCoordinator option" where
  "onFrameReceived n frame_id = map_option (\<lambda>c. snd (co_reportFrameReceived (nsc_groupId n) (nsc_branchId n) frame_id c))"

definition onFrameProcessed :: "NodeSyncContext \<Rightarrow> FrameId \<Rightarrow> SyncCoordinator option \<Rightarrow> SyncCoordinator option" where
  "onFrameProcessed n frame_id = map_option (co_reportFrameProcessed (nsc_groupId n) (nsc_branchId n) frame_id)"

definition onFrameDropped :: "NodeSyncContext \<Rightarrow> FrameId \<Rightarrow> string \<Rightarrow> SyncCoordinator option \<Rightarrow> SyncCoordinator option" where
  "onFrameDropped n frame_id reason = map_option (co_reportDrop (nsc_groupId n) (nsc_branchId n) frame_id reason)"

definition shouldSkipFrame :: "NodeSyncContext \<Rightarrow> FrameId \<Rightarrow> SyncCoordinator option \<Rightarrow> bool" where
  "shouldSkipFrame n frame_id c = (case c of
     Some c \<Rightarrow> co_shouldDropFrame (nsc_groupId n) (nsc_branchId n) frame_id c | None \<Rightarrow> False)"

definition acknowledgeSyncDrop :: "NodeSyncContext \<Rightarrow> FrameId \<Rightarrow> SyncCoordinator option \<Rightarrow> SyncCoordinator option" where
  "acknowledgeSyncDrop n frame_id = map_option (co_clearPendingSyncDrop (nsc_groupId n) (nsc_branchId n) frame_id)"

section \<open>Runs of a group\<close>

datatype group_op =
    AddBranch BranchId | RemoveBranch BranchId | Received BranchId FrameId | Processed BranchId FrameId
  | Dropped BranchId FrameId string | ClearPending BranchId FrameId | ClearBefore BranchId FrameId | Cleanup

fun group_step :: "group_op \<Rightarrow> SyncGroup \<Rightarrow> SyncGroup" where
  "group_step (AddBranch b) g = sg_addBranch b g"
| "group_step (RemoveBranch b) g = sg_removeBranch b g"
| "group_step (Received b f) g = snd (sg_reportFrameReceived b f g)"
| "group_step (Processed b f) g = sg_reportFrameProcessed b f g"
| "group_step (Dropped b f reason) g = snd (reportFrameDropped b f reason g)"
| "group_step (ClearPending b f) g = sg_clearPendingSyncDrop b f g"
| "group_step (ClearBefore b f) g = clearPendingSyncDropsBefore b f g"
| "group_step Cleanup g = sg_cleanup g"

definition group_run :: "group_op list \<Rightarrow> SyncGroup \<Rightarrow> SyncGroup" where
  "group_run ops g = foldl (\<lambda>g a. group_step a g) g ops"

text \<open>The calls that may end a pending drop of a branch: the branch itself acknowledges it, or leaves.\<close>

fun ends_pending :: "BranchId \<Rightarrow> FrameId \<Rightarrow> group_op \<Rightarrow> bool" where
  "ends_pending b f (RemoveBranch b') = (b' = b)"
| "ends_pending b f (ClearPending b' f') = (b' = b \<and> f' = f)"
| "ends_pending b f (ClearBefore b' f') = (b' = b \<and> f < f')"
| "ends_pending b f _ = False"

definition pending_at :: "BranchId \<Rightarrow> FrameId \<Rightarrow> SyncGroup \<Rightarrow> bool" where
  "pending_at b f g \<longleftrightarrow> f \<in> set (sg_getPendingSyncDrops b g)"

section \<open>Lemmas\<close>

lemma map_of_update:
  "map_of (map (\<lambda>(i, s). if i = b then (i, f s) else (i, s)) xs) k = (if k = b then map_option f (map_of xs k) else map_of xs k)"
  by (induction xs) auto

lemma map_of_update_if:
  "map_of (map (\<lambda>(i, s). if P i s then (i, f s) else (i, s)) xs) k = map_option (\<lambda>s. if P k s then f s else s) (map_of xs k)"
  by (induction xs) auto

lemma map_of_update_all: "map_of (map (\<lambda>(i, s). (i, f s)) xs) k = map_option f (map_of xs k)"
  by (induction xs) auto

lemma map_of_removed: "map_of (filter (\<lambda>(i, s). i \<noteq> b) xs) k = (if k = b then None else map_of xs k)"
  by (induction xs) auto

lemma watermark_branches [simp]: "sg_branches (updateWatermarkLocked g) = sg_branches g"
  by (simp add: updateWatermarkLocked_def Let_def)

lemmas group_ops = on_branch_def sg_addBranch_def sg_removeBranch_def sg_reportFrameReceived_def sg_reportFrameProcessed_def
  reportFrameDropped_def sg_clearPendingSyncDrop_def clearPendingSyncDropsBefore_def sg_cleanup_def hasBranch_def Let_def

lemma pending_step:
  assumes "pending_at b f g" and "\<not> ends_pending b f a"
  shows "pending_at b f (group_step a g)"
proof -
  obtain s where "map_of (sg_branches g) b = Some s" "f \<in> set (pending_sync_drops s)"
    using assms(1) by (cases "map_of (sg_branches g) b") (simp_all add: pending_at_def sg_getPendingSyncDrops_def)
  then show ?thesis
    using assms(2)
    by (cases a) (auto simp del: map_map simp: pending_at_def sg_getPendingSyncDrops_def group_ops map_of_update map_of_update_if map_of_update_all
        map_of_removed map_add_def split: option.splits)
qed

lemma pending_run:
  assumes "pending_at b f g" and "\<forall>a\<in>set ops. \<not> ends_pending b f a"
  shows "pending_at b f (group_run ops g)"
  using assms by (induction ops arbitrary: g) (auto simp: group_run_def pending_step)

lemma dropped_pending:
  assumes "hasBranch b g" and "map_of (sg_branches g) sib = Some s" and "sib \<noteq> b" and "processed_frame s < f"
  shows "pending_at sib f (snd (reportFrameDropped b f reason g))"
  using assms by (simp add: pending_at_def sg_getPendingSyncDrops_def reportFrameDropped_def Let_def on_branch_def map_of_update
      map_of_update_if must_follow_def del: map_map)

lemma watermark_step: "sg_watermark g \<le> sg_watermark (group_step a g)"
  by (cases a) (auto simp: group_ops updateWatermarkLocked_def)

text \<open>The effective frame of a branch is the largest it processed or dropped.\<close>

lemma effective_processed_Max: "effective_processed s = Max (insert (processed_frame s) (set (dropped_frames s)))"
proof -
  have "(\<lambda>effective dropped. if dropped > effective \<or> effective = k_invalid_frame_id then max effective dropped else effective) = max"
    by (auto simp: fun_eq_iff max_def k_invalid_frame_id_def)
  then show ?thesis by (simp add: effective_processed_def foldl_conv_fold Max.set_eq_fold [symmetric] max.commute flip: Max.set_eq_fold)
qed

text \<open>The watermark candidate is the least effective frame of the active branches that have one.\<close>

definition progressed :: "SyncGroup \<Rightarrow> FrameId set" where
  "progressed g = effective_processed ` {s \<in> snd ` set (sg_branches g). bs_active s \<and> effective_processed s \<noteq> k_invalid_frame_id}"

lemma Min_insert_min: "finite A \<Longrightarrow> Min (insert w (insert e A)) = Min (insert (min w e) A)" for w e :: "'a::linorder"
  by (cases "A = {}") (simp_all add: min.assoc)

lemma candidate_Min:
  "foldl (\<lambda>w (i, s). if \<not> bs_active s then w
       else if effective_processed s \<noteq> k_invalid_frame_id \<and> (w = k_end_of_stream_frame_id \<or> effective_processed s < w)
       then effective_processed s else w) w xs
   = Min (insert w (effective_processed ` {s \<in> snd ` set xs. bs_active s \<and> effective_processed s \<noteq> k_invalid_frame_id}))"
proof (induction xs arbitrary: w)
  case (Cons x xs)
  obtain i s where x: "x = (i, s)" by (cases x)
  let ?E = "\<lambda>ys. effective_processed ` {s \<in> snd ` set ys. bs_active s \<and> effective_processed s \<noteq> k_invalid_frame_id}"
  have E: "?E (x # xs) = (if bs_active s \<and> effective_processed s \<noteq> k_invalid_frame_id then insert (effective_processed s) (?E xs) else ?E xs)"
    by (auto simp: x)
  have fin: "finite (?E xs)" by simp
  have "k_end_of_stream_frame_id = - 1" by (simp add: k_end_of_stream_frame_id_def)
  then have eos: "e \<le> k_end_of_stream_frame_id" for e using word_order.extremum [of e] by metis
  note m = Min_insert_min [OF fin]
  show ?case
    using eos [of "effective_processed s"] unfolding E foldl_Cons Cons.IH
    by (simp add: x m min_def) (auto simp: not_le)
qed simp

lemma updateWatermark_value:
  "sg_watermark (updateWatermarkLocked g) =
     (let c = Min (insert k_end_of_stream_frame_id (progressed g))
      in if c = k_end_of_stream_frame_id then sg_watermark g else max (sg_watermark g) c)"
proof -
  obtain c where c: "c = Min (insert k_end_of_stream_frame_id (progressed g))" by blast
  then show ?thesis
    unfolding updateWatermarkLocked_def candidate_Min progressed_def [symmetric] Let_def c [symmetric]
    by (auto simp: max_def not_le)
qed

lemma watermark_run: "sg_watermark g \<le> sg_watermark (group_run ops g)"
proof (induction ops arbitrary: g)
  case (Cons a ops)
  have "sg_watermark (group_step a g) \<le> sg_watermark (group_run ops (group_step a g))" by (rule Cons.IH)
  then show ?case using watermark_step [of g a] by (simp add: group_run_def)
qed (simp add: group_run_def)

section \<open>Properties\<close>

text \<open>
  C19. A frame dropped on one branch is dropped on its siblings: once a branch of the group
  reports the drop of a frame, every sibling that has not yet processed that frame has it
  pending, answers that it should be dropped, and keeps doing so through any further calls on
  the group, until the sibling itself acknowledges the drop or leaves the group.
\<close>

theorem coordinated_drop:
  assumes "hasBranch b g" and "map_of (sg_branches g) sib = Some s" and "sib \<noteq> b" and "processed_frame s < f"
    and "\<forall>a\<in>set ops. \<not> ends_pending sib f a"
  shows "f \<in> set (sg_getPendingSyncDrops sib (group_run (Dropped b f reason # ops) g)) \<and>
    sg_shouldDropFrame sib f (group_run (Dropped b f reason # ops) g) \<and>
    sib \<in> set (fst (reportFrameDropped b f reason g))"
proof -
  have "pending_at sib f (group_run ops (snd (reportFrameDropped b f reason g)))"
    using pending_run dropped_pending assms by blast
  then have "pending_at sib f (group_run (Dropped b f reason # ops) g)" by (simp add: group_run_def)
  moreover have "sib \<in> set (fst (reportFrameDropped b f reason g))"
    using assms map_of_SomeD [OF assms(2)]
    by (force simp: reportFrameDropped_def Let_def on_branch_def must_follow_def image_iff)
  ultimately show ?thesis
    by (auto simp: pending_at_def sg_getPendingSyncDrops_def sg_shouldDropFrame_def split: option.splits)
qed

definition demo_group :: SyncGroup where
  "demo_group = sg_addBranch ''B'' (sg_addBranch ''A'' (newSyncGroup ''g''))"

theorem coordinated_drop_witness:
  "7 \<in> set (sg_getPendingSyncDrops ''B'' (group_run [Dropped ''A'' 7 ''full'', Processed ''B'' 6, Cleanup] demo_group))"
proof -
  have "map_of (sg_branches demo_group) ''B'' = Some (newBranch ''B'')" "hasBranch ''A'' demo_group"
    by (simp_all add: demo_group_def sg_addBranch_def hasBranch_def newSyncGroup_def)
  then show ?thesis
    using coordinated_drop [of "''A''" demo_group "''B''" "newBranch ''B''" 7 "[Processed ''B'' 6, Cleanup]" "''full''"]
    by (simp add: newBranch_def k_invalid_frame_id_def)
qed

text \<open>
  C20. The watermark of a group never moves back, whatever the calls.  It moves only when a
  branch reports a processed frame, and then to the least of the frames the active branches
  have reached, where a branch reaches the largest frame it processed or dropped and a branch
  that has reached none does not count.
\<close>

theorem watermark_progress:
  "sg_watermark g \<le> sg_watermark (group_run ops g) \<and>
   (case a of
      Processed b f \<Rightarrow> sg_watermark (group_step a g) =
        (let reached = progressed (group_step a g); c = Min (insert k_end_of_stream_frame_id reached)
         in if hasBranch b g \<and> c \<noteq> k_end_of_stream_frame_id then max (sg_watermark g) c else sg_watermark g)
    | _ \<Rightarrow> sg_watermark (group_step a g) = sg_watermark g) \<and>
   effective_processed s = Max (insert (processed_frame s) (set (dropped_frames s)))"
proof -
  have "progressed (updateWatermarkLocked g') = progressed g'" for g' by (simp add: progressed_def)
  then have "sg_watermark (sg_reportFrameProcessed b f g) =
      (let reached = progressed (sg_reportFrameProcessed b f g); c = Min (insert k_end_of_stream_frame_id reached)
       in if hasBranch b g \<and> c \<noteq> k_end_of_stream_frame_id then max (sg_watermark g) c else sg_watermark g)" for b f
    by (simp add: sg_reportFrameProcessed_def updateWatermark_value Let_def on_branch_def)
  then show ?thesis
    using watermark_run effective_processed_Max by (cases a) (simp_all add: group_ops)
qed

text \<open>
  C21. Cleaning up forgets no drop that still matters: for a frame at or above the watermark the
  decision to drop is the one before the call, below it only the drops a branch still has
  pending remain, and no branch loses a pending drop.
\<close>

theorem cleanup_keeps_decisions:
  "sg_shouldDropFrame b f (sg_cleanup g) =
     (if f < sg_watermark g then f \<in> set (sg_getPendingSyncDrops b g) else sg_shouldDropFrame b f g) \<and>
   sg_getPendingSyncDrops b (sg_cleanup g) = sg_getPendingSyncDrops b g"
  by (auto simp: sg_shouldDropFrame_def sg_cleanup_def sg_getPendingSyncDrops_def map_of_update_all split: option.splits)

text \<open>
  A branch that has processed nothing does not hold the watermark back: here it passes frame 5
  although branch \<open>B\<close> has not seen any frame.
\<close>

lemma watermark_ignores_idle: "sg_watermark (sg_reportFrameProcessed ''A'' 5 demo_group) = 5"
  by (simp add: demo_group_def sg_addBranch_def hasBranch_def newSyncGroup_def sg_reportFrameProcessed_def on_branch_def
      updateWatermarkLocked_def effective_processed_def newBranch_def k_invalid_frame_id_def k_end_of_stream_frame_id_def)

end
