(* ===== verification/Join_Sync.thy ===== *)
theory Join_Sync
  imports Sync_Groups Compiled_Graphs Exec_Types
begin

text \<open>
  \<open>src/join_aware_sync_strategy.hpp\<close> and \<open>src/sync_strategies.hpp\<close>: the strategies that decide
  which frames the branches of a join drop together.

  The loops over unordered containers visit the elements in an order the library does not
  fix: \<open>ord\<close> maps the elements, in the order they were inserted, to the order they are
  visited in.  The depth-first search passes its path and its visited set down by value,
  which is what its \<open>pop_back\<close> and \<open>erase\<close> on the way back amount to.
\<close>

section \<open>Paths\<close>

definition successors :: "CompiledGraph \<Rightarrow> nat \<Rightarrow> nat list" where
  "successors g i = (if i < length (cg_successors g) then cg_successors g ! i else [])"

definition predecessors :: "CompiledGraph \<Rightarrow> nat \<Rightarrow> nat list" where
  "predecessors g i = (if i < length (cg_predecessors g) then cg_predecessors g ! i else [])"

definition unvisited :: "CompiledGraph \<Rightarrow> nat list \<Rightarrow> nat set" where
  "unvisited g visited = {i. i < length (cg_successors g)} - set visited"

lemma finite_unvisited [simp]: "finite (unvisited g visited)"
  by (simp add: unvisited_def)

lemma unvisited_insert [simp]: "unvisited g (List.insert i visited) = unvisited g visited - {i}"
  by (auto simp: unvisited_def)

function findAllPathsDFS :: "CompiledGraph \<Rightarrow> nat \<Rightarrow> nat \<Rightarrow> nat list \<Rightarrow> nat list \<Rightarrow> nat list list" where
  "findAllPathsDFS g current dest current_path visited =
     (let visited = List.insert current visited; current_path = current_path @ [current] in
      if current = dest
      then if length current_path \<ge> 2 then [butlast (tl current_path)] else []
      else concat (map (\<lambda>neighbor. if neighbor \<in> set visited then []
             else findAllPathsDFS g neighbor dest current_path visited) (successors g current)))"
  by pat_completeness auto

termination
proof (relation "measure (\<lambda>(g, current, dest, path, visited). 2 * card (unvisited g visited) + (if current \<in> set visited then 1 else 0))")
  fix g :: CompiledGraph and current dest :: nat and path visited v p :: "nat list" and neighbor :: nat
  assume v: "v = List.insert current visited" and nb: "neighbor \<in> set (successors g current)" and new: "neighbor \<notin> set v"
  have "current < length (cg_successors g)" using nb by (auto simp: successors_def split: if_splits)
  then have "current \<in> unvisited g visited" if "current \<notin> set visited" using that by (simp add: unvisited_def)
  then have "card (unvisited g v) < card (unvisited g visited)" if "current \<notin> set visited"
    using that card_Diff1_less [OF finite_unvisited] unfolding v unvisited_insert by blast
  moreover have "unvisited g v = unvisited g visited" if "current \<in> set visited"
    using that v by (simp add: List.insert_def)
  ultimately show "((g, neighbor, dest, p, v), g, current, dest, path, visited)
      \<in> measure (\<lambda>(g, current, dest, path, visited). 2 * card (unvisited g visited) + (if current \<in> set visited then 1 else 0))"
    using new by (cases "current \<in> set visited") auto
qed simp

declare findAllPathsDFS.simps [simp del]

definition findAllPaths :: "CompiledGraph \<Rightarrow> nat \<Rightarrow> nat \<Rightarrow> nat list list" where
  "findAllPaths g source dest = findAllPathsDFS g source dest [] []"

section \<open>The lowest common fork\<close>

definition is_fork :: "CompiledGraph \<Rightarrow> nat \<Rightarrow> bool" where
  "is_fork g i \<longleftrightarrow> length (successors g i) > 1"

text \<open>The parents of the predecessors, one occurrence for each predecessor they feed.\<close>

definition grandparents :: "CompiledGraph \<Rightarrow> nat \<Rightarrow> nat list" where
  "grandparents g join_index = concat (map (predecessors g) (predecessors g join_index))"

definition parent_fork :: "(nat list \<Rightarrow> nat list) \<Rightarrow> CompiledGraph \<Rightarrow> nat \<Rightarrow> nat option" where
  "parent_fork ord g join_index =
     (let all = grandparents g join_index in
      find (\<lambda>parent. count_list all parent = length (predecessors g join_index) \<and> is_fork g parent)
        (ord (foldl (\<lambda>keys p. push_unique p keys) [] all)))"

text \<open>The search backward from one predecessor: the nodes reached and the queue.\<close>

fun expand_node :: "nat list \<Rightarrow> nat list \<times> nat list \<Rightarrow> nat list \<times> nat list" where
  "expand_node [] st = st"
| "expand_node (pred # preds) (reached, queue) =
     expand_node preds (if pred \<in> set reached then (reached, queue) else (reached @ [pred], queue @ [pred]))"

fun expand_source :: "CompiledGraph \<Rightarrow> nat \<Rightarrow> nat list \<times> nat list \<Rightarrow> nat list \<times> nat list" where
  "expand_source g 0 st = st"
| "expand_source g (Suc q) (reached, []) = (reached, [])"
| "expand_source g (Suc q) (reached, current # queue) =
     expand_source g q (expand_node (predecessors g current) (reached, queue))"

definition common_fork :: "CompiledGraph \<Rightarrow> (nat list \<times> nat list) list \<Rightarrow> nat \<Rightarrow> bool" where
  "common_fork g sources candidate \<longleftrightarrow> list_all (\<lambda>(reached, queue). candidate \<in> set reached) (tl sources) \<and> is_fork g candidate"

fun search_fork :: "(nat list \<Rightarrow> nat list) \<Rightarrow> CompiledGraph \<Rightarrow> nat \<Rightarrow> (nat list \<times> nat list) list \<Rightarrow> nat option" where
  "search_fork ord g 0 sources = None"
| "search_fork ord g (Suc iterations) sources =
     (case find (common_fork g sources) (ord (fst (hd sources))) of
        Some fork \<Rightarrow> Some fork
      | None \<Rightarrow>
          if list_all (\<lambda>(reached, queue). queue = []) sources then None
          else search_fork ord g iterations (map (\<lambda>(reached, queue). expand_source g (length queue) (reached, queue)) sources))"

record ForkSearchResult =
  fs_valid :: bool
  fs_fork_node :: nat
  fs_paths :: "nat list list"

definition findLowestCommonFork :: "(nat list \<Rightarrow> nat list) \<Rightarrow> CompiledGraph \<Rightarrow> nat \<Rightarrow> ForkSearchResult" where
  "findLowestCommonFork ord g join_index =
     (let preds = predecessors g join_index;
          none = \<lparr> fs_valid = False, fs_fork_node = k_invalid_index, fs_paths = [] \<rparr>;
          found = (\<lambda>fork. \<lparr> fs_valid = True, fs_fork_node = fork, fs_paths = findAllPaths g fork join_index \<rparr>)
      in if length preds < 2 then none
         else case parent_fork ord g join_index of
           Some parent \<Rightarrow> found parent
         | None \<Rightarrow> (case search_fork ord g 1000 (map (\<lambda>p. ([p], [p])) preds) of
               Some fork \<Rightarrow> found fork | None \<Rightarrow> none))"

section \<open>The join-aware strategy\<close>

record JoinAware =
  ja_coordinator :: SyncCoordinator
  ja_nodeMapping :: "string \<Rightarrow> (SyncGroupId \<times> BranchId) option"
  ja_nodeMultiMapping :: "string \<Rightarrow> (SyncGroupId \<times> BranchId) list option"
  ja_debugInfo :: "string list"

definition newJoinAware :: JoinAware where
  "newJoinAware = \<lparr> ja_coordinator = newCoordinator, ja_nodeMapping = Map.empty, ja_nodeMultiMapping = Map.empty, ja_debugInfo = [] \<rparr>"

definition addNodeMapping :: "string \<Rightarrow> SyncGroupId \<Rightarrow> BranchId \<Rightarrow> JoinAware \<Rightarrow> JoinAware" where
  "addNodeMapping node_name group_id branch_id s =
     (let s = (if ja_nodeMapping s node_name = None
               then s \<lparr> ja_nodeMapping := (ja_nodeMapping s)(node_name \<mapsto> (group_id, branch_id)) \<rparr> else s)
      in s \<lparr> ja_nodeMultiMapping := map_push_back (ja_nodeMultiMapping s) node_name (group_id, branch_id) \<rparr>)"

definition node_name :: "node_env \<Rightarrow> CompiledGraph \<Rightarrow> nat \<Rightarrow> string" where
  "node_name ni g i = getName (ni (cg_nodes g ! i))"

definition group_name :: "nat \<Rightarrow> string \<Rightarrow> string \<Rightarrow> SyncGroupId" where
  "group_name n fork join = ''sync_group_'' @ to_string n @ ''_'' @ fork @ ''_to_'' @ join"

definition branch_name :: "nat \<Rightarrow> BranchId" where
  "branch_name n = ''branch_'' @ to_string n"

fun map_paths :: "node_env \<Rightarrow> CompiledGraph \<Rightarrow> SyncGroupId \<Rightarrow> nat \<Rightarrow> nat list list \<Rightarrow> JoinAware \<Rightarrow> JoinAware" where
  "map_paths ni g group_id branch_counter [] s = s"
| "map_paths ni g group_id branch_counter (path # paths) s =
     map_paths ni g group_id (Suc branch_counter) paths
       (foldl (\<lambda>s i. addNodeMapping (node_name ni g i) group_id (branch_name branch_counter) s) s path)"

fun join_strings :: "string \<Rightarrow> string list \<Rightarrow> string" where
  "join_strings sep [] = []"
| "join_strings sep [s] = s"
| "join_strings sep (s # t # ss) = s @ sep @ join_strings sep (t # ss)"

definition debug_text :: "node_env \<Rightarrow> CompiledGraph \<Rightarrow> SyncGroupId \<Rightarrow> string \<Rightarrow> string \<Rightarrow> nat list list \<Rightarrow> string" where
  "debug_text ni g group_id fork join paths =
     ''Group['' @ group_id @ '']: Fork='' @ fork @ '', Join='' @ join @ '', Branches='' @ to_string (length paths) @ '' {'' @
     join_strings '', '' (map (\<lambda>path. ''['' @ join_strings ''->'' (map (node_name ni g) path) @ '']'') paths) @ ''}''"

fun sync_joins :: "(nat list \<Rightarrow> nat list) \<Rightarrow> node_env \<Rightarrow> CompiledGraph \<Rightarrow> nat \<Rightarrow> nat list \<Rightarrow> JoinAware \<Rightarrow> JoinAware" where
  "sync_joins ord ni g group_counter [] s = s"
| "sync_joins ord ni g group_counter (join_index # joins) s =
     (let result = findLowestCommonFork ord g join_index in
      if \<not> fs_valid result then sync_joins ord ni g group_counter joins s
      else let fork_name = node_name ni g (fs_fork_node result); join_name = node_name ni g join_index;
               group_id = group_name group_counter fork_name join_name;
               branch_ids = map branch_name [0..<length (fs_paths result)];
               s = map_paths ni g group_id 0 (fs_paths result) s;
               s = (if branch_ids = [] then s else s \<lparr>
                 ja_coordinator := snd (createSyncGroup group_id branch_ids (ja_coordinator s)),
                 ja_debugInfo := ja_debugInfo s @ [debug_text ni g group_id fork_name join_name (fs_paths result)] \<rparr>)
           in sync_joins ord ni g (Suc group_counter) joins s)"

definition ja_initialize :: "(nat list \<Rightarrow> nat list) \<Rightarrow> node_env \<Rightarrow> CompiledGraph \<Rightarrow> JoinAware \<Rightarrow> JoinAware" where
  "ja_initialize ord ni g s =
     (let s = \<lparr> ja_coordinator = co_reset (ja_coordinator s), ja_nodeMapping = Map.empty,
                ja_nodeMultiMapping = Map.empty, ja_debugInfo = [] \<rparr>;
          join_points = filter (\<lambda>i. cg_inDegree g ! i > 1) [0..<u32 (nodeCount g)]
      in sync_joins ord ni g 0 join_points s)"

definition ja_reset :: "JoinAware \<Rightarrow> JoinAware" where
  "ja_reset s = s \<lparr> ja_coordinator := co_reset (ja_coordinator s) \<rparr>"

definition ja_registerSyncGroup :: "SyncGroupId \<Rightarrow> BranchId list \<Rightarrow> JoinAware \<Rightarrow> JoinAware" where
  "ja_registerSyncGroup group_id branch_ids s =
     s \<lparr> ja_coordinator := snd (createSyncGroup group_id branch_ids (ja_coordinator s)) \<rparr>"

definition multi_mappings :: "JoinAware \<Rightarrow> string \<Rightarrow> (SyncGroupId \<times> BranchId) list" where
  "multi_mappings s name = (case ja_nodeMultiMapping s name of Some ms \<Rightarrow> ms | None \<Rightarrow> [])"

fun report_each :: "(SyncGroupId \<times> BranchId) list \<Rightarrow> FrameId \<Rightarrow> string \<Rightarrow> BranchId list \<times> SyncCoordinator \<Rightarrow> BranchId list \<times> SyncCoordinator" where
  "report_each [] frame_id reason st = st"
| "report_each ((group_id, branch_id) # ms) frame_id reason (affected, c) =
     (let c = co_reportDrop group_id branch_id frame_id reason c;
          affected = (case getSyncGroup group_id c of
            None \<Rightarrow> affected
          | Some sg \<Rightarrow> foldl (\<lambda>affected b. if b \<noteq> branch_id \<and> b \<notin> set affected then affected @ [b] else affected)
                affected (branchIds sg))
      in report_each ms frame_id reason (affected, c))"

definition ja_reportDrop :: "string \<Rightarrow> FrameId \<Rightarrow> string \<Rightarrow> JoinAware \<Rightarrow> BranchId list \<times> JoinAware" where
  "ja_reportDrop name frame_id reason s =
     (let (affected, c) = report_each (multi_mappings s name) frame_id reason ([], ja_coordinator s)
      in (affected, s \<lparr> ja_coordinator := c \<rparr>))"

definition ja_shouldDrop :: "string \<Rightarrow> FrameId \<Rightarrow> JoinAware \<Rightarrow> bool" where
  "ja_shouldDrop name frame_id s \<longleftrightarrow>
     list_ex (\<lambda>(group_id, branch_id). frame_id \<in> set (co_getPendingSyncDrops group_id branch_id (ja_coordinator s)))
       (multi_mappings s name)"

definition ja_markProcessed :: "string \<Rightarrow> FrameId \<Rightarrow> JoinAware \<Rightarrow> JoinAware" where
  "ja_markProcessed name frame_id s = s \<lparr> ja_coordinator :=
     foldl (\<lambda>c (group_id, branch_id). co_reportFrameProcessed group_id branch_id frame_id c) (ja_coordinator s)
       (multi_mappings s name) \<rparr>"

definition ja_getWatermark :: "SyncGroupId \<Rightarrow> JoinAware \<Rightarrow> FrameId" where
  "ja_getWatermark group_id s = (case getSyncGroup group_id (ja_coordinator s) of None \<Rightarrow> 0 | Some g \<Rightarrow> sg_watermark g)"

definition ja_tracksNode :: "string \<Rightarrow> JoinAware \<Rightarrow> bool" where
  "ja_tracksNode name s \<longleftrightarrow> ja_nodeMultiMapping s name \<noteq> None"

definition ja_clone :: "JoinAware \<Rightarrow> JoinAware" where
  "ja_clone s = newJoinAware \<lparr> ja_nodeMapping := ja_nodeMapping s, ja_nodeMultiMapping := ja_nodeMultiMapping s, ja_debugInfo := ja_debugInfo s \<rparr>"

section \<open>The interface\<close>

datatype ISyncStrategy = NoSyncStrategy | JoinAwareSyncStrategy JoinAware

fun sync_initialize :: "(nat list \<Rightarrow> nat list) \<Rightarrow> node_env \<Rightarrow> CompiledGraph \<Rightarrow> ISyncStrategy \<Rightarrow> ISyncStrategy" where
  "sync_initialize ord ni g NoSyncStrategy = NoSyncStrategy"
| "sync_initialize ord ni g (JoinAwareSyncStrategy s) = JoinAwareSyncStrategy (ja_initialize ord ni g s)"

fun sync_reset :: "ISyncStrategy \<Rightarrow> ISyncStrategy" where
  "sync_reset NoSyncStrategy = NoSyncStrategy"
| "sync_reset (JoinAwareSyncStrategy s) = JoinAwareSyncStrategy (ja_reset s)"

fun sync_registerSyncGroup :: "SyncGroupId \<Rightarrow> BranchId list \<Rightarrow> ISyncStrategy \<Rightarrow> ISyncStrategy" where
  "sync_registerSyncGroup group_id branch_ids NoSyncStrategy = NoSyncStrategy"
| "sync_registerSyncGroup group_id branch_ids (JoinAwareSyncStrategy s) =
     JoinAwareSyncStrategy (ja_registerSyncGroup group_id branch_ids s)"

fun sync_mapNodeToGroup :: "string \<Rightarrow> SyncGroupId \<Rightarrow> BranchId \<Rightarrow> ISyncStrategy \<Rightarrow> ISyncStrategy" where
  "sync_mapNodeToGroup name group_id branch_id NoSyncStrategy = NoSyncStrategy"
| "sync_mapNodeToGroup name group_id branch_id (JoinAwareSyncStrategy s) =
     JoinAwareSyncStrategy (addNodeMapping name group_id branch_id s)"

fun sync_reportDrop :: "string \<Rightarrow> FrameId \<Rightarrow> string \<Rightarrow> ISyncStrategy \<Rightarrow> BranchId list \<times> ISyncStrategy" where
  "sync_reportDrop name frame_id reason NoSyncStrategy = ([], NoSyncStrategy)"
| "sync_reportDrop name frame_id reason (JoinAwareSyncStrategy s) =
     (let (affected, s) = ja_reportDrop name frame_id reason s in (affected, JoinAwareSyncStrategy s))"

fun sync_shouldDrop :: "string \<Rightarrow> FrameId \<Rightarrow> ISyncStrategy \<Rightarrow> bool" where
  "sync_shouldDrop name frame_id NoSyncStrategy = False"
| "sync_shouldDrop name frame_id (JoinAwareSyncStrategy s) = ja_shouldDrop name frame_id s"

fun sync_markProcessed :: "string \<Rightarrow> FrameId \<Rightarrow> ISyncStrategy \<Rightarrow> ISyncStrategy" where
  "sync_markProcessed name frame_id NoSyncStrategy = NoSyncStrategy"
| "sync_markProcessed name frame_id (JoinAwareSyncStrategy s) = JoinAwareSyncStrategy (ja_markProcessed name frame_id s)"

fun sync_getWatermark :: "SyncGroupId \<Rightarrow> ISyncStrategy \<Rightarrow> FrameId" where
  "sync_getWatermark group_id NoSyncStrategy = 0"
| "sync_getWatermark group_id (JoinAwareSyncStrategy s) = ja_getWatermark group_id s"

fun sync_isEnabled :: "ISyncStrategy \<Rightarrow> bool" where
  "sync_isEnabled NoSyncStrategy = False"
| "sync_isEnabled (JoinAwareSyncStrategy s) = True"

fun sync_tracksNode :: "string \<Rightarrow> ISyncStrategy \<Rightarrow> bool" where
  "sync_tracksNode name NoSyncStrategy = False"
| "sync_tracksNode name (JoinAwareSyncStrategy s) = ja_tracksNode name s"

fun sync_name :: "ISyncStrategy \<Rightarrow> string" where
  "sync_name NoSyncStrategy = ''NoSyncStrategy''"
| "sync_name (JoinAwareSyncStrategy s) = ''JoinAwareSyncStrategy''"

fun sync_clone :: "ISyncStrategy \<Rightarrow> ISyncStrategy" where
  "sync_clone NoSyncStrategy = NoSyncStrategy"
| "sync_clone (JoinAwareSyncStrategy s) = JoinAwareSyncStrategy (ja_clone s)"

section \<open>Lemmas on paths\<close>

fun route :: "CompiledGraph \<Rightarrow> nat list \<Rightarrow> bool" where
  "route g [] = False"
| "route g [x] = True"
| "route g (x # y # q) \<longleftrightarrow> y \<in> set (successors g x) \<and> route g (y # q)"

definition simple_routes :: "CompiledGraph \<Rightarrow> nat \<Rightarrow> nat \<Rightarrow> nat list set" where
  "simple_routes g source dest = {q. route g q \<and> hd q = source \<and> last q = dest \<and> distinct q}"

lemma simple_routes_dest: "simple_routes g dest dest = {[dest]}"
proof -
  have "q = [dest]" if "q \<in> simple_routes g dest dest" for q
    using that by (cases "(g, q)" rule: route.cases) (auto simp: simple_routes_def split: if_splits)
  then show ?thesis by (auto simp: simple_routes_def)
qed

lemma simple_routes_step:
  assumes "current \<noteq> dest"
  shows "q \<in> simple_routes g current dest \<longleftrightarrow>
    (\<exists>nb q'. q = current # q' \<and> nb \<in> set (successors g current) \<and> q' \<in> simple_routes g nb dest \<and> current \<notin> set q')"
proof (cases "(g, q)" rule: route.cases)
  case (3 g x y r)
  then show ?thesis using assms by (auto simp: simple_routes_def)
next
  case (2 g x)
  then show ?thesis using assms by (auto simp: simple_routes_def)
qed (auto simp: simple_routes_def)

lemma findAllPathsDFS_routes:
  assumes "current \<notin> set visited"
  shows "set (findAllPathsDFS g current dest path visited) =
    (\<lambda>q. butlast (tl (path @ q))) ` {q \<in> simple_routes g current dest. set q \<inter> set visited = {} \<and> 2 \<le> length path + length q}"
  using assms
proof (induction g current dest path visited rule: findAllPathsDFS.induct)
  case (1 g current dest path visited)
  show ?case
  proof (cases "current = dest")
    case True
    then show ?thesis
      using "1.prems" by (subst findAllPathsDFS.simps) (auto simp: simple_routes_dest Let_def)
  next
    case False
    let ?v = "List.insert current visited" and ?p = "path @ [current]"
    have IH: "set (findAllPathsDFS g nb dest ?p ?v) =
        (\<lambda>q. butlast (tl (?p @ q))) ` {q \<in> simple_routes g nb dest. set q \<inter> set ?v = {} \<and> 2 \<le> length ?p + length q}"
      if "nb \<in> set (successors g current)" "nb \<notin> set ?v" for nb
      using "1.IH" [OF refl refl False that] that(2) by blast
    have step: "set (findAllPathsDFS g current dest path visited) =
        (\<Union>nb \<in> {nb \<in> set (successors g current). nb \<notin> set ?v}. set (findAllPathsDFS g nb dest ?p ?v))"
      using False by (subst findAllPathsDFS.simps) (auto simp: Let_def split: if_splits)
    have hd_q: "nb \<in> set q" if "q \<in> simple_routes g nb dest" for nb q
      using that by (cases q) (auto simp: simple_routes_def)
    have "{q \<in> simple_routes g current dest. set q \<inter> set visited = {} \<and> 2 \<le> length path + length q} =
        (\<Union>nb \<in> {nb \<in> set (successors g current). nb \<notin> set ?v}.
           (#) current ` {q \<in> simple_routes g nb dest. set q \<inter> set ?v = {} \<and> 2 \<le> length ?p + length q})"
      using "1.prems" hd_q unfolding simple_routes_step [OF False]
      by (auto simp: image_iff) (metis disjoint_iff hd_q)
    then show ?thesis unfolding step by (simp add: image_UN image_image IH)
  qed
qed

text \<open>In an acyclic graph every route is simple.\<close>

definition succ_rel :: "CompiledGraph \<Rightarrow> (nat \<times> nat) set" where
  "succ_rel g = {(i, j). j \<in> set (successors g i)}"

lemma route_reaches: "route g (x # q) \<Longrightarrow> y \<in> set q \<Longrightarrow> (x, y) \<in> (succ_rel g)\<^sup>+"
proof (induction q arbitrary: x)
  case (Cons z q)
  then have "(x, z) \<in> succ_rel g" by (simp add: succ_rel_def)
  then show ?case using Cons by (auto intro: trancl_into_trancl2)
qed simp

lemma route_distinct: "acyclic (succ_rel g) \<Longrightarrow> route g q \<Longrightarrow> distinct q"
proof (induction q)
  case (Cons x q)
  have "x \<notin> set q" using route_reaches [OF Cons.prems(2)] Cons.prems(1) by (auto simp: acyclic_def)
  moreover have "distinct q" using Cons by (cases q) auto
  ultimately show ?case by simp
qed simp

lemma findAllPaths_routes:
  assumes "acyclic (succ_rel g)" and "source \<noteq> dest"
  shows "set (findAllPaths g source dest) = {p. route g (source # p @ [dest])}"
proof -
  have "set (findAllPaths g source dest) = (\<lambda>q. butlast (tl q)) ` simple_routes g source dest"
    unfolding findAllPaths_def using assms(2)
    by (subst findAllPathsDFS_routes) (auto simp: simple_routes_def Suc_le_eq elim: route.elims intro!: image_cong)
  moreover have "q \<in> simple_routes g source dest \<longleftrightarrow> (\<exists>p. q = source # p @ [dest] \<and> route g q)" for q
  proof
    assume q: "q \<in> simple_routes g source dest"
    then obtain r where r: "q = source # r" by (cases q) (auto simp: simple_routes_def)
    then have "r \<noteq> []" "last r = dest" using q assms(2) by (auto simp: simple_routes_def split: if_splits)
    then have "r = butlast r @ [dest]" using append_butlast_last_id by metis
    then show "\<exists>p. q = source # p @ [dest] \<and> route g q" using q r by (auto simp: simple_routes_def)
  next
    assume "\<exists>p. q = source # p @ [dest] \<and> route g q"
    then show "q \<in> simple_routes g source dest" using route_distinct [OF assms(1)] by (auto simp: simple_routes_def)
  qed
  ultimately show ?thesis
    by (simp add: set_eq_iff image_iff) (metis butlast_snoc list.sel(3))
qed

section \<open>Lemmas on the fork search\<close>

text \<open>The two neighbour tables of a compiled graph agree, without repetition and without cycles.\<close>

definition linked_graph :: "CompiledGraph \<Rightarrow> bool" where
  "linked_graph g \<longleftrightarrow> (\<forall>i j. i \<in> set (predecessors g j) \<longleftrightarrow> (i, j) \<in> succ_rel g) \<and>
     (\<forall>j. distinct (predecessors g j)) \<and> acyclic (succ_rel g)"

lemma compiled_linked:
  assumes "wf_graph ni gr" and "compile_fits ni gr" and "compile ni gr = Some (ResOk g)"
  shows "linked_graph g \<and> length (cg_successors g) = length (m_nodes gr)"
proof -
  obtain order where g: "g = compiled_with ni gr order" using compile_okD [OF assms] by metis
  note wf = assms(1)
  have bound: "i < length (m_nodes gr) \<and> j < length (m_nodes gr)" if "(i, j) \<in> index_rel gr" for i j
    using that node_index(1) [OF wf] wf_graphD(3,4) [OF wf] by (auto simp: index_rel_def)
  have succ: "j \<in> set (successors g i) \<longleftrightarrow> (i, j) \<in> index_rel gr" for i j
  proof (cases "i < length (m_nodes gr)")
    case True
    have "source_node e = m_nodes gr ! i \<longleftrightarrow> node_index gr (source_node e) = i" if "e \<in> set (m_edges gr)" for e
      using node_index_eq_iff [OF wf wf_graphD(3) [OF wf that] True] by auto
    then show ?thesis using True by (auto simp: g compiled_with_simps successors_def index_rel_def)
  next
    case False
    then show ?thesis using bound by (auto simp: g compiled_with_simps successors_def)
  qed
  have pred: "i \<in> set (predecessors g j) \<longleftrightarrow> (i, j) \<in> index_rel gr" for i j
  proof (cases "j < length (m_nodes gr)")
    case True
    have "dest_node e = m_nodes gr ! j \<longleftrightarrow> node_index gr (dest_node e) = j" if "e \<in> set (m_edges gr)" for e
      using node_index_eq_iff [OF wf wf_graphD(4) [OF wf that] True] by auto
    then show ?thesis using True by (auto simp: g compiled_with_simps predecessors_def index_rel_def)
  next
    case False
    then show ?thesis using bound by (auto simp: g compiled_with_simps predecessors_def)
  qed
  have "distinct (predecessors g j)" for j by (auto simp: g compiled_with_simps predecessors_def)
  moreover have "succ_rel g = index_rel gr" by (auto simp: succ_rel_def succ)
  moreover have "acyclic (index_rel gr)"
    using compile_errorCode [OF assms(1,2)] assms(3) index_rel_acyclic [OF wf] by (auto split: if_splits)
  ultimately show ?thesis using pred by (simp add: linked_graph_def g compiled_with_simps)
qed

lemma expand_node_grows:
  "\<exists>new. expand_node preds (r, q) = (r @ new, q @ new) \<and> set new = set preds - set r \<and> (distinct r \<longrightarrow> distinct (r @ new))"
proof (induction preds arbitrary: r q)
  case (Cons p preds)
  show ?case
  proof (cases "p \<in> set r")
    case True
    then show ?thesis using Cons [of r q] by auto
  next
    case False
    obtain new where "expand_node preds (r @ [p], q @ [p]) = ((r @ [p]) @ new, (q @ [p]) @ new)"
      "set new = set preds - set (r @ [p])" "distinct (r @ [p]) \<longrightarrow> distinct ((r @ [p]) @ new)"
      using Cons [of "r @ [p]" "q @ [p]"] by blast
    then show ?thesis using False by (intro exI [of _ "p # new"]) auto
  qed
qed simp

lemma expand_source_grows:
  "n \<le> length q \<Longrightarrow> \<exists>new. expand_source g n (r, q) = (r @ new, drop n q @ new) \<and>
     (distinct r \<longrightarrow> distinct (r @ new)) \<and> (\<Union>c\<in>set (take n q). set (predecessors g c)) \<subseteq> set (r @ new) \<and>
     set new \<subseteq> (\<Union>c\<in>set (take n q). set (predecessors g c))"
proof (induction n arbitrary: r q)
  case (Suc n)
  then obtain c q' where q: "q = c # q'" by (cases q) auto
  obtain new where new: "expand_node (predecessors g c) (r, q') = (r @ new, q' @ new)"
    "set new = set (predecessors g c) - set r" "distinct r \<longrightarrow> distinct (r @ new)"
    using expand_node_grows by metis
  have n: "n \<le> length q'" using Suc.prems q by simp
  then obtain more where more: "expand_source g n (r @ new, q' @ new) = ((r @ new) @ more, drop n (q' @ new) @ more)"
    "distinct (r @ new) \<longrightarrow> distinct ((r @ new) @ more)"
    "(\<Union>c\<in>set (take n (q' @ new)). set (predecessors g c)) \<subseteq> set ((r @ new) @ more)"
    "set more \<subseteq> (\<Union>c\<in>set (take n (q' @ new)). set (predecessors g c))"
    using Suc.IH [of "q' @ new" "r @ new"] by auto
  show ?case
    using n new more q by (intro exI [of _ "new @ more"]) auto
qed simp

text \<open>What holds of the search from the predecessor \<open>p\<close> after \<open>m\<close> rounds.\<close>

definition search_ok :: "CompiledGraph \<Rightarrow> nat \<Rightarrow> nat \<Rightarrow> nat list \<times> nat list \<Rightarrow> bool" where
  "search_ok g m p st \<longleftrightarrow> (case st of (r, q) \<Rightarrow> p \<in> set r \<and> set q \<subseteq> set r \<and> distinct r \<and>
     (\<forall>n\<in>set r. (n, p) \<in> (succ_rel g)\<^sup>*) \<and>
     (\<forall>n\<in>set r - set q. set (predecessors g n) \<subseteq> set r) \<and> (q = [] \<or> m < length r))"

lemma search_ok_step:
  assumes "linked_graph g" and "search_ok g m p (r, q)"
  shows "search_ok g (Suc m) p (expand_source g (length q) (r, q))"
proof -
  obtain new where new: "expand_source g (length q) (r, q) = (r @ new, new)" "distinct r \<longrightarrow> distinct (r @ new)"
    "(\<Union>c\<in>set q. set (predecessors g c)) \<subseteq> set (r @ new)" "set new \<subseteq> (\<Union>c\<in>set q. set (predecessors g c))"
    using expand_source_grows [of "length q" q g r] by auto
  have anc: "(n, p) \<in> (succ_rel g)\<^sup>*" if n: "n \<in> set new" for n
  proof -
    obtain c where "c \<in> set q" "n \<in> set (predecessors g c)" using n new(4) by blast
    then have "(n, c) \<in> succ_rel g" "(c, p) \<in> (succ_rel g)\<^sup>*"
      using assms by (auto simp: linked_graph_def search_ok_def)
    then show ?thesis by (rule converse_rtrancl_into_rtrancl)
  qed
  have closed: "set (predecessors g n) \<subseteq> set (r @ new)" if "n \<in> set r" for n
    using that assms(2) new(3) by (cases "n \<in> set q") (auto simp: search_ok_def)
  have len: "new = [] \<or> Suc m < length (r @ new)"
  proof (cases "q = []")
    case True
    then show ?thesis using new(4) by simp
  next
    case False
    then have "m < length r" using assms(2) by (simp add: search_ok_def)
    then show ?thesis by (cases new) auto
  qed
  show ?thesis using assms(2) new(2) anc closed len unfolding new(1) search_ok_def by auto
qed

lemma search_ok_next:
  assumes "linked_graph g" and "list_all2 (search_ok g m) preds sources"
  shows "list_all2 (search_ok g (Suc m)) preds (map (\<lambda>(r, q). expand_source g (length q) (r, q)) sources)"
  unfolding list_all2_map2 using assms(2)
proof (rule list_all2_mono)
  fix p st assume "search_ok g m p st"
  then show "search_ok g (Suc m) p ((\<lambda>(r, q). expand_source g (length q) (r, q)) st)"
    using search_ok_step [OF assms(1)] by (cases st) simp
qed

lemma search_ok_closed:
  assumes "linked_graph g" and "search_ok g m p (r, [])" and "(c, p) \<in> (succ_rel g)\<^sup>*"
  shows "c \<in> set r"
  using assms(3)
proof (induction rule: converse_rtrancl_induct)
  case base
  then show ?case using assms(2) by (simp add: search_ok_def)
next
  case (step c n)
  then have "c \<in> set (predecessors g n)" using assms(1) by (simp add: linked_graph_def)
  then show ?case using step.IH assms(2) by (auto simp: search_ok_def)
qed

text \<open>The nodes that reach every predecessor and have more than one successor.\<close>

definition common_forks :: "CompiledGraph \<Rightarrow> nat list \<Rightarrow> nat set" where
  "common_forks g preds = {c. is_fork g c \<and> (\<forall>p\<in>set preds. (c, p) \<in> (succ_rel g)\<^sup>*)}"

lemma common_forksD: "c \<in> common_forks g preds \<Longrightarrow> is_fork g c"
  by (simp add: common_forks_def)

lemma common_fork_found:
  assumes "list_all2 (search_ok g m) preds sources" and "c \<in> set (fst (hd sources))" and "common_fork g sources c"
  shows "c \<in> common_forks g preds"
proof -
  have "c \<in> set (fst st)" if "st \<in> set sources" for st
    using that assms(2,3) by (cases sources) (auto simp: common_fork_def list_all_iff)
  then have "(c, p) \<in> (succ_rel g)\<^sup>*" if p: "p \<in> set preds" for p
  proof -
    obtain k where "k < length preds" "p = preds ! k" using p by (metis in_set_conv_nth)
    then have "search_ok g m p (sources ! k)" "sources ! k \<in> set sources"
      using assms(1) by (auto simp: list_all2_conv_all_nth)
    then show ?thesis using \<open>\<And>st. st \<in> set sources \<Longrightarrow> c \<in> set (fst st)\<close> by (auto simp: search_ok_def split: prod.splits)
  qed
  then show ?thesis using assms(3) by (simp add: common_forks_def common_fork_def)
qed

lemma search_fork_sound:
  assumes "linked_graph g" and "\<And>xs. set (ord xs) = set xs" and "preds \<noteq> []"
    and "list_all2 (search_ok g m) preds sources" and "search_fork ord g k sources = Some c"
  shows "c \<in> common_forks g preds"
  using assms(4,5)
proof (induction k arbitrary: m sources)
  case (Suc k)
  show ?case
  proof (cases "find (common_fork g sources) (ord (fst (hd sources)))")
    case (Some d)
    then have "find (common_fork g sources) (ord (fst (hd sources))) = Some c" using Suc.prems(2) by simp
    from find_SomeD [OF this] have "common_fork g sources c" "c \<in> set (ord (fst (hd sources)))" by simp_all
    then show ?thesis using common_fork_found [OF Suc.prems(1)] assms(2) by simp
  next
    case None
    let ?next = "map (\<lambda>(r, q). expand_source g (length q) (r, q)) sources"
    have "list_all2 (search_ok g (Suc m)) preds ?next"
      by (rule search_ok_next [OF assms(1) Suc.prems(1)])
    moreover have "search_fork ord g k ?next = Some c"
      using None Suc.prems(2) by (simp split: if_splits)
    ultimately show ?thesis using Suc.IH by blast
  qed
qed simp

lemma search_ok_bound:
  assumes "linked_graph g" and "search_ok g m p (r, q)" and "p < length (cg_successors g)"
  shows "length r \<le> length (cg_successors g)"
proof -
  have "n < length (cg_successors g)" if "n \<in> set r" for n
  proof -
    have "(n, p) \<in> (succ_rel g)\<^sup>*" using that assms(2) by (simp add: search_ok_def)
    then show ?thesis
      using assms(3) by (cases rule: converse_rtranclE) (auto simp: succ_rel_def successors_def split: if_splits)
  qed
  then have "card (set r) \<le> card {..<length (cg_successors g)}" by (intro card_mono) auto
  then show ?thesis using assms(2) by (simp add: search_ok_def distinct_card)
qed

lemma search_fork_complete:
  assumes "linked_graph g" and "\<And>xs. set (ord xs) = set xs" and "preds \<noteq> []"
    and "\<forall>p\<in>set preds. p < length (cg_successors g)"
    and "list_all2 (search_ok g m) preds sources" and "length (cg_successors g) < k + m" and "0 < k"
    and "search_fork ord g k sources = None"
  shows "common_forks g preds = {}"
  using assms(5-8)
proof (induction k arbitrary: m sources)
  case (Suc k)
  have none: "find (common_fork g sources) (ord (fst (hd sources))) = None"
    using Suc.prems(4) by (auto split: option.splits)
  show ?case
  proof (cases "list_all (\<lambda>(r, q). q = []) sources")
    case True
    have reached: "c \<in> set (fst st)" if "c \<in> common_forks g preds" "st \<in> set sources" for c st
    proof -
      obtain i where i: "i < length sources" "st = sources ! i" using \<open>st \<in> set sources\<close> by (metis in_set_conv_nth)
      then have ok: "search_ok g m (preds ! i) st" "preds ! i \<in> set preds"
        using Suc.prems(1) by (auto simp: list_all2_conv_all_nth)
      moreover have "(c, preds ! i) \<in> (succ_rel g)\<^sup>*" using that(1) ok(2) by (simp add: common_forks_def)
      moreover have "snd st = []" using True \<open>st \<in> set sources\<close> by (auto simp: list_all_iff)
      ultimately show ?thesis using search_ok_closed [OF assms(1)] by (cases st) auto
    qed
    have "sources \<noteq> []" using Suc.prems(1) assms(3) by (auto simp: list_all2_conv_all_nth)
    then have src: "hd sources \<in> set sources" "\<And>st. st \<in> set (tl sources) \<Longrightarrow> st \<in> set sources"
      using list.set_sel by metis+
    have "common_fork g sources c \<and> c \<in> set (ord (fst (hd sources)))" if "c \<in> common_forks g preds" for c
      using reached [OF that src(1)] reached [OF that src(2)] common_forksD [OF that] assms(2)
      by (simp add: common_fork_def list_all_iff case_prod_beta)
    then show ?thesis using none [unfolded find_None_iff] by blast
  next
    case False
    let ?next = "map (\<lambda>(r, q). expand_source g (length q) (r, q)) sources"
    obtain i where i: "i < length sources" "snd (sources ! i) \<noteq> []"
      using False by (metis (mono_tags, lifting) case_prod_beta in_set_conv_nth list_all_iff)
    obtain r q where st: "sources ! i = (r, q)" by (cases "sources ! i")
    have "search_ok g m (preds ! i) (r, q)" "preds ! i < length (cg_successors g)"
      using Suc.prems(1) assms(4) i(1) st by (auto simp: list_all2_conv_all_nth)
    then have "length r \<le> length (cg_successors g)" "m < length r"
      using search_ok_bound [OF assms(1)] i(2) st by (blast, simp add: search_ok_def)
    then have "m < length (cg_successors g)" by simp
    then have "length (cg_successors g) < k + Suc m" "0 < k" using Suc.prems(2) by auto
    moreover have "list_all2 (search_ok g (Suc m)) preds ?next"
      by (rule search_ok_next [OF assms(1) Suc.prems(1)])
    moreover have "search_fork ord g k ?next = None" using none False Suc.prems(4) by simp
    ultimately show ?thesis using Suc.IH by blast
  qed
qed simp

lemma count_distinct: "distinct xs \<Longrightarrow> count_list xs c = (if c \<in> set xs then 1 else 0)"
  by (induction xs) auto

lemma count_concat_all:
  assumes "\<And>p. distinct (f p)"
  shows "count_list (concat (map f ps)) c \<le> length ps \<and>
    (count_list (concat (map f ps)) c = length ps \<longrightarrow> (\<forall>p\<in>set ps. c \<in> set (f p)))"
proof (induction ps)
  case (Cons p ps)
  have "count_list (concat (map f (p # ps))) c = (if c \<in> set (f p) then 1 else 0) + count_list (concat (map f ps)) c"
    by (simp add: count_distinct [OF assms])
  then show ?case using Cons by (cases "c \<in> set (f p)") simp_all
qed simp

lemma parent_fork_sound:
  assumes "linked_graph g" and "\<And>xs. set (ord xs) = set xs" and "parent_fork ord g j = Some c"
  shows "c \<in> common_forks g (predecessors g j)"
proof -
  have c: "count_list (grandparents g j) c = length (predecessors g j)" "is_fork g c"
    using find_SomeD [OF assms(3) [unfolded parent_fork_def Let_def]] by simp_all
  moreover have "distinct (predecessors g p)" for p using assms(1) by (simp add: linked_graph_def)
  ultimately have "\<forall>p\<in>set (predecessors g j). c \<in> set (predecessors g p)"
    using count_concat_all [of "predecessors g" "predecessors g j" c] unfolding grandparents_def by simp
  then show ?thesis using c(2) assms(1) by (auto simp: common_forks_def linked_graph_def)
qed

lemma findLowestCommonFork_exact:
  assumes "linked_graph g" and "\<And>xs. set (ord xs) = set xs" and "length (cg_successors g) < 1000"
    and "2 \<le> length (predecessors g j)"
  shows "fs_valid (findLowestCommonFork ord g j) \<longleftrightarrow> common_forks g (predecessors g j) \<noteq> {}"
    and "fs_valid (findLowestCommonFork ord g j) \<Longrightarrow>
      fs_fork_node (findLowestCommonFork ord g j) \<in> common_forks g (predecessors g j) \<and>
      fs_paths (findLowestCommonFork ord g j) = findAllPaths g (fs_fork_node (findLowestCommonFork ord g j)) j"
proof -
  let ?ps = "predecessors g j" and ?s = "map (\<lambda>p. ([p], [p])) (predecessors g j)"
  have start: "list_all2 (search_ok g 0) ?ps ?s"
    unfolding list_all2_map2 by (rule list_all2_refl) (simp add: search_ok_def)
  have ne: "?ps \<noteq> []" using assms(4) by auto
  have range: "\<forall>p\<in>set ?ps. p < length (cg_successors g)"
    using assms(1) by (auto simp: linked_graph_def succ_rel_def successors_def split: if_splits)
  define found where "found = search_fork ord g 1000 ?s"
  have sound: "c \<in> common_forks g ?ps" if "found = Some c" for c
    using search_fork_sound [OF assms(1,2) ne start] that unfolding found_def by blast
  have parent: "c \<in> common_forks g ?ps" if "parent_fork ord g j = Some c" for c
    using parent_fork_sound [OF assms(1,2) that] .
  have complete: "common_forks g ?ps = {}" if "found = None"
    using search_fork_complete [OF assms(1,2) ne range start _ _ that [unfolded found_def]] assms(3) by linarith
  have result: "findLowestCommonFork ord g j = (case (case parent_fork ord g j of Some c \<Rightarrow> Some c | None \<Rightarrow> found) of
      Some c \<Rightarrow> \<lparr> fs_valid = True, fs_fork_node = c, fs_paths = findAllPaths g c j \<rparr>
    | None \<Rightarrow> \<lparr> fs_valid = False, fs_fork_node = k_invalid_index, fs_paths = [] \<rparr>)"
    using assms(4) unfolding findLowestCommonFork_def found_def by (cases "parent_fork ord g j") (simp_all add: Let_def)
  show "fs_valid (findLowestCommonFork ord g j) \<longleftrightarrow> common_forks g ?ps \<noteq> {}"
    using sound parent complete unfolding result by (cases "parent_fork ord g j"; cases found) auto
  show "fs_fork_node (findLowestCommonFork ord g j) \<in> common_forks g ?ps \<and>
      fs_paths (findLowestCommonFork ord g j) = findAllPaths g (fs_fork_node (findLowestCommonFork ord g j)) j"
    if "fs_valid (findLowestCommonFork ord g j)"
    using that sound parent unfolding result by (cases "parent_fork ord g j"; cases found) auto
qed

section \<open>Lemmas on coordinated drops\<close>

lemma getSyncGroup_reportDrop:
  "getSyncGroup k (co_reportDrop gid b f reason c) =
     (if k = gid then map_option (\<lambda>g. snd (reportFrameDropped b f reason g)) (getSyncGroup k c) else getSyncGroup k c)"
proof -
  have "map_of (map (\<lambda>(i, g). if i = gid then (i, h g) else (i, g)) xs) k =
      (if k = gid then map_option h (map_of xs k) else map_of xs k)" for h and xs :: "(SyncGroupId \<times> SyncGroup) list"
    by (induction xs) auto
  then show ?thesis
    by (cases "map_of (co_groups c) gid") (auto simp: co_reportDrop_def getSyncGroup_def on_group_def Let_def)
qed

definition processed_of :: "BranchId \<Rightarrow> SyncGroup \<Rightarrow> FrameId option" where
  "processed_of k g = map_option processed_frame (map_of (sg_branches g) k)"

lemma processed_of_None [simp]: "hasBranch k g \<longleftrightarrow> processed_of k g \<noteq> None"
  by (simp add: hasBranch_def processed_of_def)

lemma processed_of_drop [simp]: "processed_of k (snd (reportFrameDropped b f reason g)) = processed_of k g"
  by (cases "k = b"; cases "map_of (sg_branches g) k")
    (auto simp add: processed_of_def reportFrameDropped_def Let_def on_branch_def map_of_update map_of_update_if simp del: map_map processed_of_None)

text \<open>A group in which \<open>b\<close> can report frame \<open>f\<close> to its sibling \<open>sib\<close>, and one in which it has.\<close>

definition can_report :: "SyncGroupId \<Rightarrow> BranchId \<Rightarrow> BranchId \<Rightarrow> FrameId \<Rightarrow> SyncCoordinator \<Rightarrow> bool" where
  "can_report gid b sib f c \<longleftrightarrow> (\<exists>g n. getSyncGroup gid c = Some g \<and> hasBranch b g \<and> processed_of sib g = Some n \<and> n < f)"

definition group_pending :: "SyncGroupId \<Rightarrow> BranchId \<Rightarrow> FrameId \<Rightarrow> SyncCoordinator \<Rightarrow> bool" where
  "group_pending gid sib f c \<longleftrightarrow> (\<exists>g. getSyncGroup gid c = Some g \<and> pending_at sib f g)"

lemma can_report_step: "can_report gid b sib f c \<Longrightarrow> can_report gid b sib f (co_reportDrop gid' b' f' reason c)"
  by (cases "gid = gid'") (auto simp: can_report_def getSyncGroup_reportDrop)

lemma group_pending_step: "group_pending gid sib f c \<Longrightarrow> group_pending gid sib f (co_reportDrop gid' b' f' reason c)"
  using pending_step [of sib f _ "Dropped b' f' reason"] by (auto simp: group_pending_def getSyncGroup_reportDrop)

lemma group_pending_report:
  assumes "can_report gid b sib f c" and "sib \<noteq> b"
  shows "group_pending gid sib f (co_reportDrop gid b f reason c)"
proof -
  obtain g s where "getSyncGroup gid c = Some g" "hasBranch b g" "map_of (sg_branches g) sib = Some s" "processed_frame s < f"
    using assms(1) by (auto simp: can_report_def processed_of_def)
  then show ?thesis
    using dropped_pending [of b g sib s f reason] assms(2) by (simp add: group_pending_def getSyncGroup_reportDrop)
qed

lemma report_each_pending: "group_pending gid sib f c \<Longrightarrow> group_pending gid sib f (snd (report_each ms f' reason (a, c)))"
  by (induction ms arbitrary: a c) (auto simp: Let_def group_pending_step)

lemma report_each_reports:
  assumes "(gid, b) \<in> set ms" and "can_report gid b sib f c" and "sib \<noteq> b"
  shows "group_pending gid sib f (snd (report_each ms f reason (a, c)))"
  using assms(1,2)
proof (induction ms arbitrary: a c)
  case (Cons m ms)
  obtain gid' b' where m: "m = (gid', b')" by (cases m)
  show ?case
  proof (cases "(gid, b) \<in> set ms")
    case True
    then show ?thesis using Cons.IH Cons.prems(2) can_report_step m by (simp add: Let_def)
  next
    case False
    then have "m = (gid, b)" using Cons.prems(1) by simp
    then show ?thesis
      using report_each_pending group_pending_report [OF Cons.prems(2) assms(3)] by (simp add: Let_def)
  qed
qed simp

lemma sibling_drop:
  assumes "(gid, b) \<in> set (multi_mappings s x)" and "(gid, sib) \<in> set (multi_mappings s y)" and "sib \<noteq> b"
    and "can_report gid b sib f (ja_coordinator s)"
  shows "ja_shouldDrop y f (snd (ja_reportDrop x f reason s))"
proof -
  let ?s = "snd (ja_reportDrop x f reason s)"
  have "group_pending gid sib f (ja_coordinator ?s)"
    using report_each_reports [OF assms(1,4,3)] by (simp add: ja_reportDrop_def case_prod_beta)
  then have "f \<in> set (co_getPendingSyncDrops gid sib (ja_coordinator ?s))"
    by (auto simp: group_pending_def pending_at_def co_getPendingSyncDrops_def)
  moreover have "(gid, sib) \<in> set (multi_mappings ?s y)"
    using assms(2) by (simp add: ja_reportDrop_def case_prod_beta multi_mappings_def)
  ultimately show ?thesis by (auto simp: ja_shouldDrop_def list_ex_iff)
qed

end
