(* ===== verification/Join_Drops.thy ===== *)
theory Join_Drops
  imports Join_Sync
begin

text \<open>
  What the join-aware strategy of \<open>src/join_aware_sync_strategy.hpp\<close> achieves: its topology
  analysis finds a common fork exactly when there is one, the paths it maps are all the paths
  from that fork to the join, and a drop reported on one of them reaches all the others.
\<close>

section \<open>Names\<close>

lemma to_string_value: "foldl (\<lambda>a c. 10 * a + (of_char c - 48)) 0 (to_string n) = n"
proof (induction n rule: to_string.induct)
  case (1 n)
  then show ?case by (subst to_string.simps) simp
qed

lemma to_string_inject: "to_string m = to_string n \<longleftrightarrow> m = n"
  using to_string_value by metis

lemma to_string_no_underscore: "CHR ''_'' \<notin> set (to_string n)"
proof (induction n rule: to_string.induct)
  case (1 n)
  have "CHR ''_'' \<noteq> (char_of (48 + k) :: char)" if "k < 10" for k :: nat
  proof
    assume "CHR ''_'' = (char_of (48 + k) :: char)"
    then have "of_char CHR ''_'' = (of_char (char_of (48 + k) :: char) :: nat)" by simp
    then show False using that by simp
  qed
  then have "CHR ''_'' \<noteq> (char_of (48 + n mod 10) :: char)" "n < 10 \<Longrightarrow> CHR ''_'' \<noteq> (char_of (48 + n) :: char)" by simp_all
  then show ?case using 1 by (subst to_string.simps) auto
qed

lemma group_name_inject: "group_name m x y = group_name n x' y' \<Longrightarrow> m = n"
proof -
  assume "group_name m x y = group_name n x' y'"
  then have "takeWhile (\<lambda>c. c \<noteq> CHR ''_'') (to_string m @ CHR ''_'' # x @ ''_to_'' @ y) =
      takeWhile (\<lambda>c. c \<noteq> CHR ''_'') (to_string n @ CHR ''_'' # x' @ ''_to_'' @ y')"
    by (simp add: group_name_def)
  moreover have "takeWhile (\<lambda>c. c \<noteq> CHR ''_'') (to_string k @ CHR ''_'' # r) = to_string k" for k r
    using to_string_no_underscore [of k] by (subst takeWhile_append2) auto
  ultimately show "m = n" by (simp add: to_string_inject)
qed

lemma branch_name_inject [simp]: "branch_name m = branch_name n \<longleftrightarrow> m = n"
  by (simp add: branch_name_def to_string_inject)

section \<open>Mappings\<close>

lemma addNodeMapping_mappings:
  "set (multi_mappings (addNodeMapping x gid b s) y) = set (multi_mappings s y) \<union> (if x = y then {(gid, b)} else {})"
  by (auto simp: addNodeMapping_def multi_mappings_def map_push_back_def Let_def split: option.splits)

lemma addNodeMapping_coordinator [simp]: "ja_coordinator (addNodeMapping x gid b s) = ja_coordinator s"
  by (simp add: addNodeMapping_def Let_def)

lemma map_path_mappings:
  "set (multi_mappings (foldl (\<lambda>s i. addNodeMapping (node_name ni g i) gid b s) s path) y) =
     set (multi_mappings s y) \<union> (if y \<in> node_name ni g ` set path then {(gid, b)} else {})"
  by (induction path arbitrary: s) (auto simp: addNodeMapping_mappings)

lemma map_path_coordinator [simp]:
  "ja_coordinator (foldl (\<lambda>s i. addNodeMapping (node_name ni g i) gid b s) s path) = ja_coordinator s"
  by (induction path arbitrary: s) auto

lemma map_paths_coordinator [simp]: "ja_coordinator (map_paths ni g gid k paths s) = ja_coordinator s"
  by (induction paths arbitrary: k s) auto

lemma map_paths_mono: "set (multi_mappings s y) \<subseteq> set (multi_mappings (map_paths ni g gid k paths s) y)"
proof (induction paths arbitrary: k s)
  case (Cons path paths)
  show ?case using Cons map_path_mappings by (force simp: subset_iff)
qed simp

lemma map_paths_covers:
  "i < length paths \<Longrightarrow> x \<in> set (paths ! i) \<Longrightarrow>
   (gid, branch_name (k + i)) \<in> set (multi_mappings (map_paths ni g gid k paths s) (node_name ni g x))"
proof (induction paths arbitrary: k s i)
  case (Cons path paths)
  show ?case
  proof (cases i)
    case 0
    let ?s = "foldl (\<lambda>s i. addNodeMapping (node_name ni g i) gid (branch_name k) s) s path"
    have "(gid, branch_name k) \<in> set (multi_mappings ?s (node_name ni g x))"
      using Cons.prems 0 by (simp add: map_path_mappings)
    then show ?thesis
      using map_paths_mono [of ?s "node_name ni g x" ni g gid "Suc k" paths] 0 by auto
  next
    case (Suc j)
    then show ?thesis using Cons.IH [of j "Suc k"] Cons.prems by simp
  qed
qed simp

section \<open>Groups\<close>

lemma addBranches_new:
  "map_of (sg_branches (foldl (\<lambda>g b. sg_addBranch b g) g bs)) b =
     (case map_of (sg_branches g) b of Some s \<Rightarrow> Some s | None \<Rightarrow> if b \<in> set bs then Some (newBranch b) else None)"
  by (induction bs arbitrary: g)
    (auto simp: sg_addBranch_def hasBranch_def map_add_def simp del: processed_of_None split: option.splits)

lemma createSyncGroup_keeps: "getSyncGroup gid c = Some g \<Longrightarrow> getSyncGroup gid (snd (createSyncGroup gid' bs c)) = Some g"
  by (auto simp: createSyncGroup_def getSyncGroup_def)

lemma createSyncGroup_new:
  "\<not> hasSyncGroup gid c \<Longrightarrow>
   getSyncGroup gid (snd (createSyncGroup gid bs c)) = Some (foldl (\<lambda>g b. sg_addBranch b g) (newSyncGroup gid) bs)"
  by (auto simp: createSyncGroup_def getSyncGroup_def hasSyncGroup_def map_add_def)

lemma createSyncGroup_dom:
  "getSyncGroup k (snd (createSyncGroup gid bs c)) \<noteq> None \<Longrightarrow> k = gid \<or> getSyncGroup k c \<noteq> None"
  by (auto simp: createSyncGroup_def getSyncGroup_def hasSyncGroup_def map_add_def split: if_splits option.splits)

text \<open>A registered group for the paths of a join.\<close>

definition covers :: "node_env \<Rightarrow> CompiledGraph \<Rightarrow> nat list list \<Rightarrow> JoinAware \<Rightarrow> SyncGroupId \<Rightarrow> bool" where
  "covers ni g paths s gid \<longleftrightarrow>
     getSyncGroup gid (ja_coordinator s) = Some (foldl (\<lambda>g b. sg_addBranch b g) (newSyncGroup gid) (map branch_name [0..<length paths])) \<and>
     (\<forall>i<length paths. \<forall>x\<in>set (paths ! i). (gid, branch_name i) \<in> set (multi_mappings s (node_name ni g x)))"

lemma covers_map_paths: "covers ni g paths s gid \<Longrightarrow> covers ni g paths (map_paths ni g gid' k ps s) gid"
  using map_paths_mono [of s] unfolding covers_def map_paths_coordinator by blast

lemma multi_mappings_update [simp]:
  "multi_mappings (s \<lparr> ja_coordinator := c \<rparr>) y = multi_mappings s y"
  "multi_mappings (s \<lparr> ja_debugInfo := d \<rparr>) y = multi_mappings s y"
  by (simp_all add: multi_mappings_def)

lemma covers_create:
  "covers ni g paths s gid \<Longrightarrow>
   covers ni g paths (s \<lparr> ja_coordinator := snd (createSyncGroup gid' bs (ja_coordinator s)), ja_debugInfo := d \<rparr>) gid"
  using createSyncGroup_keeps by (simp add: covers_def)

text \<open>One turn of the loop over the joins.\<close>

definition sync_join :: "(nat list \<Rightarrow> nat list) \<Rightarrow> node_env \<Rightarrow> CompiledGraph \<Rightarrow> nat \<Rightarrow> nat \<Rightarrow> JoinAware \<Rightarrow> JoinAware" where
  "sync_join ord ni g n i s =
     (let r = findLowestCommonFork ord g i;
          gid = group_name n (node_name ni g (fs_fork_node r)) (node_name ni g i);
          s = map_paths ni g gid 0 (fs_paths r) s
      in if fs_paths r = [] then s else s \<lparr>
           ja_coordinator := snd (createSyncGroup gid (map branch_name [0..<length (fs_paths r)]) (ja_coordinator s)),
           ja_debugInfo := ja_debugInfo s @ [debug_text ni g gid (node_name ni g (fs_fork_node r)) (node_name ni g i) (fs_paths r)] \<rparr>)"

lemma sync_joins_step:
  "sync_joins ord ni g n (i # joins) s =
     (if fs_valid (findLowestCommonFork ord g i) then sync_joins ord ni g (Suc n) joins (sync_join ord ni g n i s)
      else sync_joins ord ni g n joins s)"
  by (simp add: sync_join_def Let_def)

declare sync_joins.simps(2) [simp del]

lemma covers_sync_join: "covers ni g paths s gid \<Longrightarrow> covers ni g paths (sync_join ord ni g n i s) gid"
  unfolding sync_join_def Let_def by (simp add: covers_map_paths covers_create del: map_paths_coordinator)

lemma sync_joins_keeps: "covers ni g paths s gid \<Longrightarrow> covers ni g paths (sync_joins ord ni g n joins s) gid"
  by (induction joins arbitrary: n s) (auto simp: sync_joins_step covers_sync_join)

lemma sync_join_covers:
  assumes "fs_paths (findLowestCommonFork ord g j) \<noteq> []"
    and "\<not> hasSyncGroup (group_name n (node_name ni g (fs_fork_node (findLowestCommonFork ord g j))) (node_name ni g j)) (ja_coordinator s)"
  shows "\<exists>gid. covers ni g (fs_paths (findLowestCommonFork ord g j)) (sync_join ord ni g n j s) gid"
proof -
  let ?r = "findLowestCommonFork ord g j"
  let ?gid = "group_name n (node_name ni g (fs_fork_node ?r)) (node_name ni g j)"
  have "\<forall>i<length (fs_paths ?r). \<forall>x\<in>set (fs_paths ?r ! i).
      (?gid, branch_name i) \<in> set (multi_mappings (map_paths ni g ?gid 0 (fs_paths ?r) s) (node_name ni g x))"
    using map_paths_covers [of _ "fs_paths ?r" _ ?gid 0] by simp
  then have "covers ni g (fs_paths ?r) (sync_join ord ni g n j s) ?gid"
    using assms(1) createSyncGroup_new [OF assms(2)] unfolding sync_join_def Let_def by (simp add: covers_def)
  then show ?thesis by blast
qed

lemma sync_join_groups:
  "hasSyncGroup gid (ja_coordinator (sync_join ord ni g n i s)) \<Longrightarrow>
   hasSyncGroup gid (ja_coordinator s) \<or> (\<exists>x y. gid = group_name n x y)"
  using createSyncGroup_dom unfolding sync_join_def Let_def by (fastforce simp: hasSyncGroup_def split: if_splits)

lemma sync_joins_covers:
  assumes "j \<in> set joins" and "fs_valid (findLowestCommonFork ord g j)" and "fs_paths (findLowestCommonFork ord g j) \<noteq> []"
    and "\<forall>gid. hasSyncGroup gid (ja_coordinator s) \<longrightarrow> (\<exists>m<n. \<exists>x y. gid = group_name m x y)"
  shows "\<exists>gid. covers ni g (fs_paths (findLowestCommonFork ord g j)) (sync_joins ord ni g n joins s) gid"
  using assms(1,4)
proof (induction joins arbitrary: n s)
  case (Cons i joins)
  let ?r = "findLowestCommonFork ord g i"
  show ?case
  proof (cases "fs_valid ?r")
    case False
    then show ?thesis using Cons assms(2) by (metis set_ConsD sync_joins_step)
  next
    case True
    show ?thesis
    proof (cases "i = j")
      case i: True
      have "\<not> hasSyncGroup (group_name n x y) (ja_coordinator s)" for x y
        using Cons.prems(2) group_name_inject by blast
      then show ?thesis
        using sync_join_covers [OF assms(3)] sync_joins_keeps True i unfolding sync_joins_step by metis
    next
      case False
      have "\<forall>gid. hasSyncGroup gid (ja_coordinator (sync_join ord ni g n i s)) \<longrightarrow> (\<exists>m<Suc n. \<exists>x y. gid = group_name m x y)"
        using Cons.prems(2) sync_join_groups less_Suc_eq by metis
      then show ?thesis using Cons.IH [of "sync_join ord ni g n i s" "Suc n"] Cons.prems(1) False True by (simp add: sync_joins_step)
    qed
  qed
qed simp

lemma ja_initialize_covers:
  assumes "j < nodeCount g" and "nodeCount g < 2 ^ 32" and "1 < cg_inDegree g ! j" and "fs_valid (findLowestCommonFork ord g j)"
    and "fs_paths (findLowestCommonFork ord g j) \<noteq> []"
  shows "\<exists>gid. covers ni g (fs_paths (findLowestCommonFork ord g j)) (ja_initialize ord ni g s) gid"
  unfolding ja_initialize_def Let_def using assms
  by (intro sync_joins_covers) (auto simp: hasSyncGroup_def getSyncGroup_def co_reset_def)

section \<open>Properties\<close>

text \<open>A source, two branches and a join, used to evaluate the results.\<close>

definition diamond_env :: node_env where
  "diamond_env p = \<lparr> getName = to_string p,
     getExpectedInputPorts = (if p = 0 then [] else if p = 3 then [''x'', ''y''] else [''x'']),
     getExpectedOutputPorts = [''o''], portPayloadType = \<lambda>_. TypeVoid \<rparr>"

definition demo_diamond :: Graph where
  "demo_diamond = build_graph diamond_env [AddNode (Some 0), AddNode (Some 1), AddNode (Some 2), AddNode (Some 3),
     AddEdge ''0'' ''o'' ''1'' ''x'', AddEdge ''0'' ''o'' ''2'' ''x'', AddEdge ''1'' ''o'' ''3'' ''x'', AddEdge ''2'' ''o'' ''3'' ''y'']"

lemma digit_names [simp]: "to_string 0 = ''0''" "to_string (Suc 0) = ''1''" "to_string 2 = ''2''" "to_string 3 = ''3''"
  by code_simp+

lemma demo_diamond_parts:
  "m_nodes demo_diamond = [0, 1, 2, 3]"
  "m_edges demo_diamond = [mkEdge 0 ''o'' 1 ''x'', mkEdge 0 ''o'' 2 ''x'', mkEdge 1 ''o'' 3 ''x'', mkEdge 2 ''o'' 3 ''y'']"
  by (simp_all add: demo_diamond_def build_graph_def addNode_def addEdge_def emptyGraph_def diamond_env_def edgeKey_def mkEdge_def nul_def)

lemma demo_diamond_wf: "wf_graph diamond_env demo_diamond"
  by (simp add: demo_diamond_def)

lemma demo_diamond_fits: "compile_fits diamond_env demo_diamond"
  by (simp add: compile_fits_def demo_diamond_parts diamond_env_def)

lemma demo_diamond_compiles: "\<exists>g. compile diamond_env demo_diamond = Some (ResOk g)"
proof -
  have "acyclic (graph_rel demo_diamond)"
    by (rule acyclic_if_rank [where rank = id]) (auto simp: graph_rel_def demo_diamond_parts mkEdge_def)
  moreover have "\<not> starved_port diamond_env demo_diamond p pi" for p pi
    by (auto simp: starved_port_def demo_diamond_parts mkEdge_def port_index_def diamond_env_def less_Suc_eq numeral_2_eq_2)
  moreover obtain r where r: "compile diamond_env demo_diamond = Some r" and "errorCode r = Ok \<longrightarrow> isOk r"
    and "errorCode r = (if m_nodes demo_diamond = [] then GraphEmpty
                    else if \<not> acyclic (graph_rel demo_diamond) then GraphCycleDetected
                    else if \<exists>p pi. starved_port diamond_env demo_diamond p pi then InvalidConfiguration
                    else Ok)"
    using compile_errorCode [OF demo_diamond_wf demo_diamond_fits] by blast
  ultimately have "compile diamond_env demo_diamond = Some r" "isOk r" by (simp_all add: demo_diamond_parts)
  then show ?thesis by (cases r) auto
qed

text \<open>
  C24. The topology analysis is exact: on a compiled graph of fewer than 1000 nodes, whatever
  the order in which the unordered containers are visited, the search from a node with at
  least two predecessors succeeds exactly when some node with more than one successor reaches
  all of those predecessors; it returns such a node, and its paths are all the routes from
  that node to the join, without the two ends.
\<close>

theorem fork_search_exact:
  assumes "wf_graph ni gr" and "compile_fits ni gr" and "compile ni gr = Some (ResOk g)" and "nodeCount g < 1000"
    and "\<And>xs. set (ord xs) = set xs" and "2 \<le> length (predecessors g j)"
  shows "(fs_valid (findLowestCommonFork ord g j) \<longleftrightarrow>
      (\<exists>c. is_fork g c \<and> (\<forall>p\<in>set (predecessors g j). (c, p) \<in> (succ_rel g)\<^sup>*))) \<and>
    (fs_valid (findLowestCommonFork ord g j) \<longrightarrow>
      is_fork g (fs_fork_node (findLowestCommonFork ord g j)) \<and>
      (\<forall>p\<in>set (predecessors g j). (fs_fork_node (findLowestCommonFork ord g j), p) \<in> (succ_rel g)\<^sup>*) \<and>
      set (fs_paths (findLowestCommonFork ord g j)) =
        {path. route g (fs_fork_node (findLowestCommonFork ord g j) # path @ [j])})"
proof -
  let ?r = "findLowestCommonFork ord g j"
  have linked: "linked_graph g" "length (cg_successors g) = length (m_nodes gr)" using compiled_linked [OF assms(1-3)] by simp_all
  obtain order where "g = compiled_with ni gr order" using compile_okD [OF assms(1-3)] by metis
  then have small: "length (cg_successors g) < 1000"
    using assms(4) linked(2) by (simp add: compiled_with_simps nodeCount_def)
  note exact = findLowestCommonFork_exact [OF linked(1) assms(5) small assms(6)]
  have paths: "set (fs_paths ?r) = {path. route g (fs_fork_node ?r # path @ [j])}" if "fs_valid ?r"
  proof -
    have fork: "fs_fork_node ?r \<in> common_forks g (predecessors g j)" using exact(2) [OF that] by simp
    obtain p where "p \<in> set (predecessors g j)" using assms(6) by (cases "predecessors g j") auto
    then have "(fs_fork_node ?r, p) \<in> (succ_rel g)\<^sup>*" "(p, j) \<in> succ_rel g"
      using fork linked(1) by (auto simp: common_forks_def linked_graph_def)
    then have "(fs_fork_node ?r, j) \<in> (succ_rel g)\<^sup>+" by (rule rtrancl_into_trancl1)
    moreover have "acyclic (succ_rel g)" using linked(1) by (simp add: linked_graph_def)
    ultimately have "fs_fork_node ?r \<noteq> j" by (auto simp: acyclic_def)
    then show ?thesis using findAllPaths_routes [OF \<open>acyclic (succ_rel g)\<close>] exact(2) [OF that] by simp
  qed
  show ?thesis using exact(1) exact(2) paths by (auto simp: common_forks_def)
qed

theorem fork_search_exact_witness:
  "\<exists>g. compile diamond_env demo_diamond = Some (ResOk g) \<and> fs_valid (findLowestCommonFork rev g 3) \<and>
     is_fork g (fs_fork_node (findLowestCommonFork rev g 3))"
proof -
  obtain g where g: "compile diamond_env demo_diamond = Some (ResOk g)" using demo_diamond_compiles by blast
  obtain order where c: "g = compiled_with diamond_env demo_diamond order"
    using compile_okD [OF demo_diamond_wf demo_diamond_fits g] by metis
  have links: "predecessors g 3 = [1, 2]" "is_fork g 0" "(0, 1) \<in> succ_rel g" "(0, 2) \<in> succ_rel g" "nodeCount g = 4"
    by (simp_all add: c compiled_with_simps predecessors_def successors_def is_fork_def succ_rel_def nodeCount_def
        demo_diamond_parts mkEdge_def node_index_def index_map_def uniq_def push_unique_def)
  have "2 \<le> length (predecessors g 3)" "nodeCount g < 1000" using links by simp_all
  note exact = fork_search_exact [OF demo_diamond_wf demo_diamond_fits g \<open>nodeCount g < 1000\<close> set_rev \<open>2 \<le> length (predecessors g 3)\<close>]
  have "\<exists>c. is_fork g c \<and> (\<forall>p\<in>set (predecessors g 3). (c, p) \<in> (succ_rel g)\<^sup>*)"
    using links by (intro exI [of _ 0]) auto
  then show ?thesis using exact g by blast
qed

text \<open>
  C25. A drop on one branch of a join reaches all the others: after the strategy has analysed a
  graph, if a node on one path from the fork to the join reports the drop of a frame, every
  node on every other path is told to drop that frame.
\<close>

theorem join_drop_coordinated:
  assumes "j < nodeCount g" and "nodeCount g < 2 ^ 32" and "1 < cg_inDegree g ! j" and "fs_valid (findLowestCommonFork ord g j)"
    and "a < length (fs_paths (findLowestCommonFork ord g j))" and "x \<in> set (fs_paths (findLowestCommonFork ord g j) ! a)"
    and "b < length (fs_paths (findLowestCommonFork ord g j))" and "y \<in> set (fs_paths (findLowestCommonFork ord g j) ! b)"
    and "a \<noteq> b" and "f \<noteq> k_invalid_frame_id"
  shows "sync_shouldDrop (node_name ni g y) f
    (snd (sync_reportDrop (node_name ni g x) f reason (sync_initialize ord ni g (JoinAwareSyncStrategy s))))"
proof -
  let ?paths = "fs_paths (findLowestCommonFork ord g j)" and ?s = "ja_initialize ord ni g s"
  obtain gid where cov: "covers ni g ?paths ?s gid"
    using ja_initialize_covers [OF assms(1-4)] assms(5) by (metis less_nat_zero_code list.size(3))
  have "hasBranch (branch_name a) sg \<and> processed_of (branch_name b) sg = Some 0"
    if "getSyncGroup gid (ja_coordinator ?s) = Some sg" for sg
    using that cov assms(5,7)
    by (auto simp: covers_def processed_of_def addBranches_new newSyncGroup_def newBranch_def k_invalid_frame_id_def)
  moreover obtain sg where "getSyncGroup gid (ja_coordinator ?s) = Some sg" using cov by (simp add: covers_def)
  moreover have "0 < f" using assms(10) by (simp add: k_invalid_frame_id_def word_gt_0)
  ultimately have "can_report gid (branch_name a) (branch_name b) f (ja_coordinator ?s)"
    unfolding can_report_def by blast
  moreover have "(gid, branch_name a) \<in> set (multi_mappings ?s (node_name ni g x))"
    "(gid, branch_name b) \<in> set (multi_mappings ?s (node_name ni g y))"
    using cov assms(5-8) by (auto simp: covers_def)
  ultimately have "ja_shouldDrop (node_name ni g y) f (snd (ja_reportDrop (node_name ni g x) f reason ?s))"
    using assms(9) by (intro sibling_drop) auto
  then show ?thesis by (simp add: case_prod_beta)
qed

definition diamond_tables :: CompiledGraph where
  "diamond_tables = \<lparr> cg_nodes = [0, 1, 2, 3], cg_nameToIndex = Map.empty, cg_ptrToIndex = Map.empty, cg_outEdges = [],
     cg_successors = [[1, 2], [3], [3], []], cg_predecessors = [[], [0], [0], [1, 2]], cg_inDegree = [0, 1, 1, 2],
     cg_topoOrder = [0, 1, 2, 3], cg_sourceNodes = [0], cg_sinkNodes = [3] \<rparr>"

theorem join_drop_coordinated_witness:
  "sync_shouldDrop ''2'' 7 (snd (sync_reportDrop ''1'' 7 ''full''
     (sync_initialize (\<lambda>xs. xs) diamond_env diamond_tables (JoinAwareSyncStrategy newJoinAware))))"
proof -
  let ?r = "findLowestCommonFork (\<lambda>xs. xs) diamond_tables 3"
  have succ: "successors diamond_tables 0 = [1, 2]" "successors diamond_tables (Suc 0) = [3]" "successors diamond_tables 2 = [3]"
    by (simp_all add: successors_def diamond_tables_def)
  have paths: "findAllPaths diamond_tables 0 3 = [[1], [2]]"
    by (simp add: findAllPaths_def findAllPathsDFS.simps [of diamond_tables] succ Let_def)
  have preds: "predecessors diamond_tables 3 = [1, 2]" "predecessors diamond_tables 1 = [0]" "predecessors diamond_tables 2 = [0]"
    by (simp_all add: predecessors_def diamond_tables_def)
  have "parent_fork (\<lambda>xs. xs) diamond_tables 3 = Some 0"
    using succ preds by (simp add: parent_fork_def grandparents_def is_fork_def push_unique_def Let_def)
  then have r: "fs_valid ?r" "fs_paths ?r = [[1], [2]]"
    using preds paths by (simp_all add: findLowestCommonFork_def Let_def)
  have sizes: "3 < nodeCount diamond_tables" "nodeCount diamond_tables < 2 ^ 32" "1 < cg_inDegree diamond_tables ! 3"
    by (simp_all add: nodeCount_def diamond_tables_def)
  have names: "node_name diamond_env diamond_tables 1 = ''1''" "node_name diamond_env diamond_tables 2 = ''2''"
    by (simp_all add: node_name_def diamond_tables_def diamond_env_def)
  show ?thesis
    using join_drop_coordinated [OF sizes r(1), of 0 1 1 2 7 diamond_env "''full''" newJoinAware] r(2) names
    by (simp add: k_invalid_frame_id_def)
qed

end
