(* ===== verification/Thread_Pool.thy ===== *)
theory Thread_Pool
  imports Pipe_Prelude "HOL-Library.Multiset"
begin

text \<open>
  The work-stealing thread pool (\<open>work_stealing_thread_pool.hpp\<close>), one call at a time.

  \<^item> \<open>WorkStealingDeque\<close>: each operation holds the deque's mutex, so it is a function on
    the list of its tasks, front first.
  \<^item> \<open>WorkStealingThreadPool\<close>: the queues of the workers and the counters; \<open>submit\<close>,
    \<open>post\<close>, \<open>trySubmit\<close> and what a worker does to find a task.  The tasks are an
    arbitrary type: what a task does when it runs is up to the client.

  The calling thread is an argument, the value of \<open>tl_worker_index\<close>: \<open>Some i\<close> on worker \<open>i\<close>.
  The clock of the submission timeout is an argument as well, the number of rounds of the
  waiting loop it allows.  The interleaving of these operations is the subject of theory
  \<open>Pool_Concurrent\<close>.
\<close>

section \<open>The deque\<close>

definition pushFront :: "'t \<Rightarrow> 't list \<Rightarrow> 't list" where
  "pushFront item deque = item # deque"

definition popFront :: "'t list \<Rightarrow> 't option \<times> 't list" where
  "popFront deque = (if deque = [] then (None, deque) else (Some (hd deque), tl deque))"

definition stealBack :: "'t list \<Rightarrow> 't option \<times> 't list" where
  "stealBack deque = (if deque = [] then (None, deque) else (Some (last deque), butlast deque))"

fun steal_loop :: "nat \<Rightarrow> 't list \<Rightarrow> 't list \<Rightarrow> 't list \<times> 't list" where
  "steal_loop 0 stolen deque = (stolen, deque)"
| "steal_loop (Suc k) stolen deque =
     (if deque = [] then (stolen, deque) else steal_loop k (stolen @ [last deque]) (butlast deque))"

definition stealBatch :: "nat \<Rightarrow> 't list \<Rightarrow> 't list \<times> 't list" where
  "stealBatch max_count deque = steal_loop (min max_count (length deque div 2 + 1)) [] deque"

text \<open>
  What the pool relies on: the owner takes the newest task and a thief the oldest one, and
  no task is lost or handed out twice.
\<close>

locale task_deque =
  fixes items :: "'q \<Rightarrow> 't list"
    and push :: "'t \<Rightarrow> 'q \<Rightarrow> 'q"
    and pop steal :: "'q \<Rightarrow> 't option \<times> 'q"
  assumes items_push: "items (push t q) = t # items q"
    and pop_None: "fst (pop q) = None \<longleftrightarrow> items q = []"
    and pop_Some: "pop q = (Some t, q') \<Longrightarrow> items q = t # items q'"
    and steal_None: "fst (steal q) = None \<longleftrightarrow> items q = []"
    and steal_Some: "steal q = (Some t, q') \<Longrightarrow> items q = items q' @ [t]"
begin

lemma pop_mset: "pop q = (Some t, q') \<Longrightarrow> mset (items q) = add_mset t (mset (items q'))"
  using pop_Some by simp

lemma steal_mset: "steal q = (Some t, q') \<Longrightarrow> mset (items q) = add_mset t (mset (items q'))"
  using steal_Some by simp

lemma owner_lifo: "pop (push t q) = (r, q') \<Longrightarrow> r = Some t \<and> items q' = items q"
  using pop_None [of "push t q"] pop_Some [of "push t q"] items_push [of t q] by (cases r) auto

lemma thief_fifo: "items q \<noteq> [] \<Longrightarrow> fst (steal (push t q)) = fst (steal q)"
  using steal_None [of "push t q"] steal_None [of q] steal_Some [of "push t q"] steal_Some [of q] items_push [of t q]
  by (cases "steal (push t q)"; cases "steal q"; cases "fst (steal (push t q))"; cases "fst (steal q)")
    (auto simp: append_eq_Cons_conv Cons_eq_append_conv)

end

interpretation wsd: task_deque id pushFront popFront stealBack
  by unfold_locales (auto simp: pushFront_def popFront_def stealBack_def split: if_splits)

lemma steal_loop_split: "steal_loop k stolen deque = (stolen', deque') \<Longrightarrow>
    stolen' = stolen @ rev (drop (length deque - k) deque) \<and> deque' = take (length deque - k) deque"
proof (induction k stolen deque arbitrary: stolen' deque' rule: steal_loop.induct)
  case (2 k stolen deque)
  show ?case
  proof (cases deque rule: rev_cases)
    case Nil
    then show ?thesis using 2 by simp
  next
    case (snoc ds d)
    then show ?thesis using 2 by (cases "length ds - k") auto
  qed
qed simp

text \<open>A batch is taken from the back, oldest first, and the owner keeps the rest.\<close>

lemma stealBatch_split:
  assumes "stealBatch max_count deque = (stolen, deque')"
  shows "deque = deque' @ rev stolen" and "length stolen = min max_count (min (length deque) (length deque div 2 + 1))"
  using steal_loop_split [OF assms [unfolded stealBatch_def]] by auto

section \<open>The pool\<close>

datatype PoolState = KRunning | KStopping | KStopped

record WorkStealingConfig =
  wc_num_threads :: nat
  wc_max_queue_size_per_worker :: nat
  wc_submit_timeout :: int
  wc_wait_for_tasks_on_stop :: bool
  wc_steal_batch_size :: nat

record 't ThreadPool =
  tp_config :: WorkStealingConfig
  tp_state :: PoolState
  tp_queues :: "'t list list"
  tp_nextWorkerIndex :: "64 word"
  tp_pendingTasks :: "64 word"
  tp_completedTasks :: "64 word"
  tp_unclaimedTasks :: "64 word"
  tp_stealCount :: "64 word"

definition new_pool_config :: "WorkStealingConfig \<Rightarrow> 't ThreadPool" where
  "new_pool_config config = \<lparr> tp_config = config, tp_state = KRunning,
     tp_queues = replicate (wc_num_threads config) [], tp_nextWorkerIndex = 0, tp_pendingTasks = 0,
     tp_completedTasks = 0, tp_unclaimedTasks = 0, tp_stealCount = 0 \<rparr>"

definition new_pool :: "nat \<Rightarrow> nat \<Rightarrow> 't ThreadPool" where
  "new_pool num_threads max_queue_size = new_pool_config \<lparr> wc_num_threads = num_threads,
     wc_max_queue_size_per_worker = max_queue_size, wc_submit_timeout = 5000,
     wc_wait_for_tasks_on_stop = True, wc_steal_batch_size = 4 \<rparr>"

definition pool_isRunning :: "'t ThreadPool \<Rightarrow> bool" where
  "pool_isRunning p \<longleftrightarrow> tp_state p = KRunning"

definition pool_isStopped :: "'t ThreadPool \<Rightarrow> bool" where
  "pool_isStopped p \<longleftrightarrow> tp_state p = KStopped"

definition queueCapacity :: "'t ThreadPool \<Rightarrow> nat" where
  "queueCapacity p = wc_max_queue_size_per_worker (tp_config p) * wc_num_threads (tp_config p)"

definition queueSizes :: "'t ThreadPool \<Rightarrow> nat list" where
  "queueSizes p = map length (tp_queues p)"

definition selectTargetQueue :: "nat option \<Rightarrow> 't ThreadPool \<Rightarrow> nat \<times> 't ThreadPool" where
  "selectTargetQueue tl_worker_index p =
     (case tl_worker_index of
        Some i \<Rightarrow> (i, p)
      | None \<Rightarrow> (unat (tp_nextWorkerIndex p) mod length (tp_queues p), p \<lparr> tp_nextWorkerIndex := tp_nextWorkerIndex p + 1 \<rparr>))"

definition publishTask :: "'t ThreadPool \<Rightarrow> 't ThreadPool" where
  "publishTask p = p \<lparr> tp_unclaimedTasks := tp_unclaimedTasks p + 1 \<rparr>"

definition place_task :: "nat \<Rightarrow> 't \<Rightarrow> 't ThreadPool \<Rightarrow> 't ThreadPool" where
  "place_task i task p = publishTask
     (p \<lparr> tp_queues := (tp_queues p)[i := pushFront task (tp_queues p ! i)], tp_pendingTasks := tp_pendingTasks p + 1 \<rparr>)"

definition queue_full :: "'t ThreadPool \<Rightarrow> nat \<Rightarrow> bool" where
  "queue_full p i \<longleftrightarrow> length (tp_queues p ! i) \<ge> wc_max_queue_size_per_worker (tp_config p)"

text \<open>The waiting loop of \<open>enqueueTask\<close>: \<open>None\<close> is a throw, the pool stopped or the time is up.\<close>

fun enqueue_wait :: "nat \<Rightarrow> 't ThreadPool \<Rightarrow> nat \<Rightarrow> nat option" where
  "enqueue_wait rounds p target_queue =
     (if \<not> queue_full p target_queue then Some target_queue
      else if \<not> pool_isRunning p then None
      else case rounds of
             0 \<Rightarrow> None
           | Suc r \<Rightarrow> enqueue_wait r p ((target_queue + 1) mod length (tp_queues p)))"

declare enqueue_wait.simps [simp del]

definition enqueueTask :: "nat \<Rightarrow> nat option \<Rightarrow> 't \<Rightarrow> 't ThreadPool \<Rightarrow> (string + unit) \<times> 't ThreadPool" where
  "enqueueTask rounds tl_worker_index task p =
     (let (target_queue, p) = selectTargetQueue tl_worker_index p
      in case (if wc_max_queue_size_per_worker (tp_config p) > 0 then enqueue_wait rounds p target_queue
               else Some target_queue) of
           None \<Rightarrow>
             (Inl (if pool_isRunning p then ''WorkStealingThreadPool: Task submission timed out''
                   else ''WorkStealingThreadPool: Cannot submit to stopped pool''), p)
         | Some target_queue \<Rightarrow>
             (if \<not> pool_isRunning p then (Inl ''WorkStealingThreadPool: Cannot submit to stopped pool'', p)
              else (Inr (), place_task target_queue task p)))"

definition submit :: "nat \<Rightarrow> nat option \<Rightarrow> 't \<Rightarrow> 't ThreadPool \<Rightarrow> (string + unit) \<times> 't ThreadPool" where
  "submit rounds tl_worker_index task p =
     (if \<not> pool_isRunning p then (Inl ''WorkStealingThreadPool: Cannot submit to stopped pool'', p)
      else enqueueTask rounds tl_worker_index task p)"

definition post :: "nat \<Rightarrow> nat option \<Rightarrow> 't \<Rightarrow> 't ThreadPool \<Rightarrow> bool \<times> 't ThreadPool" where
  "post rounds tl_worker_index task p =
     (if \<not> pool_isRunning p then (False, p)
      else case enqueueTask rounds tl_worker_index task p of
             (Inr _, p) \<Rightarrow> (True, p)
           | (Inl _, p) \<Rightarrow> (False, p))"

definition tryEnqueueTask :: "nat option \<Rightarrow> 't \<Rightarrow> 't ThreadPool \<Rightarrow> bool \<times> 't ThreadPool" where
  "tryEnqueueTask tl_worker_index task p =
     (if \<not> pool_isRunning p then (False, p)
      else let (target_queue, p) = selectTargetQueue tl_worker_index p; n = length (tp_queues p)
           in if wc_max_queue_size_per_worker (tp_config p) > 0 \<and> n > 0
              then (case find (\<lambda>idx. \<not> queue_full p idx) (map (\<lambda>i. (target_queue + i) mod n) [0..<n]) of
                      None \<Rightarrow> (False, p)
                    | Some idx \<Rightarrow> (True, place_task idx task p))
              else (True, place_task target_queue task p))"

definition trySubmit :: "nat option \<Rightarrow> 't \<Rightarrow> 't ThreadPool \<Rightarrow> bool \<times> 't ThreadPool" where
  "trySubmit tl_worker_index task p =
     (if \<not> pool_isRunning p then (False, p) else tryEnqueueTask tl_worker_index task p)"

text \<open>A worker looks for a task; \<open>start\<close> is the random first victim.\<close>

fun steal_scan :: "nat list \<Rightarrow> nat \<Rightarrow> 't ThreadPool \<Rightarrow> 't option \<times> 't ThreadPool" where
  "steal_scan [] worker_index p = (None, p)"
| "steal_scan (victim # victims) worker_index p =
     (if victim = worker_index then steal_scan victims worker_index p
      else case stealBack (tp_queues p ! victim) of
             (Some task, deque) \<Rightarrow>
               (Some task, p \<lparr> tp_queues := (tp_queues p)[victim := deque], tp_stealCount := tp_stealCount p + 1 \<rparr>)
           | (None, _) \<Rightarrow> steal_scan victims worker_index p)"

definition trySteal :: "nat \<Rightarrow> nat \<Rightarrow> 't ThreadPool \<Rightarrow> 't option \<times> 't ThreadPool" where
  "trySteal start worker_index p =
     (let num_workers = length (tp_queues p)
      in if num_workers \<le> 1 then (None, p)
         else steal_scan (map (\<lambda>i. (start + i) mod num_workers) [0..<num_workers]) worker_index p)"

definition find_task :: "nat \<Rightarrow> nat \<Rightarrow> 't ThreadPool \<Rightarrow> 't option \<times> 't ThreadPool" where
  "find_task start worker_index p =
     (case popFront (tp_queues p ! worker_index) of
        (Some task, deque) \<Rightarrow> (Some task, p \<lparr> tp_queues := (tp_queues p)[worker_index := deque] \<rparr>)
      | (None, _) \<Rightarrow> trySteal start worker_index p)"

definition claim_task :: "nat \<Rightarrow> nat \<Rightarrow> 't ThreadPool \<Rightarrow> 't option \<times> 't ThreadPool" where
  "claim_task start worker_index p =
     (case find_task start worker_index p of
        (Some task, p) \<Rightarrow> (Some task, p \<lparr> tp_unclaimedTasks := tp_unclaimedTasks p - 1 \<rparr>)
      | (None, p) \<Rightarrow> (None, p))"

text \<open>What \<open>executeTask\<close> does after the task, whether it threw or not; the flag says that waiters are notified.\<close>

definition finish_task :: "'t ThreadPool \<Rightarrow> bool \<times> 't ThreadPool" where
  "finish_task p = (let p = p \<lparr> tp_completedTasks := tp_completedTasks p + 1, tp_pendingTasks := tp_pendingTasks p - 1 \<rparr>
     in (tp_pendingTasks p = 0, p))"

text \<open>\<open>shutdown\<close> up to the joining of the workers: a second call changes nothing.\<close>

definition begin_shutdown :: "bool \<Rightarrow> 't ThreadPool \<Rightarrow> 't ThreadPool" where
  "begin_shutdown wait_for_tasks p =
     (if tp_state p \<noteq> KRunning then p
      else let p = p \<lparr> tp_state := KStopping \<rparr>
           in if wait_for_tasks then p
              else p \<lparr> tp_queues := map (\<lambda>_. []) (tp_queues p), tp_pendingTasks := 0, tp_unclaimedTasks := 0 \<rparr>)"

section \<open>The tasks of a pool\<close>

definition pool_tasks :: "'t ThreadPool \<Rightarrow> 't list" where
  "pool_tasks p = concat (tp_queues p)"

text \<open>The pool has workers, and the calling worker, if any, is one of them.\<close>

definition own_thread :: "nat option \<Rightarrow> 't ThreadPool \<Rightarrow> bool" where
  "own_thread tl_worker_index p \<longleftrightarrow> tp_queues p \<noteq> [] \<and> (\<forall>i\<in>set_option tl_worker_index. i < length (tp_queues p))"

definition has_room :: "'t ThreadPool \<Rightarrow> bool" where
  "has_room p \<longleftrightarrow> wc_max_queue_size_per_worker (tp_config p) = 0 \<or> list_ex (\<lambda>q. length q < wc_max_queue_size_per_worker (tp_config p)) (tp_queues p)"

lemma mset_concat_update:
  "i < length qs \<Longrightarrow> mset (concat (qs[i := q])) + mset (qs ! i) = mset (concat qs) + mset q"
proof (induction qs arbitrary: i)
  case (Cons x qs)
  then show ?case by (cases i) (auto simp: ac_simps)
qed simp

lemma tasks_place: "i < length (tp_queues p) \<Longrightarrow> mset (pool_tasks (place_task i task p)) = add_mset task (mset (pool_tasks p))"
  using mset_concat_update [of i "tp_queues p" "pushFront task (tp_queues p ! i)"]
  by (simp add: pool_tasks_def place_task_def publishTask_def pushFront_def)

lemma tasks_take:
  "i < length (tp_queues p) \<Longrightarrow> mset (tp_queues p ! i) = add_mset task (mset deque) \<Longrightarrow>
   mset (pool_tasks p) = add_mset task (mset (concat ((tp_queues p)[i := deque])))"
  using mset_concat_update [of i "tp_queues p" deque] by (simp add: pool_tasks_def)

lemma select_range: "own_thread w p \<Longrightarrow> fst (selectTargetQueue w p) < length (tp_queues p)"
  by (auto simp: selectTargetQueue_def own_thread_def split: option.splits)

lemma select_fields [simp]:
  "tp_queues (snd (selectTargetQueue w p)) = tp_queues p" "tp_config (snd (selectTargetQueue w p)) = tp_config p"
  "tp_state (snd (selectTargetQueue w p)) = tp_state p"
  by (auto simp: selectTargetQueue_def split: option.splits)

text \<open>The waiting loop visits the queues round robin, so one round over all of them is enough to find a free one.\<close>

lemma enqueue_wait_find:
  assumes "pool_isRunning p" and "t < length (tp_queues p)"
  shows "enqueue_wait r p t = find (\<lambda>idx. \<not> queue_full p idx) (map (\<lambda>i. (t + i) mod length (tp_queues p)) [0..<Suc r])"
  using assms(2)
proof (induction r arbitrary: t)
  case 0
  then show ?case using assms(1) by (simp add: enqueue_wait.simps)
next
  case (Suc r)
  let ?n = "length (tp_queues p)"
  have "[0..<Suc (Suc r)] = 0 # map Suc [0..<Suc r]" unfolding map_Suc_upt by (rule upt_conv_Cons) simp
  then have "map (\<lambda>i. (t + i) mod ?n) [0..<Suc (Suc r)] = t # map (\<lambda>i. (Suc t mod ?n + i) mod ?n) [0..<Suc r]"
    using Suc.prems by (simp add: mod_add_left_eq del: upt_Suc)
  moreover have "Suc t mod ?n < ?n" using Suc.prems by (intro mod_less_divisor) linarith
  ultimately show ?case
    using Suc.IH [of "Suc t mod ?n"] assms(1) by (subst enqueue_wait.simps) (simp del: upt_Suc)
qed

lemma find_rounds:
  assumes "0 < n" and "n \<le> m"
  shows "find P (map (\<lambda>i. (t + i) mod n) [0..<m]) = find P (map (\<lambda>i. (t + i) mod n) [0..<n])"
proof -
  have split: "[0..<m] = [0..<n] @ [n..<m]" using upt_add_eq_append [of 0 n "m - n"] assms(2) by simp
  have "P ((t + j) mod n) \<Longrightarrow> \<exists>i<n. P ((t + i) mod n)" for j
    using assms(1) by (metis mod_add_right_eq mod_less_divisor)
  then have "find P (map (\<lambda>i. (t + i) mod n) [0..<n]) = None \<Longrightarrow> find P (map (\<lambda>i. (t + i) mod n) [n..<m]) = None"
    unfolding find_None_iff by fastforce
  moreover have "find P (xs @ ys) = (case find P xs of None \<Rightarrow> find P ys | r \<Rightarrow> r)" for xs ys :: "nat list"
    by (induction xs) auto
  ultimately show ?thesis by (auto simp: split split: option.splits)
qed

lemma mod_range: "0 < n \<Longrightarrow> set (map (\<lambda>i. (t + i) mod n) [0..<n]) = {0..<n}"
proof -
  assume n: "0 < n"
  have "k \<in> (\<lambda>i. (t + i) mod n) ` {0..<n}" if k: "k < n" for k
  proof -
    have "(t + (k + (n - t mod n)) mod n) mod n = (t mod n + (n - t mod n) + k) mod n"
      by (metis add.assoc add.commute mod_add_left_eq mod_add_right_eq)
    also have "\<dots> = k" using n k by simp
    finally have "(t + (k + (n - t mod n)) mod n) mod n = k" .
    moreover have "(k + (n - t mod n)) mod n < n" using n by simp
    ultimately show ?thesis by (metis (no_types, lifting) atLeastLessThan_iff image_eqI zero_le)
  qed
  then show ?thesis using n by auto
qed

lemma find_free:
  assumes "tp_queues p \<noteq> []"
  shows "find (\<lambda>idx. \<not> queue_full p idx) (map (\<lambda>i. (t + i) mod length (tp_queues p)) [0..<length (tp_queues p)]) = None \<longleftrightarrow>
      (\<forall>q\<in>set (tp_queues p). wc_max_queue_size_per_worker (tp_config p) \<le> length q)"
  using mod_range [of "length (tp_queues p)" t] assms unfolding find_None_iff by (auto simp: queue_full_def all_set_conv_all_nth)

lemma steal_scan_outcome:
  assumes "set victims \<subseteq> {..<length (tp_queues p)}" and "steal_scan victims w p = (r, p')"
  shows "case r of
     None \<Rightarrow> (\<forall>v\<in>set victims. v \<noteq> w \<longrightarrow> tp_queues p ! v = []) \<and> p' = p
   | Some t \<Rightarrow> mset (pool_tasks p) = add_mset t (mset (pool_tasks p')) \<and> tp_unclaimedTasks p' = tp_unclaimedTasks p \<and>
       (\<exists>v\<in>set victims. v \<noteq> w \<and> tp_queues p ! v \<noteq> [] \<and> t = last (tp_queues p ! v))"
  using assms
proof (induction victims)
  case (Cons v vs)
  show ?case
  proof (cases "v = w \<or> tp_queues p ! v = []")
    case True
    then have "steal_scan vs w p = (r, p')" using Cons.prems by (cases "v = w") (auto simp: stealBack_def)
    then show ?thesis using Cons True by (auto split: option.splits)
  next
    case False
    define q where "q = tp_queues p ! v"
    have q: "mset q = add_mset (last q) (mset (butlast q))" using False wsd.steal_mset [of q "last q" "butlast q"] by (simp add: q_def stealBack_def)
    have v: "v < length (tp_queues p)" using Cons.prems by simp
    have "r = Some (last q)" "p' = p \<lparr> tp_queues := (tp_queues p)[v := butlast q], tp_stealCount := tp_stealCount p + 1 \<rparr>"
      using Cons.prems(2) False by (auto simp: stealBack_def q_def)
    then show ?thesis using tasks_take [OF v, of "last q" "butlast q"] q False by (auto simp: q_def pool_tasks_def)
  qed
qed simp

lemma trySteal_outcome:
  assumes "w < length (tp_queues p)" and "trySteal start w p = (r, p')"
  shows "case r of
     None \<Rightarrow> (\<forall>v<length (tp_queues p). v \<noteq> w \<longrightarrow> tp_queues p ! v = []) \<and> p' = p
   | Some t \<Rightarrow> mset (pool_tasks p) = add_mset t (mset (pool_tasks p')) \<and> tp_unclaimedTasks p' = tp_unclaimedTasks p \<and>
       (\<exists>v<length (tp_queues p). v \<noteq> w \<and> tp_queues p ! v \<noteq> [] \<and> t = last (tp_queues p ! v))"
proof (cases "length (tp_queues p) \<le> 1")
  case True
  then have "v = w" if "v < length (tp_queues p)" for v using assms(1) that by linarith
  then show ?thesis using assms(2) True by (auto simp: trySteal_def)
next
  case False
  let ?vs = "map (\<lambda>i. (start + i) mod length (tp_queues p)) [0..<length (tp_queues p)]"
  have vs: "set ?vs = {..<length (tp_queues p)}" unfolding lessThan_atLeast0 by (rule mod_range) (use False in linarith)
  have "steal_scan ?vs w p = (r, p')" using assms(2) False by (simp add: trySteal_def Let_def)
  from steal_scan_outcome [OF _ this] show ?thesis unfolding vs by (auto split: option.splits)
qed

lemma steal_scan_length: "length (tp_queues (snd (steal_scan victims w p))) = length (tp_queues p)"
  by (induction victims) (auto split: prod.splits option.splits)

lemma trySteal_length: "length (tp_queues (snd (trySteal start w p))) = length (tp_queues p)"
  by (simp add: trySteal_def steal_scan_length Let_def)

lemma claim_outcome:
  assumes "w < length (tp_queues p)" and "claim_task start w p = (r, p')"
  shows "length (tp_queues p') = length (tp_queues p) \<and> (case r of
     None \<Rightarrow> pool_tasks p = [] \<and> p' = p
   | Some t \<Rightarrow> mset (pool_tasks p) = add_mset t (mset (pool_tasks p')) \<and> tp_unclaimedTasks p' = tp_unclaimedTasks p - 1 \<and>
       (if tp_queues p ! w \<noteq> [] then t = hd (tp_queues p ! w)
        else \<exists>v<length (tp_queues p). v \<noteq> w \<and> tp_queues p ! v \<noteq> [] \<and> t = last (tp_queues p ! v)))"
proof (cases "tp_queues p ! w = []")
  case True
  obtain r1 p1 where st: "trySteal start w p = (r1, p1)" by fastforce
  have eq: "r = r1" "p' = (if r1 = None then p1 else p1 \<lparr> tp_unclaimedTasks := tp_unclaimedTasks p1 - 1 \<rparr>)"
    using assms(2) True st by (auto simp: claim_task_def find_task_def popFront_def split: option.splits)
  show ?thesis
  proof (cases r1)
    case None
    then have "\<forall>v<length (tp_queues p). tp_queues p ! v = []" "p1 = p" using trySteal_outcome [OF assms(1) st] True by auto
    then show ?thesis using eq None by (simp add: pool_tasks_def all_set_conv_all_nth)
  next
    case (Some t)
    then show ?thesis using trySteal_outcome [OF assms(1) st] trySteal_length [of start w p] st eq True by (simp add: pool_tasks_def)
  qed
next
  case False
  then have "r = Some (hd (tp_queues p ! w))"
    "p' = p \<lparr> tp_queues := (tp_queues p)[w := tl (tp_queues p ! w)], tp_unclaimedTasks := tp_unclaimedTasks p - 1 \<rparr>"
    using assms(2) by (auto simp: claim_task_def find_task_def popFront_def)
  then show ?thesis
    using tasks_take [OF assms(1), of "hd (tp_queues p ! w)" "tl (tp_queues p ! w)"] False
      wsd.pop_mset [of "tp_queues p ! w" "hd (tp_queues p ! w)" "tl (tp_queues p ! w)"]
    by (simp add: pool_tasks_def popFront_def)
qed

lemma post_tasks:
  assumes "own_thread w p" and "post rounds w task p = (ok, p')"
  shows "mset (pool_tasks p') = (if ok then {#task#} else {#}) + mset (pool_tasks p) \<and> length (tp_queues p') = length (tp_queues p)"
proof (cases "pool_isRunning p")
  case True
  obtain t q where sel: "selectTargetQueue w p = (t, q)" by fastforce
  have q: "tp_queues q = tp_queues p" "tp_state q = tp_state p" "t < length (tp_queues p)"
    using select_fields [of w p] select_range [OF assms(1)] sel by auto
  have run: "pool_isRunning q" using True q by (simp add: pool_isRunning_def)
  have "0 < length (tp_queues p)" using q(3) by linarith
  then have target: "i < length (tp_queues q)" if "enqueue_wait rounds q t = Some i" for i
    using that enqueue_wait_find [OF run, of t rounds] q by (auto simp: find_Some_iff simp del: upt_Suc)
  have placed: "mset (pool_tasks (place_task i task q)) = add_mset task (mset (pool_tasks p)) \<and> length (tp_queues (place_task i task q)) = length (tp_queues p)"
    if "i < length (tp_queues q)" for i
    using tasks_place [OF that, of task] q by (simp add: place_task_def publishTask_def pool_tasks_def)
  have same: "pool_tasks q = pool_tasks p" using q by (simp add: pool_tasks_def)
  show ?thesis
    using assms(2) True run sel q placed target same by (auto simp: post_def enqueueTask_def split: option.splits if_splits)
qed (use assms(2) in \<open>simp add: post_def\<close>)

section \<open>Properties\<close>

text \<open>
  C26. Submission of a task, from a worker of the pool or from any other thread: it is
  accepted exactly when the pool is running and some queue has room (as long as the
  timeout lets the waiting loop go once around the queues), an accepted task is queued
  exactly once and counted in both counters, a refused one leaves the tasks alone, and the
  non-blocking \<open>trySubmit\<close> does the same.
\<close>

theorem post_exact:
  assumes "own_thread w p" and "length (tp_queues p) \<le> Suc rounds" and "post rounds w task p = (ok, p')"
  shows "ok = (pool_isRunning p \<and> has_room p) \<and>
     mset (pool_tasks p') = (if ok then {#task#} else {#}) + mset (pool_tasks p) \<and>
     tp_pendingTasks p' = tp_pendingTasks p + of_bool ok \<and> tp_unclaimedTasks p' = tp_unclaimedTasks p + of_bool ok \<and>
     length (tp_queues p') = length (tp_queues p) \<and> trySubmit w task p = (ok, p')"
proof (cases "pool_isRunning p")
  case True
  let ?n = "length (tp_queues p)" and ?max = "wc_max_queue_size_per_worker (tp_config p)"
  obtain t q where sel: "selectTargetQueue w p = (t, q)" by fastforce
  have q: "tp_queues q = tp_queues p" "tp_config q = tp_config p" "tp_state q = tp_state p" "t < ?n"
    "tp_pendingTasks q = tp_pendingTasks p" "tp_unclaimedTasks q = tp_unclaimedTasks p"
    using select_fields [of w p] select_range [OF assms(1)] sel by (auto simp: selectTargetQueue_def split: option.splits)
  have run: "pool_isRunning q" and tasks: "pool_tasks q = pool_tasks p" using True q by (auto simp: pool_isRunning_def pool_tasks_def)
  have n: "0 < ?n" using q(4) by linarith
  let ?idx = "find (\<lambda>idx. \<not> queue_full q idx) (map (\<lambda>i. (t + i) mod ?n) [0..<?n])"
  have wait: "enqueue_wait rounds q t = ?idx"
    using enqueue_wait_find [OF run, of t rounds] find_rounds [OF n assms(2)] q by (simp del: upt_Suc)
  have placed: "mset (pool_tasks (place_task i task q)) = add_mset task (mset (pool_tasks p)) \<and>
      tp_pendingTasks (place_task i task q) = tp_pendingTasks p + 1 \<and> tp_unclaimedTasks (place_task i task q) = tp_unclaimedTasks p + 1 \<and>
      length (tp_queues (place_task i task q)) = ?n" if "i < ?n" for i
    using tasks_place [of i q task] that q tasks by (simp add: place_task_def publishTask_def)
  show ?thesis
  proof (cases "?max = 0")
    case no_limit: True
    then have "(ok, p') = (True, place_task t task q)" "trySubmit w task p = (True, place_task t task q)"
      using assms(3) True run sel q by (simp_all add: post_def enqueueTask_def trySubmit_def tryEnqueueTask_def)
    then show ?thesis using placed [OF q(4)] True no_limit by (simp add: has_room_def)
  next
    case limit: False
    have room: "?idx = None \<longleftrightarrow> \<not> has_room p"
      using find_free [of q t] q n limit by (auto simp: has_room_def list_ex_iff not_less)
    have "trySubmit w task p = (case ?idx of None \<Rightarrow> (False, q) | Some i \<Rightarrow> (True, place_task i task q))"
      using True run sel q limit n by (simp add: trySubmit_def tryEnqueueTask_def Let_def)
    moreover have "(ok, p') = (case ?idx of None \<Rightarrow> (False, q) | Some i \<Rightarrow> (True, place_task i task q))"
      using assms(3) True run sel q limit wait by (simp add: post_def enqueueTask_def split: option.splits)
    moreover have "i < ?n" if "?idx = Some i" for i
      using find_SomeD [OF that] mod_range [OF n, of t] by simp
    ultimately show ?thesis using placed room True q tasks by (auto split: option.splits)
  qed
qed (use assms(3) in \<open>simp_all add: post_def trySubmit_def\<close>)

theorem post_exact_witness:
  "post 1 (Some 0) (7::nat) (new_pool 2 1) = trySubmit (Some 0) 7 (new_pool 2 1) \<and> fst (trySubmit (Some 0) (7::nat) (new_pool 2 1))"
proof -
  have "own_thread (Some 0) (new_pool 2 1 :: nat ThreadPool)" "length (tp_queues (new_pool 2 1 :: nat ThreadPool)) \<le> Suc 1"
    by (simp_all add: own_thread_def new_pool_def new_pool_config_def)
  from post_exact [OF this, of 7] show ?thesis
    by (cases "post 1 (Some 0) (7::nat) (new_pool 2 1)")
      (simp add: pool_isRunning_def has_room_def new_pool_def new_pool_config_def numeral_2_eq_2)
qed

text \<open>
  C27. A worker finds a task whenever there is one in any queue, and it takes exactly that
  one: the newest of its own queue if that is not empty, else the oldest of a victim's.
\<close>

theorem claim_exact:
  assumes "w < length (tp_queues p)" and "claim_task start w p = (r, p')"
  shows "case r of
     None \<Rightarrow> pool_tasks p = [] \<and> p' = p
   | Some t \<Rightarrow> mset (pool_tasks p) = add_mset t (mset (pool_tasks p')) \<and> tp_unclaimedTasks p' = tp_unclaimedTasks p - 1 \<and>
       (if tp_queues p ! w \<noteq> [] then t = hd (tp_queues p ! w)
        else \<exists>v<length (tp_queues p). v \<noteq> w \<and> tp_queues p ! v \<noteq> [] \<and> t = last (tp_queues p ! v))"
  using claim_outcome [OF assms] by (auto split: option.splits)

theorem claim_exact_witness:
  "claim_task 0 1 ((new_pool 2 4) \<lparr> tp_queues := [[1, 2], []] \<rparr>) =
     (Some (2::nat), (new_pool 2 4) \<lparr> tp_queues := [[1], []], tp_stealCount := 1, tp_unclaimedTasks := - 1 \<rparr>)"
  using claim_exact [of 1 "(new_pool 2 4) \<lparr> tp_queues := [[1, 2], []] \<rparr>" 0]
  by (simp add: claim_task_def find_task_def popFront_def trySteal_def stealBack_def new_pool_def new_pool_config_def upt_rec)

end
