(* ===== verification/Pool_Concurrent.thy ===== *)
theory Pool_Concurrent
  imports Thread_Pool
begin

text \<open>
  The thread pool under concurrency: the workers in \<open>workerLoop\<close>, threads that submit tasks
  and a thread that shuts the pool down, interleaved at every access to an atomic, to a
  deque (one critical section of its mutex) and to the global mutex.

  A thread is a program counter; \<open>pool_act\<close> performs the next access of one thread and is
  undefined where that thread has to wait.  Two history variables record the tasks that
  were put into a deque and those that ran.  \<open>notify_one\<close> wakes any one waiting worker, a
  waiting worker may also wake for no reason.  The waiting loop of \<open>enqueueTask\<close> is replaced by
  the choice of any queue: it only reads sizes.  A task that submits another one does so as one of the
  submitting threads.
\<close>

section \<open>Threads\<close>

datatype 't worker_pc =
    Fetch                       \<comment> \<open>about to pop its own deque (line 374)\<close>
  | Stealing "nat list"         \<comment> \<open>about to look at the next victim (line 422)\<close>
  | Claimed 't                  \<comment> \<open>has a task, about to decrement \<open>m_unclaimedTasks\<close> (line 381)\<close>
  | Running 't                  \<comment> \<open>about to run the task (line 434)\<close>
  | Executed                    \<comment> \<open>about to update the counters (line 440)\<close>
  | Empty                       \<comment> \<open>found nothing, about to read the state (line 387)\<close>
  | Draining                    \<comment> \<open>the pool stops, about to read \<open>m_unclaimedTasks\<close> (line 389)\<close>
  | AtLock                      \<comment> \<open>about to lock the global mutex (line 397)\<close>
  | Checking                    \<comment> \<open>holds the mutex, about to read \<open>m_unclaimedTasks\<close> in the predicate (line 399)\<close>
  | CheckState                  \<comment> \<open>read zero, about to read the state (line 400)\<close>
  | AboutToWait                 \<comment> \<open>the predicate was false, still holds the mutex\<close>
  | Waiting                     \<comment> \<open>blocked on the condition variable\<close>
  | Exited

datatype 't submit_pc =
    NoTask
  | Checked 't nat              \<comment> \<open>\<open>isRunning\<close> held, about to push (line 501)\<close>
  | Pushed                      \<comment> \<open>about to increment \<open>m_pendingTasks\<close> (line 502)\<close>
  | Counted                     \<comment> \<open>about to increment \<open>m_unclaimedTasks\<close> (line 541)\<close>
  | Added                       \<comment> \<open>about to lock and unlock the mutex (line 543)\<close>
  | Notify                      \<comment> \<open>about to \<open>notify_one\<close> (line 545)\<close>

datatype stop_pc =
    NoStop
  | Clearing nat                \<comment> \<open>about to clear the next queue (line 251)\<close>
  | ZeroPending                 \<comment> \<open>line 253\<close>
  | ZeroUnclaimed               \<comment> \<open>line 254\<close>
  | StopLock                    \<comment> \<open>about to lock and unlock the mutex (line 259)\<close>
  | NotifyAll                   \<comment> \<open>line 261\<close>
  | Joining                     \<comment> \<open>waits for the workers (line 263)\<close>
  | StopDone

record 't pool_sys =
  sy_pool :: "'t ThreadPool"
  sy_workers :: "'t worker_pc list"
  sy_subs :: "'t submit_pc list"
  sy_stop :: stop_pc
  sy_accepted :: "'t list"
  sy_executed :: "'t list"

definition pool_start :: "'t ThreadPool \<Rightarrow> nat \<Rightarrow> 't pool_sys" where
  "pool_start p submitters = \<lparr> sy_pool = p, sy_workers = replicate (length (tp_queues p)) Fetch,
     sy_subs = replicate submitters NoTask, sy_stop = NoStop, sy_accepted = [], sy_executed = [] \<rparr>"

definition goto_worker :: "nat \<Rightarrow> 't worker_pc \<Rightarrow> 't pool_sys \<Rightarrow> 't pool_sys" where
  "goto_worker w pc s = s \<lparr> sy_workers := (sy_workers s)[w := pc] \<rparr>"

definition goto_sub :: "nat \<Rightarrow> 't submit_pc \<Rightarrow> 't pool_sys \<Rightarrow> 't pool_sys" where
  "goto_sub k pc s = s \<lparr> sy_subs := (sy_subs s)[k := pc] \<rparr>"

definition set_deque :: "nat \<Rightarrow> 't list \<Rightarrow> 't pool_sys \<Rightarrow> 't pool_sys" where
  "set_deque i deque s = s \<lparr> sy_pool := (sy_pool s) \<lparr> tp_queues := (tp_queues (sy_pool s))[i := deque] \<rparr> \<rparr>"

definition mutex_free :: "'t pool_sys \<Rightarrow> bool" where
  "mutex_free s \<longleftrightarrow> list_all (\<lambda>pc. pc \<noteq> Checking \<and> pc \<noteq> CheckState \<and> pc \<noteq> AboutToWait) (sy_workers s)"

definition worker_act :: "nat \<Rightarrow> nat \<Rightarrow> 't pool_sys \<Rightarrow> 't pool_sys option" where
  "worker_act start w s =
     (let p = sy_pool s; n = length (tp_queues p)
      in case sy_workers s ! w of
           Fetch \<Rightarrow> (case popFront (tp_queues p ! w) of
               (Some task, deque) \<Rightarrow> Some (goto_worker w (Claimed task) (set_deque w deque s))
             | (None, _) \<Rightarrow> Some (goto_worker w (if n \<le> 1 then Empty else Stealing (map (\<lambda>i. (start + i) mod n) [0..<n])) s))
         | Stealing [] \<Rightarrow> Some (goto_worker w Empty s)
         | Stealing (victim # victims) \<Rightarrow>
             (if victim = w then Some (goto_worker w (Stealing victims) s)
              else case stealBack (tp_queues p ! victim) of
                     (Some task, deque) \<Rightarrow> Some (goto_worker w (Claimed task) (set_deque victim deque s))
                   | (None, _) \<Rightarrow> Some (goto_worker w (Stealing victims) s))
         | Claimed task \<Rightarrow> Some (goto_worker w (Running task) (s \<lparr> sy_pool := p \<lparr> tp_unclaimedTasks := tp_unclaimedTasks p - 1 \<rparr> \<rparr>))
         | Running task \<Rightarrow> Some (goto_worker w Executed (s \<lparr> sy_executed := sy_executed s @ [task] \<rparr>))
         | Executed \<Rightarrow> Some (goto_worker w Fetch (s \<lparr> sy_pool := snd (finish_task p) \<rparr>))
         | Empty \<Rightarrow> Some (goto_worker w (if pool_isRunning p then AtLock else Draining) s)
         | Draining \<Rightarrow> Some (goto_worker w (if tp_unclaimedTasks p = 0 then Exited else Fetch) s)
         | AtLock \<Rightarrow> (if mutex_free s then Some (goto_worker w Checking s) else None)
         | Checking \<Rightarrow> Some (goto_worker w (if tp_unclaimedTasks p \<noteq> 0 then Fetch else CheckState) s)
         | CheckState \<Rightarrow> Some (goto_worker w (if pool_isRunning p then AboutToWait else Fetch) s)
         | AboutToWait \<Rightarrow> Some (goto_worker w Waiting s)
         | Waiting \<Rightarrow> Some (goto_worker w AtLock s)
         | Exited \<Rightarrow> None)"

definition wake_one :: "nat \<Rightarrow> 't pool_sys \<Rightarrow> 't pool_sys option" where
  "wake_one w s =
     (if list_all (\<lambda>pc. pc \<noteq> Waiting) (sy_workers s) then Some s
      else if w < length (sy_workers s) \<and> sy_workers s ! w = Waiting then Some (goto_worker w AtLock s) else None)"

definition submit_act :: "'t \<Rightarrow> nat \<Rightarrow> nat \<Rightarrow> 't pool_sys \<Rightarrow> 't pool_sys option" where
  "submit_act task i k s =
     (let p = sy_pool s
      in case sy_subs s ! k of
           NoTask \<Rightarrow> (if pool_isRunning p \<and> i < length (tp_queues p) then Some (goto_sub k (Checked task i) s) else None)
         | Checked t j \<Rightarrow> Some (goto_sub k Pushed (set_deque j (pushFront t (tp_queues p ! j)) s \<lparr> sy_accepted := sy_accepted s @ [t] \<rparr>))
         | Pushed \<Rightarrow> Some (goto_sub k Counted (s \<lparr> sy_pool := p \<lparr> tp_pendingTasks := tp_pendingTasks p + 1 \<rparr> \<rparr>))
         | Counted \<Rightarrow> Some (goto_sub k Added (s \<lparr> sy_pool := publishTask p \<rparr>))
         | Added \<Rightarrow> (if mutex_free s then Some (goto_sub k Notify s) else None)
         | Notify \<Rightarrow> map_option (goto_sub k NoTask) (wake_one i s))"

definition stop_call :: "bool \<Rightarrow> 't pool_sys \<Rightarrow> 't pool_sys option" where
  "stop_call wait_for_tasks s =
     (if sy_stop s = NoStop
      then Some (s \<lparr> sy_pool := (sy_pool s) \<lparr> tp_state := KStopping \<rparr>, sy_stop := if wait_for_tasks then StopLock else Clearing 0 \<rparr>)
      else None)"

definition stop_act :: "'t pool_sys \<Rightarrow> 't pool_sys option" where
  "stop_act s =
     (let p = sy_pool s
      in case sy_stop s of
           NoStop \<Rightarrow> None
         | Clearing i \<Rightarrow> (if i < length (tp_queues p) then Some (set_deque i [] s \<lparr> sy_stop := Clearing (Suc i) \<rparr>)
                          else Some (s \<lparr> sy_stop := ZeroPending \<rparr>))
         | ZeroPending \<Rightarrow> Some (s \<lparr> sy_pool := p \<lparr> tp_pendingTasks := 0 \<rparr>, sy_stop := ZeroUnclaimed \<rparr>)
         | ZeroUnclaimed \<Rightarrow> Some (s \<lparr> sy_pool := p \<lparr> tp_unclaimedTasks := 0 \<rparr>, sy_stop := StopLock \<rparr>)
         | StopLock \<Rightarrow> (if mutex_free s then Some (s \<lparr> sy_stop := NotifyAll \<rparr>) else None)
         | NotifyAll \<Rightarrow> Some (s \<lparr> sy_workers := map (\<lambda>pc. if pc = Waiting then AtLock else pc) (sy_workers s), sy_stop := Joining \<rparr>)
         | Joining \<Rightarrow> (if list_all (\<lambda>pc. pc = Exited) (sy_workers s)
             then Some (s \<lparr> sy_pool := p \<lparr> tp_state := KStopped \<rparr>, sy_stop := StopDone \<rparr>) else None)
         | StopDone \<Rightarrow> None)"

datatype 't pool_action = Worker nat nat | Submit 't nat nat | StopCall bool | StopStep

definition pool_act :: "'t pool_action \<Rightarrow> 't pool_sys \<Rightarrow> 't pool_sys option" where
  "pool_act a s =
     (case a of
        Worker start w \<Rightarrow> if w < length (sy_workers s) then worker_act start w s else None
      | Submit task i k \<Rightarrow> if k < length (sy_subs s) then submit_act task i k s else None
      | StopCall wait_for_tasks \<Rightarrow> stop_call wait_for_tasks s
      | StopStep \<Rightarrow> stop_act s)"

fun pool_run :: "'t pool_action list \<Rightarrow> 't pool_sys \<Rightarrow> 't pool_sys option" where
  "pool_run [] s = Some s"
| "pool_run (a # as) s = (case pool_act a s of None \<Rightarrow> None | Some s' \<Rightarrow> pool_run as s')"

text \<open>The states a system gets to by actions of some kind.\<close>

inductive pool_steps :: "('t pool_action \<Rightarrow> bool) \<Rightarrow> 't pool_sys \<Rightarrow> 't pool_sys \<Rightarrow> bool" for allowed where
  start: "pool_steps allowed s s"
| step: "pool_steps allowed s s' \<Longrightarrow> pool_act a s' = Some s'' \<Longrightarrow> allowed a \<Longrightarrow> pool_steps allowed s s''"

definition keeps_tasks :: "'t pool_action \<Rightarrow> bool" where
  "keeps_tasks a \<longleftrightarrow> a \<noteq> StopCall False"

lemmas moves = goto_worker_def goto_sub_def set_deque_def

section \<open>Wake-ups\<close>

text \<open>A worker that does nothing until it is notified.\<close>

definition asleep :: "'t pool_sys \<Rightarrow> 't worker_pc \<Rightarrow> bool" where
  "asleep s pc \<longleftrightarrow> pc = Waiting \<or> pc = AboutToWait \<or> pc = CheckState \<and> pool_isRunning (sy_pool s)"

text \<open>There is something to wake up for: the predicate of the wait.\<close>

definition signal_due :: "'t pool_sys \<Rightarrow> bool" where
  "signal_due s \<longleftrightarrow> tp_unclaimedTasks (sy_pool s) \<noteq> 0 \<or> \<not> pool_isRunning (sy_pool s)"

definition before_lock :: "stop_pc \<Rightarrow> bool" where
  "before_lock pc \<longleftrightarrow> pc \<noteq> NoStop \<and> pc \<noteq> NotifyAll \<and> pc \<noteq> Joining \<and> pc \<noteq> StopDone"

text \<open>
  The notification that is on its way: a thread that has not been through the mutex yet,
  or one that has, and then no worker is between its test and its wait.
\<close>

definition signal_coming :: "'t pool_sys \<Rightarrow> bool" where
  "signal_coming s \<longleftrightarrow> Added \<in> set (sy_subs s) \<or> before_lock (sy_stop s) \<or>
     (Notify \<in> set (sy_subs s) \<or> sy_stop s = NotifyAll) \<and> mutex_free s"

definition wakeup_inv :: "'t pool_sys \<Rightarrow> bool" where
  "wakeup_inv s \<longleftrightarrow> (signal_due s \<and> (\<forall>pc\<in>set (sy_workers s). asleep s pc) \<longrightarrow> signal_coming s) \<and> sy_workers s \<noteq> [] \<and>
     (sy_stop s = NoStop \<longrightarrow> pool_isRunning (sy_pool s) \<and> Exited \<notin> set (sy_workers s) \<and> Draining \<notin> set (sy_workers s))"

lemma worker_act_moves:
  assumes "worker_act start w s = Some s'"
  shows "\<exists>pc. sy_workers s' = (sy_workers s)[w := pc] \<and> sy_subs s' = sy_subs s \<and> sy_stop s' = sy_stop s \<and>
     tp_state (sy_pool s') = tp_state (sy_pool s) \<and> length (tp_queues (sy_pool s')) = length (tp_queues (sy_pool s)) \<and>
     ((pc = Exited \<longrightarrow> sy_workers s ! w = Draining) \<and> (pc = Draining \<longrightarrow> \<not> pool_isRunning (sy_pool s))) \<and>
     (asleep s' pc \<longrightarrow> sy_pool s' = sy_pool s \<and>
        (\<not> signal_due s \<or> asleep s (sy_workers s ! w) \<and> (sy_workers s ! w = CheckState \<or> sy_workers s ! w = AboutToWait)))"
  using assms unfolding worker_act_def
  by (auto simp: Let_def moves asleep_def signal_due_def pool_isRunning_def finish_task_def
      split: worker_pc.splits prod.splits option.splits list.splits if_splits)

lemma wakeup_worker:
  assumes "wakeup_inv s" and "w < length (sy_workers s)" and "worker_act start w s = Some s'"
  shows "wakeup_inv s'"
proof -
  obtain pc where ws: "sy_workers s' = (sy_workers s)[w := pc]" and same: "sy_subs s' = sy_subs s" "sy_stop s' = sy_stop s"
      "tp_state (sy_pool s') = tp_state (sy_pool s)"
    and out: "pc = Exited \<longrightarrow> sy_workers s ! w = Draining" "pc = Draining \<longrightarrow> \<not> pool_isRunning (sy_pool s)"
    and sleep: "asleep s' pc \<longrightarrow> sy_pool s' = sy_pool s \<and>
        (\<not> signal_due s \<or> asleep s (sy_workers s ! w) \<and> (sy_workers s ! w = CheckState \<or> sy_workers s ! w = AboutToWait))"
    using worker_act_moves [OF assms(3)] by blast
  have run: "pool_isRunning (sy_pool s') = pool_isRunning (sy_pool s)" using same by (simp add: pool_isRunning_def)
  have "signal_coming s'" if due: "signal_due s'" and all: "\<forall>pc\<in>set (sy_workers s'). asleep s' pc"
  proof -
    have "asleep s' pc" using all ws assms(2) by (simp add: set_update_memI)
    with sleep have pool: "sy_pool s' = sy_pool s" and old: "asleep s (sy_workers s ! w)"
        "sy_workers s ! w = CheckState \<or> sy_workers s ! w = AboutToWait"
      using due by (auto simp: signal_due_def)
    have "asleep s (sy_workers s ! i)" if i: "i < length (sy_workers s)" for i
    proof (cases "i = w")
      case False
      have "sy_workers s' ! i \<in> set (sy_workers s')" using i ws by (intro nth_mem) simp
      then show ?thesis using all ws False pool by (auto simp: asleep_def)
    qed (use old in simp)
    then have "\<forall>pc\<in>set (sy_workers s). asleep s pc" by (auto simp: in_set_conv_nth)
    then have "signal_coming s" using assms(1) due pool by (auto simp: wakeup_inv_def signal_due_def)
    moreover have "\<not> mutex_free s" using old(2) nth_mem [OF assms(2)] by (auto simp: mutex_free_def list_all_iff)
    ultimately show ?thesis using same by (auto simp: signal_coming_def)
  qed
  moreover have "pool_isRunning (sy_pool s') \<and> Exited \<notin> set (sy_workers s') \<and> Draining \<notin> set (sy_workers s')" if "sy_stop s' = NoStop"
    using assms(1,2) that same(2) run out ws set_update_subset_insert [of "sy_workers s" w pc] nth_mem [OF assms(2)]
    unfolding wakeup_inv_def by (metis in_mono insertE)
  ultimately show ?thesis using assms(1) ws by (auto simp: wakeup_inv_def)
qed

lemma wake_one_wakes:
  assumes "wake_one i s = Some s'" and "Waiting \<in> set (sy_workers s)"
  shows "AtLock \<in> set (sy_workers s')"
proof -
  have "i < length (sy_workers s)" "s' = goto_worker i AtLock s"
    using assms by (auto simp: wake_one_def list_all_iff split: if_splits)
  then show ?thesis by (simp add: goto_worker_def set_update_memI)
qed

lemma wake_one_frame: "wake_one i s = Some s' \<Longrightarrow>
    sy_pool s' = sy_pool s \<and> sy_subs s' = sy_subs s \<and> sy_stop s' = sy_stop s \<and>
    (sy_workers s' = sy_workers s \<or> (\<exists>w<length (sy_workers s). sy_workers s ! w = Waiting \<and> sy_workers s' = (sy_workers s)[w := AtLock]))"
  by (auto simp: wake_one_def goto_worker_def split: if_splits)

lemma submit_act_moves:
  assumes "submit_act task i k s = Some s'"
  shows "sy_stop s' = sy_stop s \<and> tp_state (sy_pool s') = tp_state (sy_pool s) \<and>
    (if sy_subs s ! k = Notify then sy_subs s' = (sy_subs s)[k := NoTask] \<and> sy_pool s' = sy_pool s \<and>
        (\<exists>s0. wake_one i s = Some s0 \<and> sy_workers s' = sy_workers s0)
     else sy_workers s' = sy_workers s \<and> (\<exists>pc. sy_subs s' = (sy_subs s)[k := pc] \<and>
        (sy_subs s ! k = Added \<longrightarrow> pc = Notify \<and> mutex_free s) \<and>
        (tp_unclaimedTasks (sy_pool s') \<noteq> tp_unclaimedTasks (sy_pool s) \<longrightarrow> pc = Added)))"
  using assms unfolding submit_act_def
  by (auto simp: Let_def moves publishTask_def dest: wake_one_frame split: submit_pc.splits if_splits)

text \<open>A mark that another thread holds, or that this thread takes, is still set.\<close>

lemma mark_stays: "k < length xs \<Longrightarrow> m \<in> set xs \<Longrightarrow> xs ! k \<noteq> m \<or> pc = m \<Longrightarrow> m \<in> set (xs[k := pc])"
  by (metis in_set_conv_nth length_list_update nth_list_update_eq nth_list_update_neq)

lemma asleep_cong: "tp_state (sy_pool s') = tp_state (sy_pool s) \<Longrightarrow> asleep s' = asleep s"
  by (simp add: asleep_def pool_isRunning_def fun_eq_iff)

lemma wakeup_submit:
  assumes "wakeup_inv s" and "k < length (sy_subs s)" and "submit_act task i k s = Some s'"
  shows "wakeup_inv s'"
proof (cases "sy_subs s ! k = Notify")
  case True
  then obtain s0 where same: "sy_stop s' = sy_stop s" "sy_pool s' = sy_pool s" "sy_subs s' = (sy_subs s)[k := NoTask]"
      and wake: "wake_one i s = Some s0" "sy_workers s' = sy_workers s0"
    using submit_act_moves [OF assms(3)] by auto
  have sl: "asleep s' = asleep s" using same by (intro asleep_cong) simp
  have ws: "sy_workers s' = sy_workers s \<or> (\<exists>w<length (sy_workers s). sy_workers s' = (sy_workers s)[w := AtLock])"
    using wake_one_frame [OF wake(1)] wake(2) by auto
  then have exits: "pc \<in> set (sy_workers s') \<Longrightarrow> pc \<noteq> AtLock \<Longrightarrow> pc \<in> set (sy_workers s)" for pc
    using set_update_subset_insert by fastforce
  have "signal_coming s'" if due: "signal_due s'" and all: "\<forall>pc\<in>set (sy_workers s'). asleep s' pc"
  proof -
    have no: "AtLock \<notin> set (sy_workers s')" using all by (auto simp: asleep_def)
    then have none: "Waiting \<notin> set (sy_workers s)" using wake_one_wakes [OF wake(1)] wake(2) by auto
    have eq: "sy_workers s' = sy_workers s" using ws no by (auto simp: set_update_memI)
    have "\<exists>pc\<in>set (sy_workers s). asleep s pc" using assms(1) all eq sl by (cases "sy_workers s") (auto simp: wakeup_inv_def)
    then have "\<not> mutex_free s" using none by (auto simp: asleep_def mutex_free_def list_all_iff)
    moreover have "signal_coming s" using assms(1) due all eq sl same(2) by (auto simp: wakeup_inv_def signal_due_def)
    ultimately show ?thesis using same mark_stays [OF assms(2), of Added NoTask] True by (auto simp: signal_coming_def)
  qed
  moreover have "length (sy_workers s') = length (sy_workers s)" using ws by auto
  then have "sy_workers s' \<noteq> []" using assms(1) by (auto simp: wakeup_inv_def)
  ultimately show ?thesis using assms(1) same exits unfolding wakeup_inv_def by auto
next
  case False
  then obtain pc where same: "sy_stop s' = sy_stop s" "tp_state (sy_pool s') = tp_state (sy_pool s)" "sy_workers s' = sy_workers s"
      "sy_subs s' = (sy_subs s)[k := pc]"
    and pc: "sy_subs s ! k = Added \<longrightarrow> pc = Notify \<and> mutex_free s" "tp_unclaimedTasks (sy_pool s') \<noteq> tp_unclaimedTasks (sy_pool s) \<longrightarrow> pc = Added"
    using submit_act_moves [OF assms(3)] by auto
  have sl: "asleep s' = asleep s" "mutex_free s' = mutex_free s" "pool_isRunning (sy_pool s') = pool_isRunning (sy_pool s)"
    using asleep_cong [OF same(2)] same by (simp_all add: mutex_free_def pool_isRunning_def)
  have "signal_coming s'" if due: "signal_due s'" and all: "\<forall>pc\<in>set (sy_workers s'). asleep s' pc"
  proof (cases "pc = Added")
    case True
    then show ?thesis using same(4) assms(2) by (auto simp: signal_coming_def set_update_memI)
  next
    case not_added: False
    then have coming: "signal_coming s" using assms(1) due all same sl pc by (auto simp: wakeup_inv_def signal_due_def)
    show ?thesis
    proof (cases "sy_subs s ! k = Added")
      case True
      then show ?thesis using pc same(4) sl assms(2) by (auto simp: signal_coming_def set_update_memI)
    next
      case not_old: False
      then show ?thesis using coming same sl False mark_stays [OF assms(2), of Added pc] mark_stays [OF assms(2), of Notify pc]
        by (auto simp: signal_coming_def)
    qed
  qed
  then show ?thesis using assms(1) same sl by (auto simp: wakeup_inv_def)
qed

lemma wakeup_stop:
  assumes "wakeup_inv s" and "stop_act s = Some s' \<or> stop_call wt s = Some s'"
  shows "wakeup_inv s'"
proof -
  have ne: "sy_workers s \<noteq> []" using assms(1) by (simp add: wakeup_inv_def)
  consider (lock) "before_lock (sy_stop s')" "sy_stop s' \<noteq> NoStop" "sy_workers s' = sy_workers s"
    | (free) "sy_stop s' = NotifyAll" "mutex_free s'" "sy_workers s' = sy_workers s"
    | (wake) "sy_stop s' = Joining" "sy_workers s' = map (\<lambda>pc. if pc = Waiting then AtLock else pc) (sy_workers s)" "sy_stop s = NotifyAll"
        "sy_pool s' = sy_pool s" "sy_subs s' = sy_subs s"
    | (joined) "sy_stop s' = StopDone" "sy_workers s' = sy_workers s" "list_all (\<lambda>pc. pc = Exited) (sy_workers s)"
    using assms(2) unfolding stop_act_def stop_call_def
    by (auto simp: Let_def moves before_lock_def mutex_free_def split: stop_pc.splits if_splits)
  then show ?thesis
  proof cases
    case wake
    have "mutex_free s' = mutex_free s" by (auto simp: mutex_free_def wake list_all_iff)
    have sl: "asleep s' = asleep s" by (rule asleep_cong) (simp add: wake)
    have "signal_coming s'" if due: "signal_due s'" and all: "\<forall>pc\<in>set (sy_workers s'). asleep s' pc"
    proof -
      have "Waiting \<notin> set (sy_workers s)" using all by (auto simp: wake(2) asleep_def)
      then have eq: "sy_workers s' = sy_workers s" unfolding wake(2) by (intro map_idI) auto
      have "\<exists>pc\<in>set (sy_workers s). asleep s pc" using ne all eq sl by (cases "sy_workers s") auto
      then have "\<not> mutex_free s" using \<open>Waiting \<notin> set (sy_workers s)\<close> by (auto simp: asleep_def mutex_free_def list_all_iff)
      moreover have "signal_coming s" using assms(1) due all eq sl wake(4) by (auto simp: wakeup_inv_def signal_due_def)
      ultimately show ?thesis using wake by (auto simp: signal_coming_def before_lock_def)
    qed
    then show ?thesis using ne by (auto simp: wakeup_inv_def wake)
  next
    case joined
    then have "\<exists>pc\<in>set (sy_workers s'). \<not> asleep s' pc" using ne by (cases "sy_workers s") (auto simp: asleep_def)
    then show ?thesis using joined ne by (auto simp: wakeup_inv_def)
  qed (use ne in \<open>auto simp: wakeup_inv_def signal_coming_def\<close>)
qed

lemma wakeup_steps: "pool_steps allowed s s' \<Longrightarrow> wakeup_inv s \<Longrightarrow> wakeup_inv s'"
proof (induction rule: pool_steps.induct)
  case (step s s' a s'')
  note inv = step.IH [OF step.prems]
  show ?case
  proof (cases a)
    case (Worker start w)
    then show ?thesis using step.hyps(2) wakeup_worker [OF inv] by (simp add: pool_act_def split: if_splits)
  next
    case (Submit task i k)
    then show ?thesis using step.hyps(2) wakeup_submit [OF inv] by (simp add: pool_act_def split: if_splits)
  qed (use step.hyps(2) wakeup_stop [OF inv] in \<open>auto simp: pool_act_def\<close>)
qed

lemma wakeup_start: "tp_queues p \<noteq> [] \<Longrightarrow> pool_isRunning p \<Longrightarrow> wakeup_inv (pool_start p n)"
  by (auto simp: wakeup_inv_def pool_start_def asleep_def set_replicate_conv_if)

section \<open>Accounting\<close>

definition total_of :: "('a \<Rightarrow> 'b::ab_group_add) \<Rightarrow> 'a list \<Rightarrow> 'b" where
  "total_of f xs = sum_list (map f xs)"

lemma total_of_update [simp]: "i < length xs \<Longrightarrow> total_of f (xs[i := x]) = total_of f xs + (f x - f (xs ! i))"
proof (induction xs arbitrary: i)
  case (Cons y ys)
  then show ?case by (cases i) (simp_all add: total_of_def algebra_simps)
qed simp

definition claimed :: "'t worker_pc \<Rightarrow> 64 word" where
  "claimed pc = (case pc of Claimed _ \<Rightarrow> 1 | _ \<Rightarrow> 0)"

definition unfinished :: "'t worker_pc \<Rightarrow> 64 word" where
  "unfinished pc = (case pc of Claimed _ \<Rightarrow> 1 | Running _ \<Rightarrow> 1 | Executed \<Rightarrow> 1 | _ \<Rightarrow> 0)"

definition unpublished :: "'t submit_pc \<Rightarrow> 64 word" where
  "unpublished pc = (if pc = Pushed \<or> pc = Counted then 1 else 0)"

definition uncounted :: "'t submit_pc \<Rightarrow> 64 word" where
  "uncounted pc = (if pc = Pushed then 1 else 0)"

definition holds :: "'t \<Rightarrow> 't worker_pc \<Rightarrow> int" where
  "holds t pc = (case pc of Claimed x \<Rightarrow> of_bool (x = t) | Running x \<Rightarrow> of_bool (x = t) | _ \<Rightarrow> 0)"

definition size_of :: "'t list \<Rightarrow> 64 word" where
  "size_of q = of_nat (length q)"

definition copies :: "'t \<Rightarrow> 't list \<Rightarrow> int" where
  "copies t q = int (count_list q t)"

lemmas weights = claimed_def unfinished_def unpublished_def uncounted_def holds_def

lemma list_weights [simp]:
  "size_of [] = 0" "size_of (x # q) = size_of q + 1" "size_of (q @ r) = size_of q + size_of r"
  "copies t [] = 0" "copies t (x # q) = copies t q + of_bool (x = t)" "copies t (q @ r) = copies t q + copies t r"
  by (simp_all add: size_of_def copies_def)

lemma end_weights:
  assumes "q \<noteq> []"
  shows "size_of (tl q) = size_of q - 1" and "size_of (butlast q) = size_of q - 1"
    and "copies t (tl q) = copies t q - of_bool (hd q = t)" and "copies t (butlast q) = copies t q - of_bool (last q = t)"
proof -
  show "size_of (tl q) = size_of q - 1" "copies t (tl q) = copies t q - of_bool (hd q = t)" using assms by (cases q; simp)+
  show "size_of (butlast q) = size_of q - 1" "copies t (butlast q) = copies t q - of_bool (last q = t)"
    using assms by (cases q rule: rev_cases; simp)+
qed

text \<open>The indices the threads carry are in range.\<close>

definition in_range :: "'t pool_sys \<Rightarrow> bool" where
  "in_range s \<longleftrightarrow> length (sy_workers s) = length (tp_queues (sy_pool s)) \<and>
     (\<forall>vs. Stealing vs \<in> set (sy_workers s) \<longrightarrow> (\<forall>v\<in>set vs. v < length (tp_queues (sy_pool s)))) \<and>
     (\<forall>t j. Checked t j \<in> set (sy_subs s) \<longrightarrow> j < length (tp_queues (sy_pool s)))"

text \<open>
  The counters and the tasks: \<open>m_unclaimedTasks\<close> counts what is queued and what a worker took
  without counting it yet, minus what was queued and not published yet, and so on.
\<close>

definition accounts :: "'t pool_sys \<Rightarrow> bool" where
  "accounts s \<longleftrightarrow>
     tp_unclaimedTasks (sy_pool s) =
       total_of size_of (tp_queues (sy_pool s)) + total_of claimed (sy_workers s) - total_of unpublished (sy_subs s) \<and>
     tp_pendingTasks (sy_pool s) =
       total_of size_of (tp_queues (sy_pool s)) + total_of unfinished (sy_workers s) - total_of uncounted (sy_subs s) \<and>
     (\<forall>t. copies t (sy_accepted s) =
       total_of (copies t) (tp_queues (sy_pool s)) + total_of (holds t) (sy_workers s) + copies t (sy_executed s))"

lemma range_worker:
  assumes "in_range s" and "w < length (sy_workers s)" and "worker_act start w s = Some s'"
  shows "in_range s'"
proof -
  have mem: "sy_workers s ! w \<in> set (sy_workers s)" using assms(2) by simp
  obtain pc where ws: "sy_workers s' = (sy_workers s)[w := pc]" and same: "sy_subs s' = sy_subs s"
      "length (tp_queues (sy_pool s')) = length (tp_queues (sy_pool s))"
    using worker_act_moves [OF assms(3)] by blast
  have n: "tp_queues (sy_pool s) \<noteq> []" using assms(1,2) by (auto simp: in_range_def)
  have "\<forall>v\<in>set vs. v < length (tp_queues (sy_pool s))" if "pc = Stealing vs" for vs
  proof -
    have "sy_workers s' ! w = Stealing vs" using ws that assms(2) by simp
    then have "(\<exists>v. sy_workers s ! w = Stealing (v # vs)) \<or> (\<exists>i. vs = map (\<lambda>j. (i + j) mod length (tp_queues (sy_pool s))) [0..<length (tp_queues (sy_pool s))])"
      using assms(2,3) unfolding worker_act_def
      by (auto simp: Let_def moves split: worker_pc.splits prod.splits option.splits list.splits if_splits)
    then show ?thesis using assms(1) mem n by (fastforce simp: in_range_def)
  qed
  then show ?thesis
    using assms(1) ws same set_update_subset_insert [of "sy_workers s" w pc] by (auto simp: in_range_def)
qed

lemma accounts_worker:
  assumes "accounts s" and "in_range s" and "w < length (sy_workers s)" and "worker_act start w s = Some s'"
  shows "accounts s'"
proof -
  have mem: "sy_workers s ! w \<in> set (sy_workers s)" and n: "w < length (tp_queues (sy_pool s))"
    using assms(2,3) by (auto simp: in_range_def)
  show ?thesis
  proof (cases "sy_workers s ! w")
    case Fetch
    then show ?thesis using assms n by (auto simp: worker_act_def accounts_def moves weights popFront_def end_weights Let_def split: if_splits)
  next
    case (Stealing vs)
    then show ?thesis
      using assms n mem by (cases vs) (auto simp: worker_act_def in_range_def accounts_def moves weights stealBack_def end_weights Let_def split: if_splits)
  qed (use assms in \<open>auto simp: worker_act_def accounts_def moves weights finish_task_def Let_def split: if_splits\<close>)
qed

lemma range_update:
  assumes "in_range s" and "length (tp_queues (sy_pool s')) = length (tp_queues (sy_pool s))"
    and "length (sy_workers s') = length (sy_workers s)" and "\<And>vs. Stealing vs \<in> set (sy_workers s') \<Longrightarrow> Stealing vs \<in> set (sy_workers s)"
    and "sy_subs s' = (sy_subs s)[k := pc]" and "\<And>t j. pc = Checked t j \<Longrightarrow> j < length (tp_queues (sy_pool s))"
  shows "in_range s'"
proof -
  have "j < length (tp_queues (sy_pool s))" if "Checked t j \<in> set (sy_subs s')" for t j
  proof (cases "Checked t j = pc")
    case False
    then have "Checked t j \<in> set (sy_subs s)" using that assms(5) set_update_subset_insert [of "sy_subs s" k pc] by auto
    then show ?thesis using assms(1) by (simp add: in_range_def)
  qed (use assms(6) in blast)
  moreover have "\<forall>v\<in>set vs. v < length (tp_queues (sy_pool s))" if "Stealing vs \<in> set (sy_workers s')" for vs
    using assms(1) assms(4) [OF that] by (simp add: in_range_def)
  ultimately show ?thesis using assms(1-3) by (simp add: in_range_def)
qed

lemma wake_one_accounts:
  assumes "wake_one i s = Some s0" and "accounts s"
  shows "accounts s0" and "sy_subs s0 = sy_subs s" and "sy_pool s0 = sy_pool s" and "length (sy_workers s0) = length (sy_workers s)"
    and "Stealing vs \<in> set (sy_workers s0) \<Longrightarrow> Stealing vs \<in> set (sy_workers s)"
  using assms set_update_subset_insert [of "sy_workers s" i AtLock]
  by (auto simp: wake_one_def accounts_def moves weights split: if_splits)

lemma accounts_submit:
  assumes "accounts s" and "in_range s" and "k < length (sy_subs s)" and "submit_act task i k s = Some s'"
  shows "accounts s'" and "in_range s'"
proof -
  have mem: "sy_subs s ! k \<in> set (sy_subs s)" using assms(3) by simp
  note submit = assms(4) [unfolded submit_act_def Let_def]
  have "accounts s' \<and> in_range s'"
  proof (cases "sy_subs s ! k")
    case Notify
    then obtain s0 where s0: "wake_one i s = Some s0" "s' = goto_sub k NoTask s0" using submit by auto
    note wake = wake_one_accounts [OF s0(1) assms(1)]
    have "accounts s'" using wake(1,2) s0(2) assms(3) Notify by (simp add: accounts_def moves weights)
    moreover have "in_range s'" by (rule range_update [OF assms(2)]) (use wake s0(2) in \<open>auto simp: moves\<close>)
    ultimately show ?thesis by blast
  next
    case (Checked t j)
    then have j: "j < length (tp_queues (sy_pool s))" using mem assms(2) by (auto simp: in_range_def)
    have "accounts s'" using submit Checked j assms(1,3) by (auto simp: accounts_def moves weights pushFront_def)
    moreover have "in_range s'" by (rule range_update [OF assms(2), where pc = Pushed and k = k]) (use submit Checked in \<open>auto simp: moves\<close>)
    ultimately show ?thesis by blast
  next
    case NoTask
    then have i: "i < length (tp_queues (sy_pool s))" "s' = goto_sub k (Checked task i) s" using submit by (auto split: if_splits)
    have "accounts s'" using i NoTask assms(1,3) by (simp add: accounts_def moves weights)
    moreover have "in_range s'" by (rule range_update [OF assms(2), where pc = "Checked task i" and k = k]) (use i in \<open>auto simp: moves\<close>)
    ultimately show ?thesis by blast
  next
    case Pushed
    have "accounts s'" using submit Pushed assms(1,3) by (auto simp: accounts_def moves weights)
    moreover have "in_range s'" by (rule range_update [OF assms(2), where pc = Counted and k = k]) (use submit Pushed in \<open>auto simp: moves\<close>)
    ultimately show ?thesis by blast
  next
    case Counted
    have "accounts s'" using submit Counted assms(1,3) by (auto simp: accounts_def moves weights publishTask_def)
    moreover have "in_range s'" by (rule range_update [OF assms(2), where pc = Added and k = k]) (use submit Counted in \<open>auto simp: moves publishTask_def\<close>)
    ultimately show ?thesis by blast
  next
    case Added
    have s': "s' = goto_sub k Notify s" using submit Added by (auto split: if_splits)
    have "accounts s'" using s' Added assms(1,3) by (simp add: accounts_def moves weights)
    moreover have "in_range s'" by (rule range_update [OF assms(2), where pc = Notify and k = k]) (use s' in \<open>auto simp: moves\<close>)
    ultimately show ?thesis by blast
  qed
  then show "accounts s'" "in_range s'" by blast+
qed

definition discarding :: "stop_pc \<Rightarrow> bool" where
  "discarding pc \<longleftrightarrow> (case pc of Clearing _ \<Rightarrow> True | ZeroPending \<Rightarrow> True | ZeroUnclaimed \<Rightarrow> True | _ \<Rightarrow> False)"

definition pool_inv :: "'t pool_sys \<Rightarrow> bool" where
  "pool_inv s \<longleftrightarrow> accounts s \<and> in_range s \<and> \<not> discarding (sy_stop s)"

lemma total_of_map: "total_of f (map g xs) = total_of (\<lambda>x. f (g x)) xs"
  by (simp add: total_of_def comp_def)

lemma pool_inv_stop:
  assumes "pool_inv s" and "stop_act s = Some s' \<or> stop_call True s = Some s'"
  shows "pool_inv s'"
proof -
  have quiet: "(\<lambda>pc. claimed (if pc = Waiting then AtLock else pc)) = claimed"
    "(\<lambda>pc. unfinished (if pc = Waiting then AtLock else pc)) = unfinished"
    "(\<lambda>pc. holds t (if pc = Waiting then AtLock else pc)) = holds t" for t :: 'a
    by (auto simp: weights fun_eq_iff split: worker_pc.splits)
  show ?thesis
    using assms unfolding stop_act_def stop_call_def
    by (auto simp: pool_inv_def accounts_def in_range_def discarding_def total_of_map quiet Let_def image_iff
        split: stop_pc.splits if_splits)
qed

lemma pool_inv_steps: "pool_steps keeps_tasks s s' \<Longrightarrow> pool_inv s \<Longrightarrow> pool_inv s'"
proof (induction rule: pool_steps.induct)
  case (step s s' a s'')
  note inv = step.IH [OF step.prems]
  show ?case
  proof (cases a)
    case (Worker start w)
    then have w: "w < length (sy_workers s')" "worker_act start w s' = Some s''" using step.hyps(2) by (auto simp: pool_act_def split: if_splits)
    then show ?thesis
      using inv accounts_worker [OF _ _ w] range_worker [OF _ w] worker_act_moves [OF w(2)] by (auto simp: pool_inv_def)
  next
    case (Submit task i k)
    then have k: "k < length (sy_subs s')" "submit_act task i k s' = Some s''" using step.hyps(2) by (auto simp: pool_act_def split: if_splits)
    then show ?thesis using inv accounts_submit [OF _ _ k] submit_act_moves [OF k(2)] by (auto simp: pool_inv_def)
  next
    case (StopCall wt)
    then have "stop_call True s' = Some s''" using step.hyps(2,3) by (cases wt) (auto simp: pool_act_def keeps_tasks_def)
    then show ?thesis using pool_inv_stop [OF inv] by blast
  qed (use step.hyps(2) pool_inv_stop [OF inv] in \<open>auto simp: pool_act_def\<close>)
qed simp

lemma total_of_0: "(\<And>x. x \<in> set xs \<Longrightarrow> f x = 0) \<Longrightarrow> total_of f xs = 0"
  by (induction xs) (simp_all add: total_of_def)

lemma total_of_replicate_0: "f x = 0 \<Longrightarrow> total_of f (replicate n x) = 0"
  by (rule total_of_0) simp

definition fresh_pool :: "'t ThreadPool \<Rightarrow> bool" where
  "fresh_pool p \<longleftrightarrow> (\<exists>config. 0 < wc_num_threads config \<and> p = new_pool_config config)"

lemma pool_inv_start: "fresh_pool p \<Longrightarrow> pool_inv (pool_start p n) \<and> wakeup_inv (pool_start p n)"
  using wakeup_start [of p n]
  by (auto simp: fresh_pool_def pool_inv_def accounts_def in_range_def discarding_def pool_start_def new_pool_config_def
      pool_isRunning_def total_of_replicate_0 weights)

text \<open>Tasks that are queued, and the tasks the workers hold.\<close>

lemma total_size_of: "total_of size_of qs = of_nat (length (concat qs))"
  by (induction qs) (simp_all add: total_of_def size_of_def)

lemma total_copies: "total_of (copies t) qs = int (count_list (concat qs) t)"
  by (induction qs) (simp_all add: total_of_def copies_def)

definition held :: "'t worker_pc list \<Rightarrow> 't list" where
  "held ws = concat (map (\<lambda>pc. case pc of Claimed x \<Rightarrow> [x] | Running x \<Rightarrow> [x] | _ \<Rightarrow> []) ws)"

lemma total_holds: "total_of (holds t) ws = int (count_list (held ws) t)"
  by (induction ws) (auto simp: total_of_def holds_def held_def split: worker_pc.splits)

lemma total_claimed: "total_of claimed ws = of_nat (length (filter (\<lambda>pc. claimed pc = 1) ws))"
  by (induction ws) (auto simp: total_of_def claimed_def split: worker_pc.splits)

lemma claimed_held: "length (filter (\<lambda>pc. claimed pc = 1) ws) \<le> length (held ws)"
  by (induction ws) (auto simp: held_def claimed_def split: worker_pc.splits)

lemma accounts_tasks:
  assumes "accounts s"
  shows "mset (sy_accepted s) = mset (pool_tasks (sy_pool s)) + mset (held (sy_workers s)) + mset (sy_executed s)"
proof (rule multiset_eqI)
  fix t
  have "int (count_list (sy_accepted s) t) =
      int (count_list (pool_tasks (sy_pool s)) t) + int (count_list (held (sy_workers s)) t) + int (count_list (sy_executed s) t)"
    using assms by (simp add: accounts_def pool_tasks_def total_copies [symmetric] total_holds [symmetric] copies_def)
  then show "count (mset (sy_accepted s)) t =
      count (mset (pool_tasks (sy_pool s)) + mset (held (sy_workers s)) + mset (sy_executed s)) t"
    by (simp add: count_mset del: of_nat_add add: of_nat_add [symmetric])
qed

text \<open>With no submission half way, the counter says whether there is a task to claim.\<close>

definition published :: "'t pool_sys \<Rightarrow> bool" where
  "published s \<longleftrightarrow> (\<forall>pc\<in>set (sy_subs s). pc = NoTask \<or> pc = Added \<or> pc = Notify)"

lemma unclaimed_zero:
  assumes "pool_inv s" and "published s" and "length (sy_accepted s) < 2 ^ 64"
  shows "tp_unclaimedTasks (sy_pool s) = 0 \<longleftrightarrow> pool_tasks (sy_pool s) = [] \<and> (\<forall>pc\<in>set (sy_workers s). claimed pc = 0)"
proof -
  let ?c = "filter (\<lambda>pc. claimed pc = 1) (sy_workers s)"
  have "total_of unpublished (sy_subs s) = 0"
    using assms(2) by (intro total_of_0) (auto simp: published_def unpublished_def)
  then have "tp_unclaimedTasks (sy_pool s) = of_nat (length (pool_tasks (sy_pool s)) + length ?c)"
    using assms(1) by (simp add: pool_inv_def accounts_def total_size_of total_claimed pool_tasks_def)
  moreover have "length (sy_accepted s) = length (pool_tasks (sy_pool s)) + length (held (sy_workers s)) + length (sy_executed s)"
    using accounts_tasks [of s] assms(1) unfolding pool_inv_def by (metis size_mset size_union)
  then have "length (pool_tasks (sy_pool s)) + length ?c < 2 ^ 64" using assms(3) claimed_held [of "sy_workers s"] by linarith
  moreover have "(of_nat m :: 64 word) = 0 \<longleftrightarrow> m = 0" if "m < 2 ^ 64" for m
    using that nat_dvd_not_less [of m "2 ^ 64"] by (cases "m = 0") (auto simp: word_of_nat_eq_0_iff)
  ultimately have "tp_unclaimedTasks (sy_pool s) = 0 \<longleftrightarrow> length (pool_tasks (sy_pool s)) + length ?c = 0" by (simp only:)
  then show ?thesis by (auto simp: filter_empty_conv claimed_def split: worker_pc.splits)
qed

section \<open>Properties\<close>

text \<open>
  C28. No wake-up is lost.  While the pool runs and every submission has been published and
  notified, a queued task keeps at least one worker away from the condition variable: it is not
  possible that all workers sleep although there is work.
\<close>

theorem no_lost_wakeup:
  assumes "fresh_pool p" and "pool_steps keeps_tasks (pool_start p n) s" and "length (sy_accepted s) < 2 ^ 64"
    and "\<forall>pc\<in>set (sy_subs s). pc = NoTask" and "sy_stop s = NoStop" and "pool_tasks (sy_pool s) \<noteq> []"
  shows "\<exists>w<length (sy_workers s). \<not> asleep s (sy_workers s ! w) \<and> sy_workers s ! w \<noteq> Exited"
proof -
  have inv: "pool_inv s" "wakeup_inv s"
    using pool_inv_start [OF assms(1)] pool_inv_steps [OF assms(2)] wakeup_steps [OF assms(2)] by blast+
  have "signal_due s" using unclaimed_zero [OF inv(1) _ assms(3)] assms(4,6) by (auto simp: published_def signal_due_def)
  moreover have "\<not> signal_coming s" using assms(4,5) by (auto simp: signal_coming_def before_lock_def)
  ultimately obtain pc where "pc \<in> set (sy_workers s)" "\<not> asleep s pc" "Exited \<notin> set (sy_workers s)"
    using inv(2) assms(5) by (auto simp: wakeup_inv_def)
  then show ?thesis by (metis in_set_conv_nth)
qed

text \<open>What holds from a graceful stop on, if no submission was half way when it began.\<close>

definition draining :: "'t pool_sys \<Rightarrow> bool" where
  "draining s \<longleftrightarrow> \<not> pool_isRunning (sy_pool s) \<and> published s \<and> (Exited \<in> set (sy_workers s) \<longrightarrow> pool_tasks (sy_pool s) = [])"

lemma concat_shrink: "i < length qs \<Longrightarrow> set q \<subseteq> set (qs ! i) \<Longrightarrow> set (concat (qs[i := q])) \<subseteq> set (concat qs)"
  using set_update_subset_insert [of qs i q] nth_mem [of i qs] by fastforce

lemma draining_worker:
  assumes "pool_inv s" and "draining s" and "length (sy_accepted s) < 2 ^ 64" and "w < length (sy_workers s)" and "worker_act start w s = Some s'"
  shows "draining s' \<and> sy_accepted s' = sy_accepted s"
proof -
  obtain pc where ws: "sy_workers s' = (sy_workers s)[w := pc]" and same: "sy_subs s' = sy_subs s" "tp_state (sy_pool s') = tp_state (sy_pool s)"
    using worker_act_moves [OF assms(5)] by blast
  have frame: "sy_accepted s' = sy_accepted s \<and> set (pool_tasks (sy_pool s')) \<subseteq> set (pool_tasks (sy_pool s)) \<and>
      (pc = Exited \<longrightarrow> tp_unclaimedTasks (sy_pool s) = 0)"
  proof -
    have n: "w < length (tp_queues (sy_pool s))" using assms(1,4) by (simp add: pool_inv_def in_range_def)
    have v: "v < length (tp_queues (sy_pool s))" if "sy_workers s ! w = Stealing (v # vs)" for v vs
      using assms(1) nth_mem [OF assms(4)] that by (auto simp: pool_inv_def in_range_def)
    have pc: "sy_workers s' ! w = pc" using ws assms(4) by simp
    have a: "sy_accepted s' = sy_accepted s" "pc = Exited \<longrightarrow> tp_unclaimedTasks (sy_pool s) = 0"
      using assms(4,5) pc unfolding worker_act_def
      by (auto simp: Let_def moves split: worker_pc.splits prod.splits option.splits list.splits if_splits)
    have "tp_queues (sy_pool s') = tp_queues (sy_pool s) \<or> tp_queues (sy_pool s') = (tp_queues (sy_pool s))[w := tl (tp_queues (sy_pool s) ! w)] \<or>
      (\<exists>v vs. sy_workers s ! w = Stealing (v # vs) \<and> tp_queues (sy_pool s') = (tp_queues (sy_pool s))[v := butlast (tp_queues (sy_pool s) ! v)])"
      using assms(5) unfolding worker_act_def
      by (auto simp: Let_def moves popFront_def stealBack_def finish_task_def split: worker_pc.splits prod.splits option.splits list.splits if_splits)
    then have "set (pool_tasks (sy_pool s')) \<subseteq> set (pool_tasks (sy_pool s))"
    proof (elim disjE exE conjE)
      assume "tp_queues (sy_pool s') = (tp_queues (sy_pool s))[w := tl (tp_queues (sy_pool s) ! w)]"
      moreover have "set (tl (tp_queues (sy_pool s) ! w)) \<subseteq> set (tp_queues (sy_pool s) ! w)" by (cases "tp_queues (sy_pool s) ! w") auto
      ultimately show ?thesis using concat_shrink [OF n] unfolding pool_tasks_def by simp
    next
      fix v vs
      assume "sy_workers s ! w = Stealing (v # vs)" "tp_queues (sy_pool s') = (tp_queues (sy_pool s))[v := butlast (tp_queues (sy_pool s) ! v)]"
      moreover have "set (butlast (tp_queues (sy_pool s) ! v)) \<subseteq> set (tp_queues (sy_pool s) ! v)" by (auto dest: in_set_butlastD)
      ultimately show ?thesis using concat_shrink [OF v] unfolding pool_tasks_def by simp
    qed (simp add: pool_tasks_def)
    then show ?thesis using a by blast
  qed
  have pub: "published s" using assms(2) by (simp add: draining_def)
  have "pool_tasks (sy_pool s) = []" if "Exited \<in> set (sy_workers s')"
  proof (cases "pc = Exited")
    case True
    then show ?thesis using frame unclaimed_zero [OF assms(1) pub assms(3)] by simp
  next
    case False
    then have "Exited \<in> set (sy_workers s)" using that ws set_update_subset_insert [of "sy_workers s" w pc] by auto
    then show ?thesis using assms(2) by (simp add: draining_def)
  qed
  then show ?thesis using assms(2) frame same by (auto simp: draining_def published_def pool_isRunning_def)
qed

lemma draining_other:
  assumes "draining s" and "k < length (sy_subs s) \<and> submit_act task i k s = Some s' \<or> stop_act s = Some s' \<and> \<not> discarding (sy_stop s)"
  shows "draining s' \<and> sy_accepted s' = sy_accepted s"
  using assms(2)
proof
  assume k: "k < length (sy_subs s) \<and> submit_act task i k s = Some s'"
  then have "sy_subs s ! k \<in> {NoTask, Added, Notify}" using assms(1) nth_mem [of k "sy_subs s"] unfolding draining_def published_def by blast
  then have "(\<exists>s0. wake_one i s = Some s0 \<and> s' = goto_sub k NoTask s0) \<or> s' = goto_sub k Notify s"
    using k assms(1) by (auto simp: submit_act_def draining_def Let_def split: if_splits)
  then obtain pc where s': "sy_subs s' = (sy_subs s)[k := pc]" "pc = NoTask \<or> pc = Notify" "sy_pool s' = sy_pool s" "sy_accepted s' = sy_accepted s"
    "sy_workers s' = sy_workers s \<or> sy_workers s' = (sy_workers s)[i := AtLock]"
    by (elim disjE exE conjE) (auto simp: wake_one_def moves split: if_splits)
  have "published s'"
    unfolding published_def s'(1) using assms(1) s'(2) set_update_subset_insert [of "sy_subs s" k pc]
    by (fastforce simp: draining_def published_def)
  moreover have "Exited \<in> set (sy_workers s') \<Longrightarrow> Exited \<in> set (sy_workers s)"
    using s'(5) set_update_subset_insert [of "sy_workers s" _ AtLock] by fastforce
  ultimately show ?thesis using assms(1) s'(3,4) by (auto simp: draining_def)
next
  assume "stop_act s = Some s' \<and> \<not> discarding (sy_stop s)"
  then show ?thesis using assms(1)
    by (auto simp: stop_act_def Let_def discarding_def draining_def published_def pool_isRunning_def pool_tasks_def image_iff split: stop_pc.splits if_splits)
qed

lemma draining_step:
  assumes "draining s" and "sy_stop s \<noteq> NoStop" and "pool_inv s" and "length (sy_accepted s) < 2 ^ 64"
    and "pool_act a s = Some s'"
  shows "draining s' \<and> sy_accepted s' = sy_accepted s \<and> sy_stop s' \<noteq> NoStop"
proof (cases a)
  case (Worker st w)
  then have w: "w < length (sy_workers s)" "worker_act st w s = Some s'" using assms(5) by (auto simp: pool_act_def split: if_splits)
  show ?thesis using draining_worker [OF assms(3,1,4) w] worker_act_moves [OF w(2)] assms(2) by auto
next
  case (Submit task i k)
  then have k: "k < length (sy_subs s)" "submit_act task i k s = Some s'" using assms(5) by (auto simp: pool_act_def split: if_splits)
  show ?thesis using draining_other [OF assms(1), of k task i s'] k submit_act_moves [OF k(2)] assms(2) by simp
next
  case (StopCall wt)
  then show ?thesis using assms(2,5) by (simp add: pool_act_def stop_call_def)
next
  case StopStep
  then have st: "stop_act s = Some s'" using assms(5) by (simp add: pool_act_def)
  then have "sy_stop s' \<noteq> NoStop" by (auto simp: stop_act_def Let_def split: stop_pc.splits if_splits)
  then show ?thesis using draining_other [OF assms(1), of 0 _ 0 s'] st assms(3) by (simp add: pool_inv_def)
qed

lemma draining_steps:
  assumes "pool_steps keeps_tasks s s'" and "draining s" and "sy_stop s \<noteq> NoStop" and "pool_inv s" and "length (sy_accepted s) < 2 ^ 64"
  shows "draining s' \<and> sy_accepted s' = sy_accepted s \<and> sy_stop s' \<noteq> NoStop \<and> pool_inv s'"
  using assms
proof (induction rule: pool_steps.induct)
  case (step s s' a s'')
  then have IH: "draining s'" "sy_stop s' \<noteq> NoStop" "pool_inv s'" "length (sy_accepted s') < 2 ^ 64" "sy_accepted s' = sy_accepted s" by auto
  have "pool_steps keeps_tasks s' s''" using pool_steps.step [OF pool_steps.start step.hyps(2)] step.hyps(3) by blast
  then have "pool_inv s''" using pool_inv_steps IH(3) by blast
  then show ?case using draining_step [OF IH(1-4) step.hyps(2)] IH(5) by simp
qed simp

text \<open>
  C29. A graceful shutdown loses nothing: if no submission is half way when
  \<open>shutdown(true)\<close> begins, then every task that was ever accepted has run, exactly as often as
  it was submitted, once all workers have returned, in whatever order the threads
  interleave.
\<close>

theorem shutdown_drains:
  assumes "fresh_pool p" and "pool_steps keeps_tasks (pool_start p n) s" and "length (sy_accepted s) < 2 ^ 64"
    and "published s" and "stop_call True s = Some s1" and "pool_steps keeps_tasks s1 s2" and "\<forall>pc\<in>set (sy_workers s2). pc = Exited"
  shows "mset (sy_executed s2) = mset (sy_accepted s) \<and> pool_tasks (sy_pool s2) = []"
proof -
  have inv: "pool_inv s" "wakeup_inv s"
    using pool_inv_start [OF assms(1)] pool_inv_steps [OF assms(2)] wakeup_steps [OF assms(2)] by blast+
  have s1: "draining s1 \<and> sy_accepted s1 = sy_accepted s \<and> sy_stop s1 \<noteq> NoStop"
    using assms(4,5) inv(2) by (auto simp: stop_call_def draining_def published_def pool_isRunning_def wakeup_inv_def split: if_splits)
  have "pool_inv s1" using pool_inv_stop [OF inv(1)] assms(5) by blast
  then have end_s: "draining s2" "sy_accepted s2 = sy_accepted s" "pool_inv s2"
    using draining_steps [OF assms(6)] s1 assms(3) by auto
  have "held (sy_workers s2) = []" using assms(7) by (auto simp: held_def)
  moreover have "pool_tasks (sy_pool s2) = []"
  proof -
    have "sy_workers s2 \<noteq> []" using wakeup_steps [OF assms(6)] wakeup_stop [OF inv(2)] assms(5) by (auto simp: wakeup_inv_def)
    then show ?thesis using end_s(1) assms(7) by (cases "sy_workers s2") (auto simp: draining_def)
  qed
  ultimately show ?thesis using accounts_tasks [of s2] end_s by (simp add: pool_inv_def)
qed

lemma run_steps: "pool_run as s = Some s' \<Longrightarrow> list_all allowed as \<Longrightarrow> pool_steps allowed s0 s \<Longrightarrow> pool_steps allowed s0 s'"
  by (induction "as" arbitrary: s) (auto split: option.splits intro: pool_steps.step)

text \<open>A pool with one worker and one submitting thread, and a submission from its check to its notification.\<close>

definition demo_pool :: "nat pool_sys" where
  "demo_pool = pool_start (new_pool 1 256) 1"

definition demo_submit :: "nat pool_action list" where
  "demo_submit = replicate 6 (Submit 7 0 0)"

lemma demo_fresh: "fresh_pool (new_pool 1 256 :: nat ThreadPool)"
  unfolding fresh_pool_def new_pool_def by (intro exI [of _ "\<lparr> wc_num_threads = 1, wc_max_queue_size_per_worker = 256,
      wc_submit_timeout = 5000, wc_wait_for_tasks_on_stop = True, wc_steal_batch_size = 4 \<rparr>"]) simp

lemma demo_steps: "pool_run as demo_pool = Some s \<Longrightarrow> list_all keeps_tasks as \<Longrightarrow> pool_steps keeps_tasks (pool_start (new_pool 1 256) 1) s"
  unfolding demo_pool_def by (rule run_steps [OF _ _ pool_steps.start])

lemmas demo_simps = demo_submit_def demo_pool_def pool_start_def new_pool_def new_pool_config_def pool_act_def submit_act_def
  worker_act_def stop_act_def stop_call_def pool_isRunning_def moves pushFront_def popFront_def publishTask_def finish_task_def
  mutex_free_def wake_one_def pool_tasks_def keeps_tasks_def

theorem no_lost_wakeup_witness:
  "\<exists>s. pool_run demo_submit demo_pool = Some s \<and> pool_tasks (sy_pool s) = [7] \<and>
     (\<exists>w<length (sy_workers s). \<not> asleep s (sy_workers s ! w) \<and> sy_workers s ! w \<noteq> Exited)"
proof -
  obtain s where s: "pool_run demo_submit demo_pool = Some s" "sy_accepted s = [7]" "sy_subs s = [NoTask]" "sy_stop s = NoStop"
      "pool_tasks (sy_pool s) = [7]" "list_all keeps_tasks demo_submit"
    by (simp add: demo_simps numeral_eq_Suc)
  then show ?thesis using no_lost_wakeup [OF demo_fresh demo_steps [OF s(1,6)]] by simp
qed

theorem shutdown_drains_witness:
  "\<exists>s s1 s2. pool_run demo_submit demo_pool = Some s \<and> stop_call True s = Some s1 \<and> pool_run (replicate 7 (Worker 0 0)) s1 = Some s2 \<and>
     sy_workers s2 = [Exited] \<and> mset (sy_executed s2) = {#7#}"
proof -
  obtain s s1 s2 where s: "pool_run demo_submit demo_pool = Some s" "sy_accepted s = [7]" "sy_subs s = [NoTask]" "list_all keeps_tasks demo_submit"
    and s1: "stop_call True s = Some s1"
    and s2: "pool_run (replicate 7 (Worker 0 0)) s1 = Some s2" "sy_workers s2 = [Exited]"
    by (simp add: demo_simps numeral_eq_Suc)
  have "pool_steps keeps_tasks s1 s2" by (rule run_steps [OF s2(1) _ pool_steps.start]) (simp add: keeps_tasks_def list_all_iff)
  then have "mset (sy_executed s2) = {#7#}"
    using shutdown_drains [OF demo_fresh demo_steps [OF s(1,4)] _ _ s1, of s2] s s2 by (simp add: published_def)
  then show ?thesis using s s1 s2 by blast
qed

text \<open>
  C30. A submission that races with a graceful shutdown can be lost: the submitter has read
  that the pool runs, the workers see the stop and no unclaimed task and return, and the
  task is pushed in between.  The submission succeeds and \<open>shutdown(true)\<close> returns, but the
  task never runs.
\<close>

theorem late_submission_lost:
  "\<exists>s. pool_steps keeps_tasks (pool_start (new_pool 1 256) 1) s \<and> sy_stop s = StopDone \<and> sy_subs s = [NoTask] \<and>
     sy_accepted s = [7::nat] \<and> sy_executed s = [] \<and> pool_tasks (sy_pool s) = [7]"
proof -
  let ?as = "[Submit (7::nat) 0 0, StopCall True, Worker 0 0, Worker 0 0, Submit 7 0 0, Worker 0 0, StopStep, StopStep, StopStep] @
    replicate 4 (Submit 7 0 0)"
  obtain s where "pool_run ?as demo_pool = Some s" "sy_stop s = StopDone" "sy_subs s = [NoTask]" "sy_accepted s = [7]" "sy_executed s = []"
      "pool_tasks (sy_pool s) = [7]" "list_all keeps_tasks ?as"
    by (simp add: demo_simps numeral_eq_Suc)
  then show ?thesis using demo_steps by blast
qed

text \<open>A pool whose counter has wrapped below zero while it stops: its workers look for tasks forever.\<close>

definition spinning :: "'t pool_sys \<Rightarrow> bool" where
  "spinning s \<longleftrightarrow> tp_unclaimedTasks (sy_pool s) = - 1 \<and> (\<forall>i<length (tp_queues (sy_pool s)). tp_queues (sy_pool s) ! i = []) \<and>
     tp_state (sy_pool s) = KStopping \<and> sy_stop s = Joining \<and> (\<forall>pc\<in>set (sy_subs s). pc = NoTask) \<and> sy_workers s \<noteq> [] \<and> in_range s \<and>
     (\<forall>pc\<in>set (sy_workers s). pc = Fetch \<or> (\<exists>vs. pc = Stealing vs) \<or> pc = Empty \<or> pc = Draining)"

lemma spinning_worker:
  assumes "spinning s" and "w < length (sy_workers s)" and "worker_act start w s = Some s'"
  shows "spinning s'"
proof -
  have mem: "sy_workers s ! w \<in> set (sy_workers s)" using assms(2) by simp
  have q: "w < length (tp_queues (sy_pool s))" "tp_queues (sy_pool s) ! w = []" using assms(1,2) by (auto simp: spinning_def in_range_def)
  have v: "tp_queues (sy_pool s) ! v = []" if "sy_workers s ! w = Stealing (v # vs)" for v vs
    using assms(1) mem that by (auto simp: spinning_def in_range_def)
  have "\<exists>pc. s' = goto_worker w pc s \<and> (pc = Fetch \<or> (\<exists>vs. pc = Stealing vs) \<or> pc = Empty \<or> pc = Draining)"
  proof -
    have "sy_workers s ! w = Fetch \<or> (\<exists>vs. sy_workers s ! w = Stealing vs) \<or> sy_workers s ! w = Empty \<or> sy_workers s ! w = Draining"
      using assms(1) mem by (simp add: spinning_def)
    moreover have "tp_unclaimedTasks (sy_pool s) \<noteq> 0" "\<not> pool_isRunning (sy_pool s)"
      using assms(1) by (simp_all add: spinning_def pool_isRunning_def)
    ultimately have "s' = goto_worker w Fetch s \<or> (\<exists>vs. s' = goto_worker w (Stealing vs) s) \<or> s' = goto_worker w Empty s \<or> s' = goto_worker w Draining s"
      using assms(3) q v unfolding worker_act_def by (auto simp: Let_def popFront_def stealBack_def split: list.splits if_splits)
    then show ?thesis by blast
  qed
  then obtain pc where pc: "s' = goto_worker w pc s" "pc = Fetch \<or> (\<exists>vs. pc = Stealing vs) \<or> pc = Empty \<or> pc = Draining" by blast
  have "in_range s'" using range_worker [OF _ assms(2,3)] assms(1) by (simp add: spinning_def)
  then show ?thesis
    using assms(1) pc set_update_subset_insert [of "sy_workers s" w pc] by (auto simp: spinning_def goto_worker_def)
qed

lemma spinning_forever: "pool_steps allowed s s' \<Longrightarrow> spinning s \<Longrightarrow> spinning s'"
proof (induction rule: pool_steps.induct)
  case (step s s' a s'')
  note spin = step.IH [OF step.prems]
  show ?case
  proof (cases a)
    case (Worker st w)
    then show ?thesis using step.hyps(2) spinning_worker [OF spin] by (auto simp: pool_act_def split: if_splits)
  next
    case (Submit task i k)
    then have "k < length (sy_subs s')" "sy_subs s' ! k = NoTask" using step.hyps(2) spin by (auto simp: pool_act_def spinning_def split: if_splits)
    then show ?thesis using Submit step.hyps(2) spin by (auto simp: pool_act_def submit_act_def spinning_def pool_isRunning_def)
  next
    case StopStep
    have "\<not> list_all (\<lambda>pc. pc = Exited) (sy_workers s')" using spin by (cases "sy_workers s'") (auto simp: spinning_def)
    then show ?thesis using StopStep step.hyps(2) spin by (auto simp: pool_act_def stop_act_def spinning_def)
  qed (use step.hyps(2) spin in \<open>auto simp: pool_act_def stop_call_def spinning_def\<close>)
qed simp

text \<open>
  C31. \<open>shutdown(false)\<close> can hang.  It resets \<open>m_unclaimedTasks\<close> to zero; a worker that has
  already taken a task but not yet counted it then decrements the counter below zero.  The counter
  wraps, the workers never see it at zero again, and in every state from there on the
  shutdown is still joining them.
\<close>

theorem discarding_shutdown_hangs:
  "\<exists>s. pool_steps (\<lambda>_. True) (pool_start (new_pool 1 256 :: nat ThreadPool) 1) s \<and> sy_stop s = Joining \<and>
     {s'. pool_steps (\<lambda>_. True) s s'} \<subseteq> {s'. sy_stop s' = Joining}"
proof -
  let ?as = "demo_submit @ [Worker 0 0, StopCall False] @ replicate 4 StopStep @ replicate 3 (Worker 0 0) @ [StopStep, StopStep]"
  obtain s where s: "pool_run ?as demo_pool = Some s" "spinning s"
    by (simp add: demo_simps spinning_def in_range_def numeral_eq_Suc)
  have "pool_steps (\<lambda>_. True) (pool_start (new_pool 1 256) 1) s"
    using run_steps [OF s(1) _ pool_steps.start] by (simp add: demo_pool_def list_all_iff)
  moreover have "sy_stop s' = Joining" if "pool_steps (\<lambda>_. True) s s'" for s'
    using spinning_forever [OF that s(2)] by (simp add: spinning_def)
  ultimately show ?thesis using s(2) by (auto simp: spinning_def)
qed

end
