(* ===== verification/Engine_State.thy ===== *)
theory Engine_State
  imports Port_Queue Frame_Alignment Schedulers Join_Sync Thread_Pool "HOL-Library.AList"
begin

text \<open>
  The execution engine (\<open>execution_engine_impl.hpp\<close>, \<open>execution_engine_impl.cpp\<close>): its state, the
  operations on the queues of its nodes, the statistics, the life cycle of the nodes and
  the set-up of an engine for a graph.  Scheduling and the execution of nodes follow in
  \<open>Join_Gather\<close>, \<open>Engine_Exec\<close> and \<open>Engine_Api\<close>.

  \<^item> \<open>NodeState\<close> and \<open>Engine\<close> are the structures of the header.  The queues of a node are
    the list queues of theory \<open>Port_Queue\<close>, in the order of the input ports; the pool is the
    one of theory \<open>Thread_Pool\<close>.
  \<^item> What the engine calls and does not own is a parameter, the record \<open>hooks\<close>: the
    virtual functions of the nodes, the clock, the order in which an unordered container is visited.  They act on a world that
    also has the cancellation flags of the contexts.  A hook may throw.
  \<^item> One call runs at a time.  A task runs from its start to its end, at any
    time after it was posted.  Locks, notifications of waiters, log lines and trace
    events are left out; the user's callbacks are recorded in the order of their calls.
\<close>

section \<open>The surroundings\<close>

text \<open>How a call of user code ends: it returns, or it throws a \<open>std::exception\<close> or anything else.\<close>

datatype 'a attempt = Returned 'a | ThrewStd string | ThrewUnknown

record 'w world =
  wd_cancelled :: "ptr \<Rightarrow> bool"
  wd_ext :: 'w

record ('v, 'w) hooks =
  hk_env :: node_env
  hk_now :: "'w world \<Rightarrow> Timestamp \<times> 'w world"
  hk_setup :: "ptr \<Rightarrow> ptr option \<Rightarrow> 'w world \<Rightarrow> void_result attempt \<times> 'w world"
  hk_teardown :: "ptr \<Rightarrow> 'w world \<Rightarrow> 'w world"
  hk_process :: "ptr \<Rightarrow> 'v PortDataMap \<Rightarrow> ptr option \<Rightarrow> 'w world \<Rightarrow> 'v PortDataMap attempt \<times> 'w world"
  hk_onEndOfStream :: "ptr \<Rightarrow> ptr option \<Rightarrow> 'w world \<Rightarrow> 'v PortDataMap attempt \<times> 'w world"
  hk_order :: "nat list \<Rightarrow> nat list"
  hk_submit_rounds :: nat

section \<open>State\<close>

datatype NodeExecutionState = WAITING | READY | EXECUTING | COMPLETED | FAILED

datatype EngineState = EngineIDLE | EngineRUNNING | EngineSTOPPED | EngineERROR

definition k_max_eos_ports :: nat where
  "k_max_eos_ports = 64"

record 'v NodeState =
  nd_node :: ptr
  nd_name :: string
  nd_index :: nat
  nd_input_ports :: "string list"
  nd_queues :: "'v PortDataPtr port_queue list"
  nd_sync_tracked :: bool
  nd_stats :: AtomicNodeStatistics
  nd_exec_state :: NodeExecutionState
  nd_last_execution_ticks :: Timestamp
  nd_execution_count :: nat
  nd_join_wait_since_ticks :: Timestamp
  nd_degrade_pending :: bool
  nd_defer_pending :: bool
  nd_eos_mask :: "64 word"
  nd_eos_propagated :: bool
  nd_queue_config :: QueueConfig

text \<open>A posted task: the index of the node, the captured context and the time of the call.\<close>

type_synonym task = "nat \<times> ptr option \<times> Timestamp"

text \<open>The calls of the user's callbacks.\<close>

datatype 'v callback_call =
    ResultCall "'v PortDataMap"
  | ErrorCall string string
  | DropCall string FrameId string
  | EndOfStreamCall

record callbacks =
  cb_result :: bool
  cb_error :: bool
  cb_drop :: bool
  cb_endOfStream :: bool

record ('v, 'w) Engine =
  en_config :: EngineConfig
  en_nodeQueueConfigs :: "string \<Rightarrow> QueueConfig option"
  en_scheduler :: ISchedulerStrategy
  en_sync :: ISyncStrategy
  en_compiled :: "CompiledGraph option"
  en_pool :: "task ThreadPool option"
  en_worker :: "nat option"
  en_context :: "ptr option"
  en_states :: "'v NodeState list"
  en_multiInput :: "nat list"
  en_watchdog :: bool
  en_deferQueue :: "(Timestamp \<times> nat) list"
  en_deferRunning :: bool
  en_setUpNodes :: "ptr list"
  en_nextFrameId :: FrameId
  en_nextStreamFrameId :: "StreamId \<Rightarrow> FrameId"
  en_state :: EngineState
  en_activeTasks :: int
  en_completionReported :: bool
  en_stopFlag :: bool
  en_streamingMode :: bool
  en_sinkCount :: nat
  en_sinksAtEos :: nat
  en_endOfStreamReached :: bool
  en_results :: "'v PortDataMap"
  en_callbacks :: callbacks
  en_calls :: "'v callback_call list"
  en_statistics :: EngineStatistics
  en_world :: "'w world"

definition stateToString :: "EngineState \<Rightarrow> string" where
  "stateToString state = (case state of EngineIDLE \<Rightarrow> ''IDLE'' | EngineRUNNING \<Rightarrow> ''RUNNING''
     | EngineSTOPPED \<Rightarrow> ''STOPPED'' | EngineERROR \<Rightarrow> ''ERROR'')"

section \<open>Access to the state\<close>

definition stateByIndex :: "nat \<Rightarrow> ('v, 'w) Engine \<Rightarrow> 'v NodeState option" where
  "stateByIndex index e = (if index < length (en_states e) then Some (en_states e ! index) else None)"

definition stateByName :: "string \<Rightarrow> ('v, 'w) Engine \<Rightarrow> 'v NodeState option" where
  "stateByName name e = (case en_compiled e of None \<Rightarrow> None | Some g \<Rightarrow> stateByIndex (indexOf g name) e)"

definition stateByPtr :: "ptr \<Rightarrow> ('v, 'w) Engine \<Rightarrow> 'v NodeState option" where
  "stateByPtr node e = (case en_compiled e of None \<Rightarrow> None | Some g \<Rightarrow> stateByIndex (indexOfPtr g node) e)"

definition upd_node :: "nat \<Rightarrow> ('v NodeState \<Rightarrow> 'v NodeState) \<Rightarrow> ('v, 'w) Engine \<Rightarrow> ('v, 'w) Engine" where
  "upd_node i f e = e \<lparr> en_states := (en_states e)[i := f (en_states e ! i)] \<rparr>"

definition upd_stats :: "(EngineStatistics \<Rightarrow> EngineStatistics) \<Rightarrow> ('v, 'w) Engine \<Rightarrow> ('v, 'w) Engine" where
  "upd_stats f e = e \<lparr> en_statistics := f (en_statistics e) \<rparr>"

definition log_call :: "'v callback_call \<Rightarrow> ('v, 'w) Engine \<Rightarrow> ('v, 'w) Engine" where
  "log_call c e = e \<lparr> en_calls := en_calls e @ [c] \<rparr>"

definition read_clock :: "('v, 'w) hooks \<Rightarrow> ('v, 'w) Engine \<Rightarrow> Timestamp \<times> ('v, 'w) Engine" where
  "read_clock H e = (case hk_now H (en_world e) of (t, w) \<Rightarrow> (t, e \<lparr> en_world := w \<rparr>))"

definition the_graph :: "('v, 'w) Engine \<Rightarrow> CompiledGraph" where
  "the_graph e = the (en_compiled e)"

definition outEdges :: "nat \<Rightarrow> ('v, 'w) Engine \<Rightarrow> OutEdge list" where
  "outEdges i e = cg_outEdges (the_graph e) ! i"

text \<open>The position of the queue of a port; \<open>lock_free_queues\<close> has one entry per input port.\<close>

definition port_position :: "'v NodeState \<Rightarrow> string \<Rightarrow> nat option" where
  "port_position st port = find_index (\<lambda>p. p = port) (nd_input_ports st)"

definition upd_queue :: "nat \<Rightarrow> nat \<Rightarrow> 'v PortDataPtr port_queue \<Rightarrow> ('v, 'w) Engine \<Rightarrow> ('v, 'w) Engine" where
  "upd_queue i k q e = upd_node i (\<lambda>st. st \<lparr> nd_queues := (nd_queues st)[k := q] \<rparr>) e"

definition queue_at :: "nat \<Rightarrow> nat \<Rightarrow> ('v, 'w) Engine \<Rightarrow> 'v PortDataPtr port_queue" where
  "queue_at i k e = nd_queues (en_states e ! i) ! k"

section \<open>Callbacks\<close>

definition setPipelineResultCallback :: "bool \<Rightarrow> ('v, 'w) Engine \<Rightarrow> ('v, 'w) Engine" where
  "setPipelineResultCallback callback e = e \<lparr> en_callbacks := (en_callbacks e) \<lparr> cb_result := callback \<rparr> \<rparr>"

definition setPipelineErrorCallback :: "bool \<Rightarrow> ('v, 'w) Engine \<Rightarrow> ('v, 'w) Engine" where
  "setPipelineErrorCallback callback e = e \<lparr> en_callbacks := (en_callbacks e) \<lparr> cb_error := callback \<rparr> \<rparr>"

definition setEngineDropCallback :: "bool \<Rightarrow> ('v, 'w) Engine \<Rightarrow> ('v, 'w) Engine" where
  "setEngineDropCallback callback e = e \<lparr> en_callbacks := (en_callbacks e) \<lparr> cb_drop := callback \<rparr> \<rparr>"

definition setEndOfStreamCallback :: "bool \<Rightarrow> ('v, 'w) Engine \<Rightarrow> ('v, 'w) Engine" where
  "setEndOfStreamCallback callback e = e \<lparr> en_callbacks := (en_callbacks e) \<lparr> cb_endOfStream := callback \<rparr> \<rparr>"

definition invokeEndOfStreamCallback :: "('v, 'w) Engine \<Rightarrow> ('v, 'w) Engine" where
  "invokeEndOfStreamCallback e = (if cb_endOfStream (en_callbacks e) then log_call EndOfStreamCall e else e)"

definition invokeResultCallback :: "'v PortDataMap \<Rightarrow> ('v, 'w) Engine \<Rightarrow> ('v, 'w) Engine" where
  "invokeResultCallback results e = (if cb_result (en_callbacks e) then log_call (ResultCall results) e else e)"

definition invokeErrorCallback :: "string \<Rightarrow> string \<Rightarrow> ('v, 'w) Engine \<Rightarrow> ('v, 'w) Engine" where
  "invokeErrorCallback message node e = (if cb_error (en_callbacks e) then log_call (ErrorCall message node) e else e)"

definition invokeDropCallback :: "string \<Rightarrow> FrameId \<Rightarrow> string \<Rightarrow> ('v, 'w) Engine \<Rightarrow> ('v, 'w) Engine" where
  "invokeDropCallback node frame_id reason e =
     (if cb_drop (en_callbacks e) then log_call (DropCall node frame_id reason) e else e)"

section \<open>Queue operations\<close>

text \<open>The reason a queue gives for an eviction when one thread pushes at a time.\<close>

definition drop_reason :: "'a port_queue \<Rightarrow> string" where
  "drop_reason q = (case nqc_drop_policy (pq_config q) of
     KeepLatest \<Rightarrow> if pq_cap q < max (unat (nqc_keep_latest_n (pq_config q))) 1 then ''KeepLatest force overflow'' else ''KeepLatest overflow''
   | _ \<Rightarrow> ''DropHead overflow'')"

definition packet_frame :: "'v PortDataPtr \<Rightarrow> FrameId" where
  "packet_frame data = (case data of None \<Rightarrow> k_invalid_frame_id | Some p \<Rightarrow> dp_id p)"

text \<open>The drop callback that \<open>setupDropCallbacks\<close> installs on the queues of node \<open>name\<close>.\<close>

definition on_queue_drop :: "string \<Rightarrow> string \<Rightarrow> 'v PortDataPtr \<Rightarrow> ('v, 'w) Engine \<Rightarrow> ('v, 'w) Engine" where
  "on_queue_drop name reason data e =
     (let e = upd_stats (\<lambda>s. s \<lparr> total_dropped_frames := total_dropped_frames s + 1 \<rparr>) e;
          e = invokeDropCallback name (packet_frame data) reason e
      in if sync_isEnabled (en_sync e) \<and> packet_frame data \<noteq> k_invalid_frame_id
         then e \<lparr> en_sync := snd (sync_reportDrop name (packet_frame data) reason (en_sync e)) \<rparr> else e)"

definition push_queue :: "nat \<Rightarrow> nat \<Rightarrow> 'v PortDataPtr \<Rightarrow> ('v, 'w) Engine \<Rightarrow> bool \<times> ('v, 'w) Engine" where
  "push_queue i k data e =
     (let q = queue_at i k e
      in case pq_push q data of
           (ok, gone, q') \<Rightarrow> (ok, foldl (\<lambda>e item. on_queue_drop (nd_name (en_states e ! i)) (drop_reason q) item e) (upd_queue i k q' e) gone))"

definition pop_queue :: "nat \<Rightarrow> nat \<Rightarrow> ('v, 'w) Engine \<Rightarrow> 'v PortDataPtr option \<times> ('v, 'w) Engine" where
  "pop_queue i k e = (case pq_pop (queue_at i k e) of (r, q) \<Rightarrow> (r, upd_queue i k q e))"

definition recordQueueRejection :: "string \<Rightarrow> string \<Rightarrow> ('v, 'w) Engine \<Rightarrow> ('v, 'w) Engine" where
  "recordQueueRejection node port_name e =
     invokeDropCallback node k_invalid_frame_id ''DropTail queue full''
       (upd_stats (\<lambda>s. s \<lparr> queue_full_events := queue_full_events s + 1, total_dropped_frames := total_dropped_frames s + 1 \<rparr>) e)"

definition pushToQueue :: "nat \<Rightarrow> string \<Rightarrow> 'v PortDataPtr \<Rightarrow> ('v, 'w) Engine \<Rightarrow> bool \<times> ('v, 'w) Engine" where
  "pushToQueue i port_name data e =
     (case port_position (en_states e ! i) port_name of
        None \<Rightarrow> (False, e)
      | Some k \<Rightarrow>
          (case push_queue i k data e of
             (True, e) \<Rightarrow> (True, e)
           | (False, e) \<Rightarrow> (False, recordQueueRejection (nd_name (en_states e ! i)) port_name e)))"

definition getQueueSize :: "'v NodeState \<Rightarrow> string \<Rightarrow> nat" where
  "getQueueSize st port_name = (case port_position st port_name of None \<Rightarrow> 0 | Some k \<Rightarrow> pq_size (nd_queues st ! k))"

definition recordDequeue :: "('v, 'w) hooks \<Rightarrow> 'v PortDataPtr \<Rightarrow> ('v, 'w) Engine \<Rightarrow> ('v, 'w) Engine" where
  "recordDequeue H data e =
     (if \<not> ec_enable_statistics (en_config e) then e
      else let e = upd_stats (\<lambda>s. s \<lparr> total_queue_pops := total_queue_pops s + 1 \<rparr>) e
           in case data of
                None \<Rightarrow> e
              | Some p \<Rightarrow>
                  if dp_timestamp p = 0 then e
                  else case read_clock H e of
                         (now, e) \<Rightarrow> (let age = duration_cast 1000 (now - dp_timestamp p)
                            in if age > 0 then upd_stats (\<lambda>s. s \<lparr> total_wait_time_us := total_wait_time_us s + nat age \<rparr>) e else e))"

definition recordSyncDrop :: "string \<Rightarrow> FrameId \<Rightarrow> string \<Rightarrow> ('v, 'w) Engine \<Rightarrow> ('v, 'w) Engine" where
  "recordSyncDrop name frame_id reason e =
     invokeDropCallback name frame_id reason (upd_stats (\<lambda>s. s \<lparr> total_dropped_frames := total_dropped_frames s + 1 \<rparr>) e)"

section \<open>Frame identity\<close>

text \<open>The packet is changed in place before the queue gets it; the result is the packet afterwards.\<close>

definition stampIncomingFrame :: "('v, 'w) hooks \<Rightarrow> 'v PortDataPtr \<Rightarrow> ('v, 'w) Engine \<Rightarrow> 'v PortDataPtr \<times> ('v, 'w) Engine" where
  "stampIncomingFrame H data e =
     (case data of
        None \<Rightarrow> (None, e)
      | Some packet \<Rightarrow>
          if hasFrameId packet then (data, e)
          else let (id, e) =
                 (if ec_alignment_policy (en_config e) = AlignStreamFrameId
                  then let id = en_nextStreamFrameId e (dp_stream_id packet) + 1
                       in (id, e \<lparr> en_nextStreamFrameId := (en_nextStreamFrameId e)(dp_stream_id packet := id) \<rparr>)
                  else (en_nextFrameId e, e \<lparr> en_nextFrameId := en_nextFrameId e + 1 \<rparr>));
                packet = packet \<lparr> dp_id := id \<rparr>
               in if dp_timestamp packet = 0
                  then (case read_clock H e of (now, e) \<Rightarrow> (Some (packet \<lparr> dp_timestamp := now \<rparr>), e))
                  else (Some packet, e))"

definition primaryFrame :: "'v PortDataMap \<Rightarrow> 'v DataPacket option" where
  "primaryFrame packets = (case find (\<lambda>(port, packet). case packet of None \<Rightarrow> False | Some p \<Rightarrow> hasFrameId p) packets of
     None \<Rightarrow> None | Some (port, packet) \<Rightarrow> packet)"

definition inherit_packet :: "'v DataPacket \<Rightarrow> 'v PortDataPtr \<Rightarrow> 'v PortDataPtr" where
  "inherit_packet primary data =
     (case data of
        None \<Rightarrow> None
      | Some p \<Rightarrow>
          if hasFrameId p then Some p
          else Some (p \<lparr> dp_id := dp_id primary, dp_stream_id := dp_stream_id primary,
                 dp_timestamp := (if dp_timestamp p = 0 then dp_timestamp primary else dp_timestamp p) \<rparr>))"

definition inheritFrameIdentity :: "'v PortDataMap \<Rightarrow> 'v PortDataMap \<Rightarrow> 'v PortDataMap" where
  "inheritFrameIdentity inputs outputs =
     (case primaryFrame inputs of
        None \<Rightarrow> outputs
      | Some primary \<Rightarrow> map (\<lambda>(port, packet). (port, inherit_packet primary packet)) outputs)"

section \<open>Strategies\<close>

definition configureForMode :: "ExecutionMode \<Rightarrow> ('v, 'w) Engine \<Rightarrow> ('v, 'w) Engine" where
  "configureForMode mode e =
     (case mode of
        BATCH \<Rightarrow> e \<lparr> en_scheduler := BatchSchedulerStrategy, en_sync := NoSyncStrategy \<rparr>
      | STREAM \<Rightarrow>
          (let sched_config = default_StreamSchedulerConfig \<lparr> ss_auto_reschedule := True,
                 ss_allow_partial_inputs := ec_allow_partial_inputs (en_config e),
                 ss_min_interval := ec_min_execution_interval (en_config e) \<rparr>
           in e \<lparr> en_scheduler := StreamSchedulerStrategy sched_config,
                en_sync := (if ec_enable_sync_coordination (en_config e) then JoinAwareSyncStrategy newJoinAware else NoSyncStrategy) \<rparr>))"

definition new_engine :: "EngineConfig \<Rightarrow> 'w world \<Rightarrow> Timestamp \<Rightarrow> ('v, 'w) Engine" where
  "new_engine config world now = configureForMode (ec_mode config)
     \<lparr> en_config = config, en_nodeQueueConfigs = Map.empty, en_scheduler = BatchSchedulerStrategy, en_sync = NoSyncStrategy,
       en_compiled = None, en_pool = None, en_worker = None, en_context = None, en_states = [], en_multiInput = [],
       en_watchdog = False, en_deferQueue = [], en_deferRunning = False, en_setUpNodes = [], en_nextFrameId = 1,
       en_nextStreamFrameId = (\<lambda>_. 0), en_state = EngineIDLE, en_activeTasks = 0, en_completionReported = False,
       en_stopFlag = False, en_streamingMode = False, en_sinkCount = 0, en_sinksAtEos = 0, en_endOfStreamReached = False,
       en_results = [], en_callbacks = \<lparr> cb_result = False, cb_error = False, cb_drop = False, cb_endOfStream = False \<rparr>,
       en_calls = [], en_statistics = zero_EngineStatistics now, en_world = world \<rparr>"

definition setSchedulerStrategy :: "ISchedulerStrategy option \<Rightarrow> ('v, 'w) Engine \<Rightarrow> void_result \<times> ('v, 'w) Engine" where
  "setSchedulerStrategy strategy e =
     (case strategy of
        None \<Rightarrow> (void_err InvalidArgument ''Scheduler strategy must not be null'', e)
      | Some strategy \<Rightarrow>
          if en_state e \<noteq> EngineIDLE then (void_err InvalidState ''Cannot change strategies while engine is running'', e)
          else (void_ok, e \<lparr> en_scheduler := strategy \<rparr>))"

definition track_nodes :: "('v, 'w) Engine \<Rightarrow> ('v, 'w) Engine" where
  "track_nodes e = e \<lparr> en_states := map (\<lambda>st. st \<lparr> nd_sync_tracked :=
       sync_isEnabled (en_sync e) \<and> sync_tracksNode (nd_name st) (en_sync e) \<rparr>) (en_states e) \<rparr>"

definition setSyncStrategy :: "('v, 'w) hooks \<Rightarrow> ISyncStrategy option \<Rightarrow> ('v, 'w) Engine \<Rightarrow> void_result \<times> ('v, 'w) Engine" where
  "setSyncStrategy H strategy e =
     (case strategy of
        None \<Rightarrow> (void_err InvalidArgument ''Sync strategy must not be null'', e)
      | Some strategy \<Rightarrow>
          if en_state e \<noteq> EngineIDLE then (void_err InvalidState ''Cannot change strategies while engine is running'', e)
          else (void_ok, track_nodes (e \<lparr> en_sync :=
                 (case en_compiled e of None \<Rightarrow> strategy | Some g \<Rightarrow> sync_initialize (hk_order H) (hk_env H) g strategy) \<rparr>)))"

definition setNodeQueueConfig :: "string \<Rightarrow> QueueConfig \<Rightarrow> ('v, 'w) Engine \<Rightarrow> ('v, 'w) Engine" where
  "setNodeQueueConfig node config e = e \<lparr> en_nodeQueueConfigs := (en_nodeQueueConfigs e)(node \<mapsto> config) \<rparr>"

definition getNodeQueueConfig :: "string \<Rightarrow> ('v, 'w) Engine \<Rightarrow> QueueConfig" where
  "getNodeQueueConfig node e =
     (case en_nodeQueueConfigs e node of
        Some config \<Rightarrow> config
      | None \<Rightarrow> default_QueueConfig \<lparr> qc_capacity := ec_default_queue_capacity (en_config e),
          qc_drop_strategy := ec_default_drop_strategy (en_config e), qc_track_statistics := ec_enable_statistics (en_config e) \<rparr>)"

section \<open>Node life cycle\<close>

definition teardownNodes :: "('v, 'w) hooks \<Rightarrow> ('v, 'w) Engine \<Rightarrow> ('v, 'w) Engine" where
  "teardownNodes H e = e \<lparr> en_world := foldl (\<lambda>w node. hk_teardown H node w) (en_world e) (rev (en_setUpNodes e)), en_setUpNodes := [] \<rparr>"

definition setup_result :: "string \<Rightarrow> void_result attempt \<Rightarrow> void_result" where
  "setup_result name r =
     (case r of
        Returned result \<Rightarrow> result
      | ThrewStd what \<Rightarrow> VoidResult (Error_nodeException (''setup threw: '' @ what) name)
      | ThrewUnknown \<Rightarrow> VoidResult (mkError NodeUnknownException ''setup threw unknown exception'' name))"

fun setup_loop :: "('v, 'w) hooks \<Rightarrow> ptr option \<Rightarrow> nat list \<Rightarrow> ('v, 'w) Engine \<Rightarrow> void_result \<times> ('v, 'w) Engine" where
  "setup_loop H context [] e = (void_ok, e)"
| "setup_loop H context (i # is) e =
     (let node = cg_nodes (the_graph e) ! i
      in case hk_setup H node context (en_world e) of
           (r, w) \<Rightarrow>
             (let e = e \<lparr> en_world := w \<rparr>; result = setup_result (getName (hk_env H node)) r
              in if \<not> void_isOk result then (result, teardownNodes H e)
                 else setup_loop H context is (e \<lparr> en_setUpNodes := en_setUpNodes e @ [node] \<rparr>)))"

definition setupNodes :: "('v, 'w) hooks \<Rightarrow> ptr option \<Rightarrow> ('v, 'w) Engine \<Rightarrow> void_result \<times> ('v, 'w) Engine" where
  "setupNodes H context e =
     (if en_setUpNodes e \<noteq> [] then (void_ok, e) else setup_loop H context (cg_topoOrder (the_graph e)) e)"

section \<open>Initialization\<close>

definition new_node_state :: "ptr \<Rightarrow> string \<Rightarrow> nat \<Rightarrow> QueueConfig \<Rightarrow> 'v NodeState" where
  "new_node_state node name index config = \<lparr> nd_node = node, nd_name = name, nd_index = index, nd_input_ports = [], nd_queues = [],
     nd_sync_tracked = False, nd_stats = fresh_AtomicNodeStatistics, nd_exec_state = WAITING, nd_last_execution_ticks = 0,
     nd_execution_count = 0, nd_join_wait_since_ticks = 0, nd_degrade_pending = False, nd_defer_pending = False, nd_eos_mask = 0,
     nd_eos_propagated = False, nd_queue_config = config \<rparr>"

definition initializeNodeStates :: "('v, 'w) hooks \<Rightarrow> ('v, 'w) Engine \<Rightarrow> ('v, 'w) Engine" where
  "initializeNodeStates H e =
     (let g = the_graph e; name = (\<lambda>i. getName (hk_env H (cg_nodes g ! i)))
      in e \<lparr> en_states := map (\<lambda>i. new_node_state (cg_nodes g ! i) (name i) i (getNodeQueueConfig (name i) e)) [0..<nodeCount g],
           en_multiInput := [], en_sinkCount := length (filter (isSink g) [0..<nodeCount g]) \<rparr>)"

definition queue_capacity :: "EngineConfig \<Rightarrow> QueueConfig \<Rightarrow> nat" where
  "queue_capacity config qc =
     (let cap = (if qc_capacity qc > 0 then qc_capacity qc else ec_default_queue_capacity config)
      in if cap = 0 then 1024 else cap)"

definition drop_policy_of :: "string \<Rightarrow> LockFreeDropPolicy" where
  "drop_policy_of name =
     (if name = ''KeepLatest'' \<or> name = ''keep_latest'' then KeepLatest
      else if name = ''DropTail'' \<or> name = ''drop_tail'' then DropTail else DropHead)"

definition new_port_queue :: "EngineConfig \<Rightarrow> 'v NodeState \<Rightarrow> string \<Rightarrow> 'v PortDataPtr port_queue" where
  "new_port_queue config st port_name = pq_new \<lparr> nqc_capacity = of_nat (queue_capacity config (nd_queue_config st)),
     nqc_drop_policy = drop_policy_of (qc_drop_strategy (nd_queue_config st)),
     nqc_keep_latest_n = of_nat (qc_keep_latest_n (nd_queue_config st)),
     nqc_track_statistics = qc_track_statistics (nd_queue_config st), nqc_node_name = nd_name st, nqc_port_name = port_name \<rparr>"

definition initializeQueues :: "('v, 'w) hooks \<Rightarrow> ('v, 'w) Engine \<Rightarrow> ('v, 'w) Engine" where
  "initializeQueues H e =
     (let states = map (\<lambda>st. let ports = getExpectedInputPorts (hk_env H (nd_node st))
            in st \<lparr> nd_input_ports := ports, nd_queues := map (new_port_queue (en_config e) st) ports \<rparr>) (en_states e)
      in e \<lparr> en_states := states,
           en_multiInput := en_multiInput e @ map nd_index (filter (\<lambda>st. length (nd_input_ports st) > 1 \<and> nd_index st \<noteq> k_invalid_index) states) \<rparr>)"

definition stopJoinTimeoutWatchdog :: "('v, 'w) Engine \<Rightarrow> ('v, 'w) Engine" where
  "stopJoinTimeoutWatchdog e = e \<lparr> en_watchdog := False \<rparr>"

definition startJoinTimeoutWatchdog :: "('v, 'w) Engine \<Rightarrow> ('v, 'w) Engine" where
  "startJoinTimeoutWatchdog e = (stopJoinTimeoutWatchdog e) \<lparr> en_watchdog := True \<rparr>"

definition stopDeferTimer :: "('v, 'w) Engine \<Rightarrow> ('v, 'w) Engine" where
  "stopDeferTimer e =
     (if \<not> en_deferRunning e then e
      else e \<lparr> en_deferQueue := [], en_deferRunning := False, en_states := map (\<lambda>st. st \<lparr> nd_defer_pending := False \<rparr>) (en_states e) \<rparr>)"

definition reset_statistics :: "('v, 'w) hooks \<Rightarrow> ('v, 'w) Engine \<Rightarrow> ('v, 'w) Engine" where
  "reset_statistics H e = (case read_clock H e of (now, e) \<Rightarrow> upd_stats (statistics_reset now) e)"

definition initialize :: "('v, 'w) hooks \<Rightarrow> Graph option \<Rightarrow> nat \<Rightarrow> ('v, 'w) Engine \<Rightarrow> void_result \<times> ('v, 'w) Engine" where
  "initialize H graph num_workers e =
     (case graph of
        None \<Rightarrow> (void_err InvalidArgument ''Graph pointer is null'', e)
      | Some graph \<Rightarrow>
          let e = teardownNodes H (stopDeferTimer (stopJoinTimeoutWatchdog e))
          in case compile (hk_env H) graph of
               None \<Rightarrow> (void_err InternalError '''', e)
             | Some (ResErr er) \<Rightarrow> (VoidResult er, e)
             | Some (ResOk g) \<Rightarrow>
                 (let e = e \<lparr> en_compiled := Some g,
                            en_config := (if num_workers > 0 then (en_config e) \<lparr> ec_num_workers := num_workers \<rparr> else en_config e) \<rparr>;
                      e = e \<lparr> en_pool := Some (new_pool (ec_num_workers (en_config e)) 256),
                            en_sync := sync_initialize (hk_order H) (hk_env H) g (en_sync e) \<rparr>;
                      e = track_nodes (initializeQueues H (initializeNodeStates H e));
                      e = e \<lparr> en_activeTasks := 0, en_completionReported := False, en_stopFlag := False, en_streamingMode := False,
                            en_state := EngineIDLE \<rparr>
                  in (void_ok, reset_statistics H e)))"

section \<open>Results and observation\<close>

definition collectResults :: "('v, 'w) hooks \<Rightarrow> ptr \<Rightarrow> 'v PortDataMap \<Rightarrow> ('v, 'w) Engine \<Rightarrow> ('v, 'w) Engine" where
  "collectResults H node outputs e = e \<lparr> en_results :=
     foldl (\<lambda>results (port_name, data). AList.update (getName (hk_env H node) @ '':'' @ port_name) data results) (en_results e) outputs \<rparr>"

definition getNodeStates :: "('v, 'w) Engine \<Rightarrow> (string \<times> NodeExecutionState) list" where
  "getNodeStates e = foldl (\<lambda>m st. AList.update (nd_name st) (nd_exec_state st) m) [] (en_states e)"

definition engine_statistics :: "('v, 'w) hooks \<Rightarrow> ('v, 'w) Engine \<Rightarrow> EngineStatisticsSnapshot \<times> ('v, 'w) Engine" where
  "engine_statistics H e =
     (case read_clock H e of
        (now, e) \<Rightarrow> ((take_snapshot now (en_statistics e)) \<lparr> sn_node_stats := map (\<lambda>st. (stats_snapshot (nd_name st) (nd_stats st))
            \<lparr> ns_current_queue_depth := sum_list (map pq_size (nd_queues st)) \<rparr>) (en_states e) \<rparr>, e))"

definition getFirstInputPort :: "('v, 'w) hooks \<Rightarrow> ptr \<Rightarrow> string" where
  "getFirstInputPort H node = (let ports = getExpectedInputPorts (hk_env H node) in if ports = [] then '''' else ports ! 0)"

definition getFirstOutputPort :: "('v, 'w) hooks \<Rightarrow> ptr \<Rightarrow> string" where
  "getFirstOutputPort H node = (let ports = getExpectedOutputPorts (hk_env H node) in if ports = [] then '''' else ports ! 0)"

definition isInputPort :: "('v, 'w) hooks \<Rightarrow> ptr \<Rightarrow> string \<Rightarrow> bool" where
  "isInputPort H node port_name \<longleftrightarrow> port_name \<in> set (getExpectedInputPorts (hk_env H node))"

definition isOutputPort :: "('v, 'w) hooks \<Rightarrow> ptr \<Rightarrow> string \<Rightarrow> bool" where
  "isOutputPort H node port_name \<longleftrightarrow> port_name \<in> set (getExpectedOutputPorts (hk_env H node))"

definition queueDepth :: "('v, 'w) hooks \<Rightarrow> string \<Rightarrow> string \<Rightarrow> ('v, 'w) Engine \<Rightarrow> nat" where
  "queueDepth H node port_name e =
     (case stateByName node e of
        None \<Rightarrow> 0
      | Some st \<Rightarrow> getQueueSize st (if port_name = '''' then getFirstInputPort H (nd_node st) else port_name))"

definition hasQueueCapacity :: "('v, 'w) hooks \<Rightarrow> string \<Rightarrow> string \<Rightarrow> ('v, 'w) Engine \<Rightarrow> bool" where
  "hasQueueCapacity H node port_name e =
     (case stateByName node e of
        None \<Rightarrow> False
      | Some st \<Rightarrow>
          (case port_position st (if port_name = '''' then getFirstInputPort H (nd_node st) else port_name) of
             Some k \<Rightarrow> \<not> pq_isFull (nd_queues st ! k)
           | None \<Rightarrow> True))"

definition allQueuesDrained :: "nat \<Rightarrow> ('v, 'w) Engine \<Rightarrow> bool" where
  "allQueuesDrained max_depth e \<longleftrightarrow> list_all (\<lambda>st. list_all (\<lambda>q. \<not> pq_size q > max_depth) (nd_queues st)) (en_states e)"

definition strategyInfo :: "('v, 'w) Engine \<Rightarrow> string" where
  "strategyInfo e = ''{ scheduler: '' @ strategy_name (en_scheduler e) @ '', sync: '' @ sync_name (en_sync e) @ '' }''"

end
