(* ===== verification/Join_Gather.thy ===== *)
theory Join_Gather
  imports Engine_State
begin

unbundle bit_operations_syntax

text \<open>
  How the engine takes the inputs of a node from its queues (\<open>execution_engine_impl.cpp\<close>): the
  end-of-stream latches of the ports, the aligned gather of joins, its degradation after a
  timeout, and the plain gather.

  The aligned gather runs the loop of theory \<open>Frame_Alignment\<close> over the engine: its ports
  are the queues of one node, and looking at a port first discards the packets that the
  synchronization strategy wants dropped.  The interpretation \<open>jg\<close> shows that these
  operations satisfy the contract of the loop, so the loop's guarantees hold for the engine.
\<close>

section \<open>End-of-stream latches\<close>

definition portEosLatched :: "'v NodeState \<Rightarrow> nat \<Rightarrow> bool" where
  "portEosLatched st k \<longleftrightarrow> k < k_max_eos_ports \<and> nd_eos_mask st AND push_bit k 1 \<noteq> 0"

definition portDrained :: "'v NodeState \<Rightarrow> nat \<Rightarrow> bool" where
  "portDrained st k \<longleftrightarrow> portEosLatched st k \<and>
     (k < length (nd_queues st) \<longrightarrow> pq_empty (nd_queues st ! k))"

definition allInputPortsDrained :: "'v NodeState \<Rightarrow> bool" where
  "allInputPortsDrained st \<longleftrightarrow> nd_input_ports st \<noteq> [] \<and> list_all (portDrained st) [0..<length (nd_input_ports st)]"

definition hasPartiallyDrainedInputs :: "'v NodeState \<Rightarrow> bool" where
  "hasPartiallyDrainedInputs st \<longleftrightarrow> list_ex (portDrained st) [0..<length (nd_input_ports st)] \<and>
     list_ex (\<lambda>i. \<not> portDrained st i) [0..<length (nd_input_ports st)]"

section \<open>Looking at and discarding heads\<close>

text \<open>A sibling branch dropped the frame of this packet, so the node drops it too.\<close>

definition must_drop :: "nat \<Rightarrow> 'v PortDataPtr \<Rightarrow> ('v, 'w) Engine \<Rightarrow> bool" where
  "must_drop i data e \<longleftrightarrow> nd_sync_tracked (en_states e ! i) \<and> packet_frame data \<noteq> k_invalid_frame_id \<and>
     sync_shouldDrop (nd_name (en_states e ! i)) (packet_frame data) (en_sync e)"

definition sync_drop_head :: "nat \<Rightarrow> nat \<Rightarrow> 'v PortDataPtr \<Rightarrow> ('v, 'w) Engine \<Rightarrow> ('v, 'w) Engine" where
  "sync_drop_head i k data e = (case pop_queue i k e of
     (_, e) \<Rightarrow> recordSyncDrop (nd_name (en_states e ! i)) (packet_frame data) ''coordinated sync drop'' e)"

text \<open>Each round of the loop removes a packet, so there are at most as many rounds as packets.\<close>

fun peek_loop :: "nat \<Rightarrow> nat \<Rightarrow> nat \<Rightarrow> ('v, 'w) Engine \<Rightarrow> 'v PortDataPtr option \<times> ('v, 'w) Engine" where
  "peek_loop 0 i k e = (pq_peek (queue_at i k e), e)"
| "peek_loop (Suc n) i k e =
     (case pq_peek (queue_at i k e) of
        None \<Rightarrow> (None, e)
      | Some head \<Rightarrow> if must_drop i head e then peek_loop n i k (sync_drop_head i k head e) else (Some head, e))"

definition peekAlignmentHead :: "nat \<Rightarrow> nat \<Rightarrow> ('v, 'w) Engine \<Rightarrow> 'v PortDataPtr option \<times> ('v, 'w) Engine" where
  "peekAlignmentHead i k e = peek_loop (pq_size (queue_at i k e)) i k e"

definition dropStaleHead :: "nat \<Rightarrow> nat \<Rightarrow> 'v PortDataPtr \<Rightarrow> string \<Rightarrow> ('v, 'w) Engine \<Rightarrow> ('v, 'w) Engine" where
  "dropStaleHead i k head reason e =
     (case pop_queue i k e of
        (_, e) \<Rightarrow>
          (let name = nd_name (en_states e ! i); e = recordSyncDrop name (packet_frame head) reason e
           in if nd_sync_tracked (en_states e ! i) \<and> packet_frame head \<noteq> k_invalid_frame_id
              then e \<lparr> en_sync := snd (sync_reportDrop name (packet_frame head) reason (en_sync e)) \<rparr> else e))"

section \<open>The aligned gather\<close>

definition deliver_head :: "('v, 'w) hooks \<Rightarrow> nat \<Rightarrow> nat \<Rightarrow> 'v PortDataMap \<times> ('v, 'w) Engine \<Rightarrow> bool \<times> 'v PortDataMap \<times> ('v, 'w) Engine" where
  "deliver_head H i k s =
     (case s of
        (inputs, e) \<Rightarrow>
          (case pop_queue i k e of
             (None, e) \<Rightarrow> (False, inputs, e)
           | (Some data, e) \<Rightarrow> (True, AList.update (nd_input_ports (en_states e ! i) ! k) data inputs, recordDequeue H data e)))"

definition gather_head :: "nat \<Rightarrow> nat \<Rightarrow> 'v PortDataMap \<times> ('v, 'w) Engine \<Rightarrow> 'v PortDataPtr option \<times> 'v PortDataMap \<times> ('v, 'w) Engine" where
  "gather_head i k s = (case s of (inputs, e) \<Rightarrow> case peekAlignmentHead i k e of (head, e) \<Rightarrow> (head, inputs, e))"

definition gather_stale :: "nat \<Rightarrow> nat \<Rightarrow> 'v PortDataPtr \<Rightarrow> string \<Rightarrow> 'v PortDataMap \<times> ('v, 'w) Engine \<Rightarrow> 'v PortDataMap \<times> ('v, 'w) Engine" where
  "gather_stale i k head reason s = (case s of (inputs, e) \<Rightarrow> (inputs, dropStaleHead i k head reason e))"

definition gather_closed :: "nat \<Rightarrow> nat \<Rightarrow> 'v PortDataMap \<times> ('v, 'w) Engine \<Rightarrow> bool" where
  "gather_closed i k s = (case s of (inputs, e) \<Rightarrow> portDrained (en_states e ! i) k)"

text \<open>The loop always returns (lemma \<open>gather_returns\<close> below), so \<open>None\<close> does not occur.\<close>

definition runAlignedGather :: "('v, 'w) hooks \<Rightarrow> nat \<Rightarrow> 'v align_policy \<Rightarrow> 'v PortDataMap \<times> ('v, 'w) Engine \<Rightarrow> bool \<times> 'v PortDataMap \<times> ('v, 'w) Engine" where
  "runAlignedGather H i policy s =
     (case gatherAligned (length (nd_input_ports (en_states (snd s) ! i))) policy (gather_head i) (deliver_head H i) (gather_stale i) (gather_closed i) s of
        None \<Rightarrow> (False, s)
      | Some r \<Rightarrow> r)"

section \<open>Degradation after a timeout\<close>

fun degrade_heads :: "nat \<Rightarrow> nat list \<Rightarrow> ('v, 'w) Engine \<Rightarrow> 'v PortDataPtr option list \<times> ('v, 'w) Engine" where
  "degrade_heads i [] e = ([], e)"
| "degrade_heads i (k # ks) e =
     (case peekAlignmentHead i k e of (head, e) \<Rightarrow> case degrade_heads i ks e of (heads, e) \<Rightarrow> (head # heads, e))"

definition degrade_reference :: "AlignmentPolicy \<Rightarrow> 'v PortDataPtr option list \<Rightarrow> 'v DataPacket option" where
  "degrade_reference policy heads = foldl (\<lambda>reference head.
     case head of
       Some (Some p) \<Rightarrow>
         if policy \<noteq> AlignTimestamp \<and> \<not> hasFrameId p then reference
         else (case reference of None \<Rightarrow> Some p | Some r \<Rightarrow> if dp_timestamp p < dp_timestamp r then Some p else reference)
     | _ \<Rightarrow> reference) None heads"

definition pairs_with_reference :: "EngineConfig \<Rightarrow> 'v DataPacket option \<Rightarrow> 'v DataPacket \<Rightarrow> bool" where
  "pairs_with_reference config reference head =
     (case reference of
        None \<Rightarrow> True
      | Some r \<Rightarrow>
          (case ec_alignment_policy config of
             AlignStreamFrameId \<Rightarrow> stream_pairsWith head r
           | AlignTimestamp \<Rightarrow> ts_pairsWith (ec_alignment_tolerance config) head r
           | AlignFrameId \<Rightarrow> frame_pairsWith head r))"

fun degrade_loop :: "('v, 'w) hooks \<Rightarrow> nat \<Rightarrow> ('v DataPacket \<Rightarrow> bool) \<Rightarrow> bool \<Rightarrow> (nat \<times> 'v PortDataPtr option) list \<Rightarrow> bool \<Rightarrow>
    'v PortDataMap \<times> ('v, 'w) Engine \<Rightarrow> bool \<times> 'v PortDataMap \<times> ('v, 'w) Engine" where
  "degrade_loop H i pairs deliver [] delivered s = (delivered, s)"
| "degrade_loop H i pairs deliver ((k, head) # rest) delivered s =
     (case head of
        None \<Rightarrow> degrade_loop H i pairs deliver rest delivered s
      | Some data \<Rightarrow>
          if (case data of None \<Rightarrow> False | Some p \<Rightarrow> \<not> pairs p) then degrade_loop H i pairs deliver rest delivered s
          else if deliver
          then (case deliver_head H i k s of (ok, s) \<Rightarrow> degrade_loop H i pairs deliver rest (delivered \<or> ok) s)
          else degrade_loop H i pairs deliver rest delivered (gather_stale i k data ''join wait timeout - frame skipped'' s))"

definition degradeJoinGather :: "('v, 'w) hooks \<Rightarrow> nat \<Rightarrow> 'v PortDataMap \<times> ('v, 'w) Engine \<Rightarrow> bool \<times> 'v PortDataMap \<times> ('v, 'w) Engine" where
  "degradeJoinGather H i s =
     (case s of
        (inputs, e) \<Rightarrow>
          (let port_count = length (nd_input_ports (en_states e ! i))
           in case degrade_heads i [0..<port_count] e of
                (heads, e) \<Rightarrow>
                  (let available = length (filter (\<lambda>head. head \<noteq> None) heads)
                   in if available = 0 \<or> available = port_count then (False, inputs, e)
                      else let config = en_config e;
                               reference = degrade_reference (ec_alignment_policy config) heads;
                               e = upd_stats (\<lambda>st. st \<lparr> total_join_timeouts := total_join_timeouts st + 1 \<rparr>) e;
                               deliver = (ec_join_timeout_policy config = PartialInputs)
                           in case degrade_loop H i (pairs_with_reference config reference) deliver (zip [0..<port_count] heads) False (inputs, e) of
                                (delivered, s) \<Rightarrow> (deliver \<and> delivered, s))))"

section \<open>The plain gather\<close>

fun plain_pop :: "('v, 'w) hooks \<Rightarrow> nat \<Rightarrow> nat \<Rightarrow> nat \<Rightarrow> ('v, 'w) Engine \<Rightarrow> 'v PortDataPtr option \<times> ('v, 'w) Engine" where
  "plain_pop H 0 i k e = pop_queue i k e"
| "plain_pop H (Suc n) i k e =
     (case pop_queue i k e of
        (None, e) \<Rightarrow> (None, e)
      | (Some data, e) \<Rightarrow>
          if must_drop i data e
          then plain_pop H n i k (recordSyncDrop (nd_name (en_states e ! i)) (packet_frame data) ''coordinated sync drop'' e)
          else (Some data, recordDequeue H data e))"

fun plain_gather :: "('v, 'w) hooks \<Rightarrow> nat \<Rightarrow> nat list \<Rightarrow> bool \<Rightarrow> 'v PortDataMap \<times> ('v, 'w) Engine \<Rightarrow> bool \<times> 'v PortDataMap \<times> ('v, 'w) Engine" where
  "plain_gather H i [] any_open_port s = (any_open_port, s)"
| "plain_gather H i (k # ks) any_open_port (inputs, e) =
     (if portDrained (en_states e ! i) k then plain_gather H i ks any_open_port (inputs, e)
      else case plain_pop H (pq_size (queue_at i k e)) i k e of
             (None, e) \<Rightarrow> (False, inputs, e)
           | (Some data, e) \<Rightarrow> plain_gather H i ks True (AList.update (nd_input_ports (en_states e ! i) ! k) data inputs, e))"

text \<open>Taking the timeout flag, and the rule of the configured policy; \<open>None\<close> where there is no aligned path.\<close>

definition take_degrade :: "nat \<Rightarrow> ('v, 'w) Engine \<Rightarrow> bool \<times> ('v, 'w) Engine" where
  "take_degrade i e =
     (if ec_join_wait_timeout (en_config e) > 0
      then (nd_degrade_pending (en_states e ! i), upd_node i (\<lambda>st. st \<lparr> nd_degrade_pending := False \<rparr>) e)
      else (False, e))"

definition gather_policy :: "('v, 'w) Engine \<Rightarrow> 'v align_policy option" where
  "gather_policy e =
     (case ec_alignment_policy (en_config e) of
        AlignStreamFrameId \<Rightarrow> Some StreamFrameIdPolicy
      | AlignTimestamp \<Rightarrow> Some (TimestampPolicy (ec_alignment_tolerance (en_config e)))
      | AlignFrameId \<Rightarrow> if sync_isEnabled (en_sync e) then Some FrameIdPolicy else None)"

definition gatherNodeInputs :: "('v, 'w) hooks \<Rightarrow> nat \<Rightarrow> ('v, 'w) Engine \<Rightarrow> bool \<times> 'v PortDataMap \<times> ('v, 'w) Engine" where
  "gatherNodeInputs H i e =
     (let ports = nd_input_ports (en_states e ! i); plain = (\<lambda>e. plain_gather H i [0..<length ports] (ports = []) ([], e))
      in if length ports \<le> 1 then plain e
         else case take_degrade i e of
                (degrade_requested, e) \<Rightarrow>
                  (case gather_policy e of
                     Some policy \<Rightarrow>
                       (case runAlignedGather H i policy ([], e) of
                          (gathered, s) \<Rightarrow> if \<not> gathered \<and> degrade_requested then degradeJoinGather H i s else (gathered, s))
                   | None \<Rightarrow>
                       if degrade_requested \<and> list_ex pq_empty (nd_queues (en_states e ! i)) then degradeJoinGather H i ([], e)
                       else plain e))"

section \<open>What a gather changes\<close>

text \<open>Only the queues of the node, the statistics, the recorded calls, the strategy and the clock.\<close>

definition blank_engine :: "('v, 'w) Engine \<Rightarrow> ('v, 'w) Engine" where
  "blank_engine e = e \<lparr> en_states := [], en_statistics := undefined, en_calls := undefined, en_sync := undefined, en_world := undefined \<rparr>"

definition blank_node :: "'v NodeState \<Rightarrow> 'v NodeState" where
  "blank_node st = st \<lparr> nd_queues := [] \<rparr>"

definition gather_update :: "nat \<Rightarrow> ('v, 'w) Engine \<Rightarrow> ('v, 'w) Engine \<Rightarrow> bool" where
  "gather_update i e e' \<longleftrightarrow> blank_engine e' = blank_engine e \<and> map blank_node (en_states e') = map blank_node (en_states e) \<and>
     map (\<lambda>st. map pq_cap (nd_queues st)) (en_states e') = map (\<lambda>st. map pq_cap (nd_queues st)) (en_states e) \<and>
     filter (\<lambda>c. c = EndOfStreamCall) (en_calls e') = filter (\<lambda>c. c = EndOfStreamCall) (en_calls e) \<and>
     (\<forall>j<length (en_states e). j \<noteq> i \<longrightarrow> en_states e' ! j = en_states e ! j)"

lemma gather_update_refl [simp]: "gather_update i e e"
  by (simp add: gather_update_def)

lemma gather_update_length: "gather_update i e e' \<Longrightarrow> length (en_states e') = length (en_states e)"
  unfolding gather_update_def by (metis length_map)

lemma gather_update_trans [trans]: "gather_update i e1 e2 \<Longrightarrow> gather_update i e2 e3 \<Longrightarrow> gather_update i e1 e3"
  using gather_update_length [of i e1 e2] by (auto simp: gather_update_def)

lemma gather_update_fields:
  assumes "gather_update i e e'"
  shows "en_config e' = en_config e" and "en_compiled e' = en_compiled e" and "en_pool e' = en_pool e" and "en_context e' = en_context e"
    and "en_stopFlag e' = en_stopFlag e" and "en_streamingMode e' = en_streamingMode e" and "en_activeTasks e' = en_activeTasks e"
    and "en_scheduler e' = en_scheduler e" and "en_state e' = en_state e" and "en_worker e' = en_worker e" and "en_sinkCount e' = en_sinkCount e"
    and "en_callbacks e' = en_callbacks e" and "en_multiInput e' = en_multiInput e" and "en_sinksAtEos e' = en_sinksAtEos e"
    and "en_endOfStreamReached e' = en_endOfStreamReached e"
proof -
  have eq: "blank_engine e' = blank_engine e" using assms by (simp add: gather_update_def)
  show "en_config e' = en_config e" using arg_cong [OF eq, of en_config] by (simp add: blank_engine_def)
  show "en_compiled e' = en_compiled e" using arg_cong [OF eq, of en_compiled] by (simp add: blank_engine_def)
  show "en_pool e' = en_pool e" using arg_cong [OF eq, of en_pool] by (simp add: blank_engine_def)
  show "en_context e' = en_context e" using arg_cong [OF eq, of en_context] by (simp add: blank_engine_def)
  show "en_stopFlag e' = en_stopFlag e" using arg_cong [OF eq, of en_stopFlag] by (simp add: blank_engine_def)
  show "en_streamingMode e' = en_streamingMode e" using arg_cong [OF eq, of en_streamingMode] by (simp add: blank_engine_def)
  show "en_activeTasks e' = en_activeTasks e" using arg_cong [OF eq, of en_activeTasks] by (simp add: blank_engine_def)
  show "en_scheduler e' = en_scheduler e" using arg_cong [OF eq, of en_scheduler] by (simp add: blank_engine_def)
  show "en_state e' = en_state e" using arg_cong [OF eq, of en_state] by (simp add: blank_engine_def)
  show "en_worker e' = en_worker e" using arg_cong [OF eq, of en_worker] by (simp add: blank_engine_def)
  show "en_sinkCount e' = en_sinkCount e" using arg_cong [OF eq, of en_sinkCount] by (simp add: blank_engine_def)
  show "en_callbacks e' = en_callbacks e" using arg_cong [OF eq, of en_callbacks] by (simp add: blank_engine_def)
  show "en_multiInput e' = en_multiInput e" using arg_cong [OF eq, of en_multiInput] by (simp add: blank_engine_def)
  show "en_sinksAtEos e' = en_sinksAtEos e" using arg_cong [OF eq, of en_sinksAtEos] by (simp add: blank_engine_def)
  show "en_endOfStreamReached e' = en_endOfStreamReached e" using arg_cong [OF eq, of en_endOfStreamReached] by (simp add: blank_engine_def)
qed

lemma gather_update_node:
  assumes "gather_update i e e'" and "j < length (en_states e)"
  shows "blank_node (en_states e' ! j) = blank_node (en_states e ! j)"
    and "length (nd_queues (en_states e' ! j)) = length (nd_queues (en_states e ! j))"
    and "map pq_cap (nd_queues (en_states e' ! j)) = map pq_cap (nd_queues (en_states e ! j))"
proof -
  have j: "j < length (en_states e')" using assms gather_update_length by fastforce
  have "map blank_node (en_states e') ! j = map blank_node (en_states e) ! j"
    "map (\<lambda>st. map pq_cap (nd_queues st)) (en_states e') ! j = map (\<lambda>st. map pq_cap (nd_queues st)) (en_states e) ! j"
    using assms(1) by (simp_all add: gather_update_def)
  then show "blank_node (en_states e' ! j) = blank_node (en_states e ! j)"
    and caps: "map pq_cap (nd_queues (en_states e' ! j)) = map pq_cap (nd_queues (en_states e ! j))" using assms(2) j by simp_all
  show "length (nd_queues (en_states e' ! j)) = length (nd_queues (en_states e ! j))" by (rule map_eq_imp_length_eq [OF caps])
qed

lemma gather_update_same:
  assumes "gather_update i e e'" and "j < length (en_states e)"
  shows "nd_input_ports (en_states e' ! j) = nd_input_ports (en_states e ! j)" and "nd_name (en_states e' ! j) = nd_name (en_states e ! j)"
    and "nd_sync_tracked (en_states e' ! j) = nd_sync_tracked (en_states e ! j)" and "nd_exec_state (en_states e' ! j) = nd_exec_state (en_states e ! j)"
    and "nd_eos_mask (en_states e' ! j) = nd_eos_mask (en_states e ! j)" and "nd_eos_propagated (en_states e' ! j) = nd_eos_propagated (en_states e ! j)"
    and "nd_node (en_states e' ! j) = nd_node (en_states e ! j)" and "nd_index (en_states e' ! j) = nd_index (en_states e ! j)"
proof -
  note eq = gather_update_node(1) [OF assms]
  show "nd_input_ports (en_states e' ! j) = nd_input_ports (en_states e ! j)" using arg_cong [OF eq, of nd_input_ports] by (simp add: blank_node_def)
  show "nd_name (en_states e' ! j) = nd_name (en_states e ! j)" using arg_cong [OF eq, of nd_name] by (simp add: blank_node_def)
  show "nd_sync_tracked (en_states e' ! j) = nd_sync_tracked (en_states e ! j)" using arg_cong [OF eq, of nd_sync_tracked] by (simp add: blank_node_def)
  show "nd_exec_state (en_states e' ! j) = nd_exec_state (en_states e ! j)" using arg_cong [OF eq, of nd_exec_state] by (simp add: blank_node_def)
  show "nd_eos_mask (en_states e' ! j) = nd_eos_mask (en_states e ! j)" using arg_cong [OF eq, of nd_eos_mask] by (simp add: blank_node_def)
  show "nd_eos_propagated (en_states e' ! j) = nd_eos_propagated (en_states e ! j)" using arg_cong [OF eq, of nd_eos_propagated] by (simp add: blank_node_def)
  show "nd_node (en_states e' ! j) = nd_node (en_states e ! j)" using arg_cong [OF eq, of nd_node] by (simp add: blank_node_def)
  show "nd_index (en_states e' ! j) = nd_index (en_states e ! j)" using arg_cong [OF eq, of nd_index] by (simp add: blank_node_def)
qed

lemma map_list_update_same: "f x = f (xs ! i) \<Longrightarrow> map f (xs[i := x]) = map f xs"
  by (metis list_update_id map_update)

lemma queue_gather_update: "pq_cap q = pq_cap (queue_at i k e) \<Longrightarrow> gather_update i e (upd_queue i k q e)"
  by (simp add: gather_update_def upd_queue_def upd_node_def blank_engine_def blank_node_def queue_at_def map_list_update_same)

lemma stats_gather_update [simp]:
  "gather_update i e (upd_stats f e)" "gather_update i e (invokeDropCallback n fr re e)" "gather_update i e (e \<lparr> en_sync := y \<rparr>)"
  "gather_update i e (snd (read_clock H e))" "gather_update i e (recordSyncDrop n fr re e)" "gather_update i e (recordDequeue H data e)"
  by (auto simp: gather_update_def blank_engine_def upd_stats_def invokeDropCallback_def log_call_def read_clock_def recordSyncDrop_def
      recordDequeue_def Let_def split: prod.splits option.splits)

section \<open>The queues of a node\<close>

definition items_at :: "nat \<Rightarrow> ('v, 'w) Engine \<Rightarrow> nat \<Rightarrow> 'v PortDataPtr list" where
  "items_at i e k = pq_items (queue_at i k e)"

lemma pq_pop_items: "pq_items (snd (pq_pop q)) = tl (pq_items q)" "fst (pq_pop q) = (case pq_items q of [] \<Rightarrow> None | x # _ \<Rightarrow> Some x)"
  by (auto simp: pq_pop_def pq_tracked_def split: list.splits)

lemma pq_pop_cap: "pq_cap (snd (pq_pop q)) = pq_cap q"
  by (auto simp: pq_pop_def pq_tracked_def split: list.splits)

lemma items_same_states: "en_states e' = en_states e \<Longrightarrow> items_at i e' = items_at i e"
  by (simp add: items_at_def queue_at_def fun_eq_iff)

lemma states_kept [simp]:
  "en_states (upd_stats f e) = en_states e" "en_states (invokeDropCallback n fr re e) = en_states e"
  "en_states (recordSyncDrop n fr re e) = en_states e" "en_states (recordDequeue H data e) = en_states e"
  "en_states (snd (read_clock H e)) = en_states e"
  by (auto simp: upd_stats_def invokeDropCallback_def log_call_def read_clock_def recordSyncDrop_def recordDequeue_def Let_def
      split: prod.splits option.splits)

lemma pop_queue_update: "pop_queue i k e = (r, e') \<Longrightarrow> gather_update i e e'"
  using queue_gather_update [of "snd (pq_pop (queue_at i k e))" i k e] pq_pop_cap [of "queue_at i k e"]
  by (auto simp: pop_queue_def split: prod.splits)

lemma pop_queue_items:
  assumes "pop_queue i k e = (r, e')" and "i < length (en_states e)" and "k < length (nd_queues (en_states e ! i))"
  shows "r = (case items_at i e k of [] \<Rightarrow> None | x # _ \<Rightarrow> Some x)" and "items_at i e' = (items_at i e)(k := tl (items_at i e k))"
  using assms pq_pop_items [of "queue_at i k e"]
  by (auto simp: pop_queue_def upd_queue_def upd_node_def items_at_def queue_at_def fun_eq_iff nth_list_update split: prod.splits)

lemma pop_queue_outside:
  assumes "pop_queue i k e = (r, e')" and "\<not> k < length (nd_queues (en_states e ! i))"
  shows "items_at i e' = items_at i e"
proof -
  obtain q where "e' = upd_queue i k q e" using assms(1) by (auto simp: pop_queue_def split: prod.splits)
  moreover have "st \<lparr> nd_queues := nd_queues st \<rparr> = st" for st :: "'a NodeState" by simp
  ultimately have "en_states e' = en_states e" using assms(2) by (simp add: upd_queue_def upd_node_def list_update_beyond not_less)
  then show ?thesis by (rule items_same_states)
qed

section \<open>The contract of the gather loop\<close>

text \<open>A node has one queue per input port, and the gather touches only this node.\<close>

definition node_ready :: "nat \<Rightarrow> ('v, 'w) Engine \<Rightarrow> bool" where
  "node_ready i e \<longleftrightarrow> i < length (en_states e) \<and> length (nd_queues (en_states e ! i)) = length (nd_input_ports (en_states e ! i)) \<and>
     distinct (nd_input_ports (en_states e ! i))"

abbreviation ports_of :: "nat \<Rightarrow> ('v, 'w) Engine \<Rightarrow> string list" where
  "ports_of i e \<equiv> nd_input_ports (en_states e ! i)"

definition gather_wf :: "nat \<Rightarrow> ('v, 'w) Engine \<Rightarrow> 'v PortDataMap \<times> ('v, 'w) Engine \<Rightarrow> bool" where
  "gather_wf i e s \<longleftrightarrow> node_ready i e \<and> gather_update i e (snd s) \<and> fst ` set (fst s) \<subseteq> set (ports_of i e)"

definition gather_items :: "nat \<Rightarrow> 'v PortDataMap \<times> ('v, 'w) Engine \<Rightarrow> nat \<Rightarrow> 'v PortDataPtr list" where
  "gather_items i s = items_at i (snd s)"

definition gather_delivered :: "string list \<Rightarrow> 'v PortDataMap \<times> ('v, 'w) Engine \<Rightarrow> nat \<Rightarrow> 'v PortDataPtr option" where
  "gather_delivered ports s k = (if k < length ports then map_of (fst s) (ports ! k) else None)"

lemma gather_wf_update: "gather_wf i e (inputs, e1) \<Longrightarrow> gather_update i e1 e2 \<Longrightarrow> gather_wf i e (inputs, e2)"
  by (auto simp: gather_wf_def intro: gather_update_trans)

lemma gather_wfD:
  assumes "gather_wf i e (inputs, e1)"
  shows "i < length (en_states e1)" and "length (nd_queues (en_states e1 ! i)) = length (ports_of i e)" and "ports_of i e1 = ports_of i e"
    and "distinct (ports_of i e)"
proof -
  have up: "gather_update i e e1" and i: "i < length (en_states e)" using assms by (simp_all add: gather_wf_def node_ready_def)
  show "i < length (en_states e1)" "length (nd_queues (en_states e1 ! i)) = length (ports_of i e)" "ports_of i e1 = ports_of i e"
    "distinct (ports_of i e)"
    using assms gather_update_length [OF up] gather_update_node(2) [OF up i] gather_update_same(1) [OF up i]
    by (simp_all add: gather_wf_def node_ready_def)
qed

lemma sync_drop_head_update: "gather_update i e (sync_drop_head i k data e)"
proof -
  obtain r e1 where p: "pop_queue i k e = (r, e1)" by fastforce
  show ?thesis using gather_update_trans [OF pop_queue_update [OF p] stats_gather_update(5)] p by (simp add: sync_drop_head_def)
qed

lemma peek_loop_update: "peek_loop n i k e = (r, e') \<Longrightarrow> gather_update i e e'"
proof (induction n i k e arbitrary: r e' rule: peek_loop.induct)
  case (2 n i k e)
  show ?case
  proof (cases "\<exists>head. pq_peek (queue_at i k e) = Some head \<and> must_drop i head e")
    case True
    then obtain head where h: "pq_peek (queue_at i k e) = Some head" "must_drop i head e" by blast
    then have "gather_update i (sync_drop_head i k head e) e'" using 2 by simp
    then show ?thesis using sync_drop_head_update gather_update_trans by blast
  qed (use 2 in \<open>auto split: option.splits if_splits\<close>)
qed simp

lemma sync_drop_head_items:
  assumes "i < length (en_states e)"
  shows "items_at i (sync_drop_head i k data e) = (if k < length (nd_queues (en_states e ! i)) then (items_at i e)(k := tl (items_at i e k)) else items_at i e)"
proof -
  obtain r e1 where p: "pop_queue i k e = (r, e1)" by fastforce
  then have "en_states (sync_drop_head i k data e) = en_states e1" by (simp add: sync_drop_head_def)
  then have "items_at i (sync_drop_head i k data e) = items_at i e1" by (rule items_same_states)
  then show ?thesis using pop_queue_items(2) [OF p assms] pop_queue_outside [OF p] by simp
qed

lemma peek_loop_items:
  assumes "peek_loop n i k e = (r, e')" and "i < length (en_states e)"
  shows "suffix (items_at i e' k) (items_at i e k) \<and> (\<forall>j. j \<noteq> k \<longrightarrow> items_at i e' j = items_at i e j) \<and> r = pq_peek (queue_at i k e')"
  using assms
proof (induction n i k e arbitrary: r e' rule: peek_loop.induct)
  case (2 n i k e)
  show ?case
  proof (cases "\<exists>head. pq_peek (queue_at i k e) = Some head \<and> must_drop i head e")
    case True
    then obtain head where h: "pq_peek (queue_at i k e) = Some head" "must_drop i head e" by blast
    let ?e = "sync_drop_head i k head e"
    have "i < length (en_states ?e)" using 2(3) gather_update_length [OF sync_drop_head_update [of i e k head]] by simp
    moreover have "peek_loop n i k ?e = (r, e')" using 2(2) h by simp
    ultimately have ih: "suffix (items_at i e' k) (items_at i ?e k) \<and> (\<forall>j. j \<noteq> k \<longrightarrow> items_at i e' j = items_at i ?e j) \<and> r = pq_peek (queue_at i k e')"
      using 2(1) h by blast
    moreover have "suffix (items_at i ?e k) (items_at i e k)" "\<forall>j. j \<noteq> k \<longrightarrow> items_at i ?e j = items_at i e j"
      using sync_drop_head_items [OF 2(3), of k head] by auto
    ultimately show ?thesis using suffix_order.trans by auto
  qed (use 2 in \<open>auto split: option.splits if_splits\<close>)
qed simp

lemma dropStaleHead_update: "gather_update i e (dropStaleHead i k head reason e)"
proof -
  obtain r e1 where p: "pop_queue i k e = (r, e1)" by fastforce
  define e2 where "e2 = recordSyncDrop (nd_name (en_states e1 ! i)) (packet_frame head) reason e1"
  have e2: "gather_update i e e2" unfolding e2_def by (rule gather_update_trans [OF pop_queue_update [OF p]]) simp
  show ?thesis using p gather_update_trans [OF e2] by (auto simp: dropStaleHead_def e2_def [symmetric] e2 Let_def)
qed

lemma dropStaleHead_items:
  assumes "i < length (en_states e)" and "k < length (nd_queues (en_states e ! i))"
  shows "items_at i (dropStaleHead i k head reason e) = (items_at i e)(k := tl (items_at i e k))"
proof -
  obtain r e1 where p: "pop_queue i k e = (r, e1)" by fastforce
  have "en_states (dropStaleHead i k head reason e) = en_states e1" using p by (simp add: dropStaleHead_def Let_def)
  then have "items_at i (dropStaleHead i k head reason e) = items_at i e1" by (rule items_same_states)
  then show ?thesis using pop_queue_items(2) [OF p assms] by simp
qed

lemma deliver_head_update: "deliver_head H i k (inputs, e) = (ok, inputs', e') \<Longrightarrow> gather_update i e e'"
  by (auto simp: deliver_head_def split: prod.splits option.splits dest!: pop_queue_update intro: gather_update_trans)

lemma deliver_head_frame:
  assumes "gather_wf i e (inputs, e1)" and "k < length (ports_of i e)" and "items_at i e1 k = h # hs"
  shows "\<exists>e2. deliver_head H i k (inputs, e1) = (True, AList.update (ports_of i e ! k) h inputs, e2) \<and> gather_update i e1 e2 \<and>
     items_at i e2 = (items_at i e1)(k := hs)"
proof -
  obtain r e2 where p: "pop_queue i k e1 = (r, e2)" by fastforce
  note wf = gather_wfD [OF assms(1)]
  have r: "r = Some h" "items_at i e2 = (items_at i e1)(k := hs)" using pop_queue_items [OF p wf(1)] wf(2) assms(2,3) by simp_all
  have ports: "ports_of i e2 = ports_of i e" using gather_update_same(1) [OF pop_queue_update [OF p] wf(1)] wf(3) by simp
  have "items_at i (recordDequeue H h e2) = items_at i e2" by (rule items_same_states) simp
  moreover have "gather_update i e1 (recordDequeue H h e2)" by (rule gather_update_trans [OF pop_queue_update [OF p]]) simp
  ultimately show ?thesis using p r ports by (auto simp: deliver_head_def)
qed

text \<open>
  The heads a node shows: of every port that is not drained its first packet.  And the ways a gather removes packets
  without delivering them: a head whose frame a sibling branch dropped, or the stale heads of a set that is not aligned.
\<close>

definition shown_heads :: "nat \<Rightarrow> ('v, 'w) Engine \<Rightarrow> 'v heads \<Rightarrow> bool" where
  "shown_heads i e heads \<longleftrightarrow> length heads = length (ports_of i e) \<and>
     (\<forall>k<length (ports_of i e). if portDrained (en_states e ! i) k then heads ! k = None else \<exists>rest. items_at i e k = heads ! k # rest)"

inductive discards :: "nat \<Rightarrow> 'v align_policy \<Rightarrow> ('v, 'w) Engine \<Rightarrow> ('v, 'w) Engine \<Rightarrow> bool" for i policy e where
  discards_none: "discards i policy e e"
| discards_coordinated: "discards i policy e e1 \<Longrightarrow> k < length (ports_of i e1) \<Longrightarrow> pq_peek (queue_at i k e1) = Some head \<Longrightarrow> must_drop i head e1 \<Longrightarrow>
    discards i policy e (sync_drop_head i k head e1)"
| discards_stale: "discards i policy e e1 \<Longrightarrow> shown_heads i e1 heads \<Longrightarrow> \<not> ap_aligned policy heads \<Longrightarrow>
    discards i policy e (foldl (\<lambda>e k. dropStaleHead i k (heads ! k) (ap_dropReason policy) e) e1 (ap_stale policy heads))"

lemma discards_trans: "discards i policy e2 e3 \<Longrightarrow> discards i policy e1 e2 \<Longrightarrow> discards i policy e1 e3"
  by (induction rule: discards.induct) (auto intro: discards.intros)

lemma peek_loop_discards:
  assumes "peek_loop n i k e = (r, e')" and "i < length (en_states e)" and "k < length (ports_of i e)"
  shows "discards i policy e e'"
  using assms
proof (induction n i k e arbitrary: r e' rule: peek_loop.induct)
  case (2 n i k e)
  show ?case
  proof (cases "\<exists>head. pq_peek (queue_at i k e) = Some head \<and> must_drop i head e")
    case True
    then obtain head where h: "pq_peek (queue_at i k e) = Some head" "must_drop i head e" by blast
    let ?e = "sync_drop_head i k head e"
    note up = sync_drop_head_update [of i e k head]
    have "discards i policy ?e e'"
      using 2 h gather_update_length [OF up] gather_update_same(1) [OF up 2(3)] by simp
    moreover have "discards i policy e ?e" using discards_coordinated [OF discards_none 2(4) h] .
    ultimately show ?thesis by (rule discards_trans)
  qed (use 2 in \<open>auto split: option.splits if_splits intro: discards_none\<close>)
qed (simp add: discards_none)

definition gather_latched :: "nat \<Rightarrow> ('v, 'w) Engine \<Rightarrow> nat \<Rightarrow> bool" where
  "gather_latched i e k = portEosLatched (en_states e ! i) k"

definition gather_via :: "nat \<Rightarrow> 'v align_policy \<Rightarrow> 'v PortDataMap \<times> ('v, 'w) Engine \<Rightarrow> 'v PortDataMap \<times> ('v, 'w) Engine \<Rightarrow> bool" where
  "gather_via i policy s s' \<longleftrightarrow> fst s' = fst s \<and> discards i policy (snd s) (snd s')"

lemma gather_closed_iff:
  assumes "gather_wf i e0 s" and "k < length (ports_of i e0)"
  shows "gather_closed i k s \<longleftrightarrow> gather_latched i e0 k \<and> gather_items i s k = []"
proof -
  obtain inputs e where s: "s = (inputs, e)" by fastforce
  have up: "gather_update i e0 e" and i: "i < length (en_states e0)" using assms(1) s by (simp_all add: gather_wf_def node_ready_def)
  show ?thesis
    using gather_update_same(5) [OF up i] gather_wfD(2) [OF assms(1) [unfolded s]] assms(2)
    by (simp add: s gather_closed_def portDrained_def portEosLatched_def gather_latched_def gather_items_def items_at_def queue_at_def pq_empty_def)
qed

lemma gather_drop_stale:
  "gather_drop (gather_stale i) reason heads ks (inputs, e) = (inputs, foldl (\<lambda>e k. dropStaleHead i k (heads ! k) reason e) e ks)"
  by (induction ks arbitrary: e) (simp_all add: gather_drop_def gather_stale_def)

interpretation jg: join_ports "length (ports_of i e0)" "gather_items i" "gather_delivered (ports_of i e0)" "gather_head i" "deliver_head H i"
    "gather_stale i" "gather_closed i" "gather_latched i e0" "gather_wf i e0" for H :: "('v, 'w) hooks" and i e0
proof
  fix s :: "'v PortDataMap \<times> ('v, 'w) Engine" and k j h hs reason
  assume wf: "gather_wf i e0 s"
  show "k < length (ports_of i e0) \<Longrightarrow> gather_closed i k s = (gather_latched i e0 k \<and> gather_items i s k = [])" by (rule gather_closed_iff [OF wf])
  obtain inputs e where s: "s = (inputs, e)" by fastforce
  obtain r e' where p: "peekAlignmentHead i k e = (r, e')" by fastforce
  note wfD = gather_wfD [OF wf [unfolded s]]
  have gh: "gather_head i k s = (r, inputs, e')" using s p by (simp add: gather_head_def)
  have up: "gather_update i e e'" and items: "suffix (items_at i e' k) (items_at i e k) \<and> (\<forall>j. j \<noteq> k \<longrightarrow> items_at i e' j = items_at i e j) \<and> r = pq_peek (queue_at i k e')"
    using peek_loop_update peek_loop_items [OF _ wfD(1)] p by (auto simp: peekAlignmentHead_def)
  show "gather_wf i e0 (snd (gather_head i k s))" using gather_wf_update [OF wf [unfolded s] up] gh by simp
  show "k < length (ports_of i e0) \<Longrightarrow> fst (gather_head i k s) = (case gather_items i (snd (gather_head i k s)) k of [] \<Rightarrow> None | h # _ \<Rightarrow> Some h)"
    using gh items by (simp add: gather_items_def items_at_def pq_peek_def)
  show "suffix (gather_items i (snd (gather_head i k s)) k) (gather_items i s k)" using gh s items by (simp add: gather_items_def)
  show "j \<noteq> k \<Longrightarrow> gather_items i (snd (gather_head i k s)) j = gather_items i s j" using gh s items by (simp add: gather_items_def)
  show "gather_delivered (ports_of i e0) (snd (gather_head i k s)) = gather_delivered (ports_of i e0) s"
    using gh s by (simp add: gather_delivered_def fun_eq_iff)
  assume k: "k < length (ports_of i e0)" and h: "gather_items i s k = h # hs"
  have h': "items_at i e k = h # hs" using h s by (simp add: gather_items_def)
  obtain e1 where d: "deliver_head H i k s = (True, AList.update (ports_of i e0 ! k) h inputs, e1)" "gather_update i e e1"
      "items_at i e1 = (items_at i e)(k := hs)" using deliver_head_frame [OF wf [unfolded s] k h', of H] s by blast
  let ?s1 = "(AList.update (ports_of i e0 ! k) h inputs, e1)"
  have "gather_delivered (ports_of i e0) ?s1 = (gather_delivered (ports_of i e0) s)(k := Some h)"
    using k wfD(4) s by (auto simp: gather_delivered_def fun_eq_iff update_conv' nth_eq_iff_index_eq)
  moreover have "gather_wf i e0 ?s1" using gather_wf_update [OF wf [unfolded s] d(2)] k by (auto simp: gather_wf_def dom_update)
  moreover have "gather_items i ?s1 = (gather_items i s)(k := hs)" using d(3) s by (simp add: gather_items_def)
  ultimately show "\<exists>s'. deliver_head H i k s = (True, s') \<and> gather_wf i e0 s' \<and> gather_items i s' = (gather_items i s)(k := hs) \<and>
      gather_delivered (ports_of i e0) s' = (gather_delivered (ports_of i e0) s)(k := Some h)"
    using d(1) by blast
  have "k < length (nd_queues (en_states e ! i))" using wfD(2) k by simp
  note st = dropStaleHead_update [of i e k h reason] dropStaleHead_items [OF wfD(1) this, of h reason]
  show "gather_wf i e0 (gather_stale i k h reason s) \<and> gather_items i (gather_stale i k h reason s) = (gather_items i s)(k := hs) \<and>
      gather_delivered (ports_of i e0) (gather_stale i k h reason s) = gather_delivered (ports_of i e0) s"
    using gather_wf_update [OF wf [unfolded s] st(1)] st(2) s h by (simp add: gather_stale_def gather_items_def gather_delivered_def fun_eq_iff)
qed

text \<open>The loop of each policy over the engine.\<close>

lemma engine_gather:
  fixes H :: "('v, 'w) hooks"
  assumes "alignment_policy policy"
  shows "aligned_gather (length (ports_of i e0)) (gather_items i) (gather_delivered (ports_of i e0)) (gather_head i) (deliver_head H i)
    (gather_stale i) (gather_closed i) (gather_latched i e0) (gather_wf i e0) policy (gather_via i policy)"
proof (intro aligned_gather.intro aligned_gather_axioms.intro jg.join_ports_axioms assms)
  fix s s1 s2 s3 :: "'v PortDataMap \<times> ('v, 'w) Engine" and k heads
  show "gather_via i policy s s" by (simp add: gather_via_def discards_none)
  show "gather_via i policy s1 s2 \<Longrightarrow> gather_via i policy s2 s3 \<Longrightarrow> gather_via i policy s1 s3" by (auto simp: gather_via_def intro: discards_trans)
  assume wf: "gather_wf i e0 s"
  obtain inputs e where s: "s = (inputs, e)" by fastforce
  note wfD = gather_wfD [OF wf [unfolded s]]
  show "gather_via i policy s (snd (gather_head i k s))" if "k < length (ports_of i e0)"
    using peek_loop_discards [OF _ wfD(1), of _ k] that wfD(3) s by (auto simp: gather_via_def gather_head_def peekAlignmentHead_def split: prod.split)
  assume "length heads = length (ports_of i e0)" "\<not> ap_aligned policy heads"
    "\<forall>k<length (ports_of i e0). if gather_closed i k s then heads ! k = None else \<exists>rest. gather_items i s k = heads ! k # rest"
  then have "discards i policy e (foldl (\<lambda>e k. dropStaleHead i k (heads ! k) (ap_dropReason policy) e) e (ap_stale policy heads))"
    unfolding s gather_items_def snd_conv using wfD(3) by (intro discards_stale [OF discards_none]) (simp_all add: shown_heads_def gather_closed_def)
  then show "gather_via i policy s (gather_drop (gather_stale i) (ap_dropReason policy) heads (ap_stale policy heads) s)"
    by (simp add: s gather_via_def gather_drop_stale)
qed

interpretation jg_frame: aligned_gather "length (ports_of i e0)" "gather_items i" "gather_delivered (ports_of i e0)" "gather_head i" "deliver_head H i"
    "gather_stale i" "gather_closed i" "gather_latched i e0" "gather_wf i e0" FrameIdPolicy "gather_via i FrameIdPolicy" for H i e0
  by (rule engine_gather [OF frame_policy.alignment_policy_axioms])

interpretation jg_stream: aligned_gather "length (ports_of i e0)" "gather_items i" "gather_delivered (ports_of i e0)" "gather_head i" "deliver_head H i"
    "gather_stale i" "gather_closed i" "gather_latched i e0" "gather_wf i e0" StreamFrameIdPolicy "gather_via i StreamFrameIdPolicy" for H i e0
  by (rule engine_gather [OF stream_policy.alignment_policy_axioms])

interpretation jg_ts: aligned_gather "length (ports_of i e0)" "gather_items i" "gather_delivered (ports_of i e0)" "gather_head i" "deliver_head H i"
    "gather_stale i" "gather_closed i" "gather_latched i e0" "gather_wf i e0" "TimestampPolicy tolerance" "gather_via i (TimestampPolicy tolerance)" for H i e0 tolerance
  by (rule engine_gather [OF ts_policy.alignment_policy_axioms])

lemma gather_policy_ok: "gather_policy e = Some policy \<Longrightarrow> alignment_policy policy"
  using frame_policy.alignment_policy_axioms stream_policy.alignment_policy_axioms ts_policy.alignment_policy_axioms
  by (auto simp: gather_policy_def split: AlignmentPolicy.splits if_splits)

text \<open>The gather loop of the engine returns, with an aligned set or with nothing.\<close>

definition join_taken :: "nat \<Rightarrow> 'v align_policy \<Rightarrow> ('v, 'w) Engine \<Rightarrow> 'v PortDataMap \<Rightarrow> ('v, 'w) Engine \<Rightarrow> bool" where
  "join_taken i policy e1 inputs e' \<longleftrightarrow> (\<exists>heads. shown_heads i e1 heads \<and> ap_aligned policy heads \<and>
     (\<exists>k<length (ports_of i e1). \<not> portDrained (en_states e1 ! i) k) \<and>
     (\<forall>k<length (ports_of i e1). if portDrained (en_states e1 ! i) k
        then map_of inputs (ports_of i e1 ! k) = None \<and> items_at i e' k = items_at i e1 k
        else map_of inputs (ports_of i e1 ! k) = Some (heads ! k) \<and> items_at i e1 k = heads ! k # items_at i e' k))"

definition join_stuck :: "nat \<Rightarrow> 'v align_policy \<Rightarrow> ('v, 'w) Engine \<Rightarrow> ('v, 'w) Engine \<Rightarrow> bool" where
  "join_stuck i policy e e1 \<longleftrightarrow> (\<exists>k<length (ports_of i e). \<not> portDrained (en_states e ! i) k \<and> items_at i e1 k = []) \<or>
     (\<forall>k<length (ports_of i e). portDrained (en_states e1 ! i) k) \<or>
     (\<exists>heads. shown_heads i e1 heads \<and> \<not> ap_aligned policy heads \<and> ap_stale policy heads = [])"

lemma gather_returns:
  assumes "node_ready i e" and "alignment_policy policy"
  shows "\<exists>ok inputs e' e1. gatherAligned (length (ports_of i e)) policy (gather_head i) (deliver_head H i) (gather_stale i) (gather_closed i) ([], e) = Some (ok, inputs, e') \<and>
     runAlignedGather H i policy ([], e) = (ok, inputs, e') \<and> gather_wf i e (inputs, e') \<and>
     (\<forall>k. suffix (items_at i e' k) (items_at i e k)) \<and> gather_update i e e1 \<and> discards i policy e e1 \<and>
     (if ok then join_taken i policy e1 inputs e' else inputs = [] \<and> e' = e1 \<and> join_stuck i policy e e1)"
proof -
  let ?ports = "ports_of i e"
  note loop = engine_gather [OF assms(2), of e i H]
  have wf: "gather_wf i e ([], e)" using assms(1) by (simp add: gather_wf_def)
  obtain ok inputs e' where r: "gatherAligned (length ?ports) policy (gather_head i) (deliver_head H i) (gather_stale i) (gather_closed i) ([], e) = Some (ok, inputs, e')"
    and g: "aligned_gather.gathered (length ?ports) (gather_items i) (gather_delivered ?ports) (gather_closed i) (gather_wf i e) policy (gather_via i policy) ([], e) ok (inputs, e')"
    using aligned_gather.gather_outcome [OF loop wf] by auto
  have run: "runAlignedGather H i policy ([], e) = (ok, inputs, e')" using r by (simp add: runAlignedGather_def)
  have head_at: "join_ports.head_at (gather_items i) (gather_closed i) ([], e1) k h \<longleftrightarrow>
      (if portDrained (en_states e1 ! i) k then h = None else \<exists>rest. items_at i e1 k = h # rest)" for e1 k h
    unfolding jg.head_at_def by (simp add: gather_closed_def gather_items_def)
  obtain e1 where e1: "gather_wf i e (inputs, e')" "gather_wf i e ([], e1)" "discards i policy e e1"
      "\<forall>k. suffix (items_at i e1 k) (items_at i e k)"
      "if ok then \<exists>heads. aligned_gather.taken (length ?ports) (gather_items i) (gather_delivered ?ports) (gather_closed i) policy ([], e1) heads (inputs, e')
       else ([], e1) = (inputs, e') \<and> aligned_gather.stuck (length ?ports) (gather_items i) (gather_closed i) policy ([], e) ([], e1)"
    using g by (auto simp: aligned_gather.gathered_def [OF loop] gather_via_def gather_items_def)
  note ports = gather_wfD(3) [OF e1(2)]
  note defs = aligned_gather.taken_def [OF loop] aligned_gather.stuck_def [OF loop] aligned_gather.shown_def [OF loop] head_at
    gather_closed_def gather_items_def gather_delivered_def
  show ?thesis
  proof (cases ok)
    case True
    then obtain heads where t: "aligned_gather.taken (length ?ports) (gather_items i) (gather_delivered ?ports) (gather_closed i) policy ([], e1) heads (inputs, e')"
      using e1(5) by auto
    have port: "if portDrained (en_states e1 ! i) k then items_at i e' k = items_at i e1 k \<and> map_of inputs (?ports ! k) = None
        else items_at i e1 k = heads ! k # items_at i e' k \<and> map_of inputs (?ports ! k) = Some (heads ! k)" if "k < length ?ports" for k
      using t [unfolded defs] that by (auto split: if_splits)
    have "suffix (items_at i e' k) (items_at i e1 k)" for k
      using t [unfolded defs] port [of k] by (cases "k < length ?ports") (auto simp: suffix_Cons split: if_splits)
    then have "\<forall>k. suffix (items_at i e' k) (items_at i e k)" using e1(4) suffix_order.trans by blast
    moreover have "join_taken i policy e1 inputs e'"
      unfolding join_taken_def shown_heads_def ports using t [unfolded defs] port by (intro exI [of _ heads]) auto
    moreover have "gather_update i e e1" using e1(2) by (simp add: gather_wf_def)
    ultimately show ?thesis using r run e1(1,3) True by (intro exI [of _ ok] exI [of _ inputs] exI [of _ e'] exI [of _ e1]) simp
  next
    case False
    then have same: "inputs = []" "e' = e1" and st: "aligned_gather.stuck (length ?ports) (gather_items i) (gather_closed i) policy ([], e) ([], e1)"
      using e1(5) by auto
    have "join_stuck i policy e e1" unfolding join_stuck_def shown_heads_def ports using st [unfolded defs] by simp
    moreover have "gather_update i e e1" using e1(2) by (simp add: gather_wf_def)
    ultimately show ?thesis using r run e1(1,3,4) same False by (intro exI [of _ ok] exI [of _ inputs] exI [of _ e'] exI [of _ e1]) simp
  qed
qed

section \<open>Properties\<close>

text \<open>
  C32. A join gets its inputs as an aligned set or not at all.  For each alignment policy the gather over the queues of a
  node returns.  Before it delivers anything it only discards heads: those whose frame a sibling branch dropped, and
  those the policy calls stale in a set of heads that is not aligned.  If it succeeds, it then delivers the head of every port that is
  not drained and of no other port, these heads belong together under the policy, and they are all it takes.  If not,
  nothing is delivered and nothing else is removed; a port that was open ran dry, all ports are drained, or the policy
  names no stale head.  Packets leave the queues only at the front, and no other node is touched.
\<close>

theorem join_gather_aligned:
  assumes "node_ready i e" and "gather_policy e = Some policy"
  shows "\<exists>ok inputs e' e1. gatherAligned (length (ports_of i e)) policy (gather_head i) (deliver_head H i) (gather_stale i) (gather_closed i) ([], e) = Some (ok, inputs, e') \<and>
     runAlignedGather H i policy ([], e) = (ok, inputs, e') \<and> gather_update i e e' \<and>
     (\<forall>k. suffix (items_at i e' k) (items_at i e k)) \<and> gather_update i e e1 \<and> discards i policy e e1 \<and>
     (if ok then join_taken i policy e1 inputs e' else inputs = [] \<and> e' = e1 \<and> join_stuck i policy e e1)"
  using gather_returns [OF assms(1) gather_policy_ok [OF assms(2)], of H] unfolding gather_wf_def snd_conv by blast

text \<open>A join of two ports that align by stream and frame: the first port still has a frame that the second one lost.\<close>

definition demo_hooks :: "(nat, nat) hooks" where
  "demo_hooks = \<lparr> hk_env = (\<lambda>_. \<lparr> getName = ''join'', getExpectedInputPorts = [''a'', ''b''], getExpectedOutputPorts = [], portPayloadType = (\<lambda>_. TypeVoid) \<rparr>),
     hk_now = (\<lambda>w. (int (wd_ext w), w \<lparr> wd_ext := wd_ext w + 1 \<rparr>)), hk_setup = (\<lambda>_ _ w. (Returned void_ok, w)), hk_teardown = (\<lambda>_ w. w),
     hk_process = (\<lambda>_ inputs _ w. (Returned [], w)), hk_onEndOfStream = (\<lambda>_ _ w. (Returned [], w)), hk_order = id, hk_submit_rounds = 8 \<rparr>"

definition demo_frame :: "FrameId \<Rightarrow> nat PortDataPtr" where
  "demo_frame f = Some \<lparr> dp_id = f, dp_stream_id = 0, dp_timestamp = uint f, dp_params = [] \<rparr>"

definition demo_queue :: "nat PortDataPtr list \<Rightarrow> nat PortDataPtr port_queue" where
  "demo_queue items = (pq_new \<lparr> nqc_capacity = 4, nqc_drop_policy = DropHead, nqc_keep_latest_n = 1, nqc_track_statistics = True,
     nqc_node_name = ''join'', nqc_port_name = '''' \<rparr>) \<lparr> pq_items := items \<rparr>"

definition demo_join :: "(nat, nat) Engine" where
  "demo_join = (new_engine (default_EngineConfig \<lparr> ec_alignment_policy := AlignStreamFrameId, ec_enable_statistics := False \<rparr>) \<lparr> wd_cancelled = (\<lambda>_. False), wd_ext = 10 \<rparr> 0)
     \<lparr> en_states := [(new_node_state 1 ''join'' 0 default_QueueConfig)
         \<lparr> nd_input_ports := [''a'', ''b''], nd_queues := [demo_queue [demo_frame 1, demo_frame 2], demo_queue [demo_frame 2]] \<rparr>] \<rparr>"

lemmas gather_eval = runAlignedGather_def gather_head_def peekAlignmentHead_def gather_closed_def gather_stale_def deliver_head_def
  portDrained_def portEosLatched_def must_drop_def queue_at_def pq_peek_def pq_size_def pop_queue_def pq_pop_def pq_tracked_def
  upd_queue_def upd_node_def dropStaleHead_def recordSyncDrop_def recordDequeue_def upd_stats_def invokeDropCallback_def
  read_clock_def k_invalid_frame_id_def

lemmas demo_join_eval = demo_join_def demo_hooks_def demo_queue_def new_engine_def configureForMode_def
  default_EngineConfig_def new_node_state_def pq_new_def StreamFrameIdPolicy_def

lemma demo_frames:
  "packet_frame (demo_frame f) = f" "\<not> stream_aligned [demo_frame 1, demo_frame 2]" "stream_stale [demo_frame 1, demo_frame 2] = [0]"
  "stream_aligned [demo_frame 2, demo_frame 2]"
  by (simp add: packet_frame_def demo_frame_def) code_simp+

lemma demo_join_run: "fst (runAlignedGather demo_hooks 0 StreamFrameIdPolicy ([], demo_join))"
  apply (simp add: runAlignedGather_def demo_join_eval)
  apply (subst gatherAligned.simps)
  apply (simp add: gather_eval Let_def demo_frames gather_drop_def upt_rec)
  apply (subst gatherAligned.simps)
  apply (simp add: gather_eval Let_def demo_frames upt_rec)
  done

theorem join_gather_aligned_witness:
  "\<exists>inputs e' e1. runAlignedGather demo_hooks 0 StreamFrameIdPolicy ([], demo_join) = (True, inputs, e') \<and> gather_update 0 demo_join e' \<and>
     discards 0 StreamFrameIdPolicy demo_join e1 \<and> join_taken 0 StreamFrameIdPolicy e1 inputs e'"
proof -
  obtain inputs e' where r: "runAlignedGather demo_hooks 0 StreamFrameIdPolicy ([], demo_join) = (True, inputs, e')"
    using demo_join_run by (metis prod.collapse)
  have "node_ready 0 demo_join" "gather_policy demo_join = Some StreamFrameIdPolicy"
    by (simp_all add: node_ready_def gather_policy_def demo_join_def new_engine_def configureForMode_def default_EngineConfig_def)
  then show ?thesis using join_gather_aligned [of 0 demo_join StreamFrameIdPolicy demo_hooks] r by (auto split: if_splits)
qed

end
