(* ===== verification/Engine_Exec.thy ===== *)
theory Engine_Exec
  imports Join_Gather
begin

unbundle bit_operations_syntax

text \<open>
  Scheduling and execution of nodes (\<open>execution_engine_impl.cpp\<close>): the decision to run a node,
  the task that runs it, the routing of its outputs, failures, completion, the
  end-of-stream cascade, the timer of deferred nodes and the watchdog of joins.

  In the source these functions call each other: handling the end of stream of a node
  routes its last outputs and closes the ports behind it, which may schedule other nodes or
  end their streams.  Here \<open>tryScheduleNode\<close> and \<open>propagateOutputs\<close> take the end-of-stream
  check as an argument, and the check itself is \<open>check_eos\<close> with a fuel that counts the nested
  checks.  A nested check that does anything marks one more node, so
  \<open>checkNodeEndOfStream\<close> starts with one more than the number of nodes; theory \<open>Engine_Streams\<close>
  proves that more fuel makes no difference.
\<close>

section \<open>Stop requests and completion\<close>

definition stopExecutionAsync :: "('v, 'w) Engine \<Rightarrow> ('v, 'w) Engine" where
  "stopExecutionAsync e =
     (if en_stopFlag e then e
      else e \<lparr> en_stopFlag := True, en_state := (if en_state e = EngineRUNNING then EngineSTOPPED else en_state e) \<rparr>)"

definition isCancellationRequested :: "ptr option \<Rightarrow> ('v, 'w) Engine \<Rightarrow> bool" where
  "isCancellationRequested context e = (case context of None \<Rightarrow> False | Some c \<Rightarrow> wd_cancelled (en_world e) c)"

definition isStopRequested :: "('v, 'w) Engine \<Rightarrow> bool \<times> ('v, 'w) Engine" where
  "isStopRequested e =
     (if en_stopFlag e then (True, e)
      else if isCancellationRequested (en_context e) e then (True, stopExecutionAsync e)
      else (False, e))"

definition sink_counts :: "('v, 'w) Engine \<Rightarrow> SinkExecutionCount list" where
  "sink_counts e = (case en_compiled e of None \<Rightarrow> []
     | Some g \<Rightarrow> List.map_filter (\<lambda>i. map_option (\<lambda>st. \<lparr> sk_name = nd_name st, sk_executions = nd_execution_count st \<rparr>) (stateByIndex i e)) (cg_sinkNodes g))"

definition checkCompletionAndNotify :: "('v, 'w) Engine \<Rightarrow> ('v, 'w) Engine" where
  "checkCompletionAndNotify e =
     (if en_streamingMode e then e
      else if en_activeTasks e \<noteq> 0 then e
      else if cs_is_complete (checkCompletion (en_scheduler e) 0 0 (sink_counts e))
      then if en_completionReported e then e
           else let e = e \<lparr> en_completionReported := True, en_state := (if en_state e = EngineRUNNING then EngineIDLE else en_state e) \<rparr>
                in invokeResultCallback (en_results e) e
      else e)"

section \<open>Scheduling\<close>

definition set_exec_state :: "nat \<Rightarrow> NodeExecutionState \<Rightarrow> ('v, 'w) Engine \<Rightarrow> ('v, 'w) Engine" where
  "set_exec_state i s e = upd_node i (\<lambda>st. st \<lparr> nd_exec_state := s \<rparr>) e"

definition post_task :: "('v, 'w) hooks \<Rightarrow> task \<Rightarrow> ('v, 'w) Engine \<Rightarrow> bool \<times> ('v, 'w) Engine" where
  "post_task H t e =
     (case en_pool e of
        None \<Rightarrow> (False, e)
      | Some p \<Rightarrow> (case post (hk_submit_rounds H) (en_worker e) t p of (ok, p) \<Rightarrow> (ok, e \<lparr> en_pool := Some p \<rparr>)))"

definition finish_one :: "('v, 'w) Engine \<Rightarrow> ('v, 'w) Engine" where
  "finish_one e = checkCompletionAndNotify (e \<lparr> en_activeTasks := en_activeTasks e - 1 \<rparr>)"

definition scheduleNodeExecution :: "('v, 'w) hooks \<Rightarrow> nat \<Rightarrow> ('v, 'w) Engine \<Rightarrow> ('v, 'w) Engine" where
  "scheduleNodeExecution H i e =
     (if nd_exec_state (en_states e ! i) \<noteq> WAITING then e
      else let e = (set_exec_state i READY e) \<lparr> en_activeTasks := en_activeTasks e + 1 \<rparr>
           in case read_clock H e of
                (scheduled_at, e) \<Rightarrow>
                  (case post_task H (nd_index (en_states e ! i), en_context e, scheduled_at) e of
                     (True, e) \<Rightarrow> e
                   | (False, e) \<Rightarrow> finish_one (set_exec_state i WAITING e)))"

definition scheduleDeferredRetry :: "('v, 'w) hooks \<Rightarrow> nat \<Rightarrow> int \<Rightarrow> ('v, 'w) Engine \<Rightarrow> ('v, 'w) Engine" where
  "scheduleDeferredRetry H i delay e =
     (if en_stopFlag e \<or> nd_defer_pending (en_states e ! i) then e
      else case read_clock H (upd_node i (\<lambda>st. st \<lparr> nd_defer_pending := True \<rparr>) e) of
             (now, e) \<Rightarrow> e \<lparr> en_deferQueue := en_deferQueue e @ [(now + max 1 delay * 1000000, nd_index (en_states e ! i))], en_deferRunning := True \<rparr>)"

definition ready_mask :: "'v NodeState \<Rightarrow> nat list \<Rightarrow> 64 word" where
  "ready_mask st ks = foldl (\<lambda>m k. if k < 64 then m OR push_bit k 1 else m) 0 ks"

definition scheduling_context :: "nat \<Rightarrow> ('v, 'w) Engine \<Rightarrow> SchedulingContext" where
  "scheduling_context i e =
     (let st = en_states e ! i;
          open_ports = filter (\<lambda>k. \<not> portDrained st k) [0..<length (nd_queues st)];
          ready = filter (\<lambda>k. \<not> pq_empty (nd_queues st ! k)) open_ports
      in \<lparr> sc_node = nd_node st, sc_expected_input_count = length open_ports, sc_ready_input_count = length ready,
           sc_ready_port_mask = ready_mask st ready, sc_pending_predecessor_count = 0,
           sc_is_source_node = isSource (the_graph e) i, sc_is_sink_node = isSink (the_graph e) i,
           sc_has_initial_input = length ready > 0, sc_last_execution_time = nd_last_execution_ticks st,
           sc_execution_count = nd_execution_count st \<rparr>)"

type_synonym ('v, 'w) eos_check = "nat \<Rightarrow> ptr option \<Rightarrow> ('v, 'w) Engine \<Rightarrow> bool \<times> ('v, 'w) Engine"

definition tryScheduleNode :: "('v, 'w) hooks \<Rightarrow> ('v, 'w) eos_check \<Rightarrow> nat \<Rightarrow> ('v, 'w) Engine \<Rightarrow> ('v, 'w) Engine" where
  "tryScheduleNode H eos i e =
     (case isStopRequested e of
        (True, e) \<Rightarrow> e
      | (False, e) \<Rightarrow>
          (case stateByIndex i e of
             None \<Rightarrow> e
           | Some st \<Rightarrow>
               if nd_exec_state st \<noteq> WAITING then e
               else if allInputPortsDrained st then snd (eos i (en_context e) e)
               else case read_clock H e of
                      (now, e) \<Rightarrow>
                        (let result = shouldSchedule (en_scheduler e) now (scheduling_context i e)
                         in case sr_decision result of
                              ScheduleNow \<Rightarrow> scheduleNodeExecution H i e
                            | DeferToNextCycle \<Rightarrow> scheduleDeferredRetry H i (case sr_retry_delay result of None \<Rightarrow> 1 | Some d \<Rightarrow> d) e
                            | _ \<Rightarrow> e)))"

section \<open>Routing of outputs\<close>

definition route_output :: "('v, 'w) hooks \<Rightarrow> ('v, 'w) eos_check \<Rightarrow> 'v PortDataMap \<Rightarrow> OutEdge \<Rightarrow> ('v, 'w) Engine \<Rightarrow> ('v, 'w) Engine" where
  "route_output H eos outputs edge e =
     (case map_of outputs (oe_source_port edge) of
        None \<Rightarrow> e
      | Some data \<Rightarrow>
          (case stateByIndex (oe_dest_node edge) e of
             None \<Rightarrow> e
           | Some dest \<Rightarrow>
               if oe_dest_port_index edge < length (nd_queues dest)
               then (case push_queue (oe_dest_node edge) (oe_dest_port_index edge) data e of
                       (False, e) \<Rightarrow> recordQueueRejection (nd_name dest) (oe_dest_port edge) e
                     | (True, e) \<Rightarrow> tryScheduleNode H eos (oe_dest_node edge) e)
               else e))"

definition propagateOutputs :: "('v, 'w) hooks \<Rightarrow> ('v, 'w) eos_check \<Rightarrow> nat \<Rightarrow> 'v PortDataMap \<Rightarrow> ('v, 'w) Engine \<Rightarrow> ('v, 'w) Engine" where
  "propagateOutputs H eos i outputs e =
     (if en_stopFlag e then e else foldl (\<lambda>e edge. route_output H eos outputs edge e) e (outEdges i e))"

section \<open>End of stream\<close>

definition recordSinkEndOfStream :: "('v, 'w) Engine \<Rightarrow> ('v, 'w) Engine" where
  "recordSinkEndOfStream e =
     (let reached = en_sinksAtEos e + 1; e = e \<lparr> en_sinksAtEos := reached \<rparr>
      in if en_sinkCount e = 0 \<or> reached < en_sinkCount e then e
         else if en_endOfStreamReached e then e
         else invokeEndOfStreamCallback (e \<lparr> en_endOfStreamReached := True \<rparr>))"

definition latchPortEos :: "('v, 'w) eos_check \<Rightarrow> nat \<Rightarrow> nat \<Rightarrow> ptr option \<Rightarrow> ('v, 'w) Engine \<Rightarrow> ('v, 'w) Engine" where
  "latchPortEos eos i k context e =
     (if k \<ge> k_max_eos_ports then e
      else snd (eos i context (upd_node i (\<lambda>st. st \<lparr> nd_eos_mask := nd_eos_mask st OR push_bit k 1 \<rparr>) e)))"

definition latch_edge :: "('v, 'w) eos_check \<Rightarrow> ptr option \<Rightarrow> ('v, 'w) Engine \<Rightarrow> OutEdge \<Rightarrow> ('v, 'w) Engine" where
  "latch_edge eos context e edge =
     (if oe_dest_node edge < length (en_states e)
      then latchPortEos eos (oe_dest_node edge) (oe_dest_port_index edge) context e else e)"

definition eos_due :: "nat \<Rightarrow> ('v, 'w) Engine \<Rightarrow> bool" where
  "eos_due i e \<longleftrightarrow> en_streamingMode e \<and> \<not> en_stopFlag e \<and> \<not> nd_eos_propagated (en_states e ! i) \<and> allInputPortsDrained (en_states e ! i) \<and>
     nd_exec_state (en_states e ! i) \<in> {WAITING, COMPLETED}"

definition flush_failed :: "string \<Rightarrow> string \<Rightarrow> ('v, 'w) Engine \<Rightarrow> ('v, 'w) Engine" where
  "flush_failed message name e = invokeErrorCallback message name (upd_stats (\<lambda>s. s \<lparr> failed_executions := failed_executions s + 1 \<rparr>) e)"

definition flush_node :: "('v, 'w) hooks \<Rightarrow> nat \<Rightarrow> ptr option \<Rightarrow> ('v, 'w) Engine \<Rightarrow> 'v PortDataMap \<times> ('v, 'w) Engine" where
  "flush_node H i context e =
     (let name = nd_name (en_states e ! i)
      in case hk_onEndOfStream H (nd_node (en_states e ! i)) context (en_world e) of
           (r, w) \<Rightarrow>
             (let e = e \<lparr> en_world := w \<rparr>
              in case r of
                   Returned outputs \<Rightarrow> (outputs, e)
                 | ThrewStd what \<Rightarrow> ([], flush_failed (''onEndOfStream: '' @ what) name e)
                 | ThrewUnknown \<Rightarrow> ([], flush_failed ''onEndOfStream: unknown exception'' name e)))"

definition collect_sink :: "('v, 'w) hooks \<Rightarrow> nat \<Rightarrow> 'v PortDataMap \<Rightarrow> ('v, 'w) Engine \<Rightarrow> ('v, 'w) Engine" where
  "collect_sink H i outputs e =
     (if isSink (the_graph e) i
      then collectResults H (nd_node (en_states e ! i)) outputs (upd_stats (\<lambda>s. s \<lparr> total_output_frames := total_output_frames s + 1 \<rparr>) e)
      else e)"

text \<open>The body of the check, with the check it calls as an argument.\<close>

definition eos_body :: "('v, 'w) hooks \<Rightarrow> ('v, 'w) eos_check \<Rightarrow> ('v, 'w) eos_check" where
  "eos_body H eos i context e =
     (if \<not> eos_due i e then (False, e)
      else let e = upd_node i (\<lambda>st. st \<lparr> nd_exec_state := EXECUTING, nd_eos_propagated := True \<rparr>) e
           in case flush_node H i context e of
                (outputs, e) \<Rightarrow>
                  (let e = (if outputs = [] then e else propagateOutputs H eos i outputs (collect_sink H i outputs e));
                       e = set_exec_state i COMPLETED e;
                       e = foldl (latch_edge eos context) e (outEdges i e);
                       e = (if isSink (the_graph e) i then recordSinkEndOfStream e else e)
                   in (True, e)))"

fun check_eos :: "('v, 'w) hooks \<Rightarrow> nat \<Rightarrow> ('v, 'w) eos_check" where
  "check_eos H 0 i context e = (False, e)"
| "check_eos H (Suc n) i context e = eos_body H (check_eos H n) i context e"

declare check_eos.simps [simp del]

definition checkNodeEndOfStream :: "('v, 'w) hooks \<Rightarrow> ('v, 'w) eos_check" where
  "checkNodeEndOfStream H i context e = check_eos H (Suc (length (en_states e))) i context e"

section \<open>Execution of a node\<close>

definition processNode :: "('v, 'w) hooks \<Rightarrow> ptr \<Rightarrow> 'v PortDataMap \<Rightarrow> ptr option \<Rightarrow> ('v, 'w) Engine \<Rightarrow> 'v PortDataMap result \<times> ('v, 'w) Engine" where
  "processNode H node inputs context e =
     (let name = getName (hk_env H node)
      in case hk_process H node inputs context (en_world e) of
           (r, w) \<Rightarrow>
             (let e = e \<lparr> en_world := w \<rparr>
              in case r of
                   Returned outputs \<Rightarrow> (ResOk outputs, e)
                 | ThrewStd what \<Rightarrow> (ResErr (Error_nodeException what name), invokeErrorCallback what name e)
                 | ThrewUnknown \<Rightarrow> (ResErr (mkError NodeUnknownException ''Unknown exception'' name), invokeErrorCallback ''Unknown exception'' name e)))"

definition handleNodeSuccess :: "('v, 'w) hooks \<Rightarrow> nat \<Rightarrow> 'v PortDataMap \<Rightarrow> ('v, 'w) Engine \<Rightarrow> ('v, 'w) Engine" where
  "handleNodeSuccess H i outputs e =
     (case read_clock H (upd_node i (\<lambda>st. st \<lparr> nd_execution_count := nd_execution_count st + 1 \<rparr>) e) of
        (now, e) \<Rightarrow>
          (let e = upd_node i (\<lambda>st. st \<lparr> nd_last_execution_ticks := now \<rparr>) e;
               e = upd_stats (\<lambda>s. s \<lparr> successful_executions := successful_executions s + 1 \<rparr>) e;
               e = collect_sink H i outputs e;
               e = propagateOutputs H (checkNodeEndOfStream H) i outputs e
           in if onNodeComplete (en_scheduler e) True
              then tryScheduleNode H (checkNodeEndOfStream H) i (set_exec_state i WAITING e)
              else set_exec_state i COMPLETED e))"

definition handleNodeFailure :: "('v, 'w) hooks \<Rightarrow> nat \<Rightarrow> ('v, 'w) Engine \<Rightarrow> ('v, 'w) Engine" where
  "handleNodeFailure H i e =
     (let e = upd_stats (\<lambda>s. s \<lparr> failed_executions := failed_executions s + 1 \<rparr>) e
      in if en_streamingMode e then tryScheduleNode H (checkNodeEndOfStream H) i (set_exec_state i WAITING e)
         else stopExecutionAsync (set_exec_state i FAILED e))"

definition record_latency :: "Timestamp \<Rightarrow> 'v PortDataMap \<Rightarrow> ('v, 'w) Engine \<Rightarrow> ('v, 'w) Engine" where
  "record_latency end_time inputs e =
     (case find (\<lambda>(port, packet). case packet of None \<Rightarrow> False | Some p \<Rightarrow> dp_timestamp p \<noteq> 0) inputs of
        Some (port, Some p) \<Rightarrow>
          (let latency = duration_cast 1000 (end_time - dp_timestamp p)
           in if latency > 0 then upd_stats (recordLatency (nat latency)) e else e)
      | _ \<Rightarrow> e)"

definition mark_processed :: "nat \<Rightarrow> 'v PortDataMap \<Rightarrow> ('v, 'w) Engine \<Rightarrow> ('v, 'w) Engine" where
  "mark_processed i inputs e =
     (if nd_sync_tracked (en_states e ! i)
      then case primaryFrame inputs of
             None \<Rightarrow> e
           | Some p \<Rightarrow> e \<lparr> en_sync := sync_markProcessed (nd_name (en_states e ! i)) (dp_id p) (en_sync e) \<rparr>
      else e)"

definition record_node_execution :: "nat \<Rightarrow> int \<Rightarrow> 'v PortDataMap \<Rightarrow> 'v PortDataMap result \<Rightarrow> ('v, 'w) Engine \<Rightarrow> ('v, 'w) Engine" where
  "record_node_execution i duration_us inputs r e =
     (let e = upd_stats (\<lambda>s. s \<lparr> total_processing_time_us := total_processing_time_us s + nat duration_us \<rparr>) e
      in if \<not> ec_enable_statistics (en_config e) then e
         else upd_node i (\<lambda>st. st \<lparr> nd_stats := (case r of
                ResOk outputs \<Rightarrow> recordIo (length inputs) (length outputs) (recordExecution True (nat duration_us) (nd_stats st))
              | ResErr _ \<Rightarrow> recordExecution False (nat duration_us) (nd_stats st)) \<rparr>) e)"

definition complete_execution :: "('v, 'w) hooks \<Rightarrow> nat \<Rightarrow> Timestamp \<Rightarrow> 'v PortDataMap \<Rightarrow> 'v PortDataMap result \<Rightarrow> ('v, 'w) Engine \<Rightarrow> ('v, 'w) Engine" where
  "complete_execution H i end_time inputs r e =
     (if en_stopFlag e then set_exec_state i WAITING e
      else case r of
             ResOk outputs \<Rightarrow>
               (let outputs = inheritFrameIdentity inputs outputs;
                    e = (if ec_enable_statistics (en_config e) \<and> isSink (the_graph e) i then record_latency end_time inputs e else e);
                    e = mark_processed i inputs e
                in handleNodeSuccess H i outputs e)
           | ResErr _ \<Rightarrow> handleNodeFailure H i e)"

definition executeNodeTask :: "('v, 'w) hooks \<Rightarrow> nat \<Rightarrow> ptr option \<Rightarrow> ('v, 'w) Engine \<Rightarrow> ('v, 'w) Engine" where
  "executeNodeTask H i context e =
     (if \<not> i < length (en_states e) then finish_one e
      else case isStopRequested e of
             (True, e) \<Rightarrow> finish_one (set_exec_state i WAITING e)
           | (False, e) \<Rightarrow>
               if nd_exec_state (en_states e ! i) \<noteq> READY then finish_one e
               else case read_clock H (set_exec_state i EXECUTING e) of
                 (started, e) \<Rightarrow>
                   (case gatherNodeInputs H i e of
                      (False, inputs, e) \<Rightarrow>
                        if en_streamingMode e \<and> \<not> en_stopFlag e
                        then (case checkNodeEndOfStream H i context (set_exec_state i WAITING e) of
                                (True, e) \<Rightarrow> finish_one e
                              | (False, e) \<Rightarrow> finish_one (tryScheduleNode H (checkNodeEndOfStream H) i e))
                        else finish_one (handleNodeFailure H i e)
                    | (True, inputs, e) \<Rightarrow>
                        (let e = upd_stats (\<lambda>s. s \<lparr> total_executions := total_executions s + 1 \<rparr>) e
                         in case processNode H (nd_node (en_states e ! i)) inputs context e of
                              (r, e) \<Rightarrow>
                                (case read_clock H e of
                                   (end_time, e) \<Rightarrow>
                                     (let e = record_node_execution i (duration_cast 1000 (end_time - started)) inputs r e;
                                          e = complete_execution H i end_time inputs r e;
                                          e = snd (checkNodeEndOfStream H i context e)
                                      in finish_one e)))))"

text \<open>A posted task: the closure of \<open>scheduleNodeExecution\<close>.\<close>

definition run_task :: "('v, 'w) hooks \<Rightarrow> task \<Rightarrow> ('v, 'w) Engine \<Rightarrow> ('v, 'w) Engine" where
  "run_task H t e =
     (case t of
        (i, context, scheduled_at) \<Rightarrow>
          (case read_clock H e of
             (now, e) \<Rightarrow>
               (let delay = duration_cast 1000 (now - scheduled_at);
                    e = (if ec_enable_statistics (en_config e) \<and> delay > 0
                         then upd_stats (\<lambda>s. s \<lparr> total_schedule_time_us := total_schedule_time_us s + nat delay \<rparr>) e else e)
                in executeNodeTask H i context e)))"

text \<open>One task on worker \<open>w\<close> of the pool, from its claim to its end; \<open>None\<close> when there is nothing to run.\<close>

definition run_worker :: "('v, 'w) hooks \<Rightarrow> nat \<Rightarrow> nat \<Rightarrow> ('v, 'w) Engine \<Rightarrow> ('v, 'w) Engine option" where
  "run_worker H start w e =
     (case en_pool e of
        None \<Rightarrow> None
      | Some p \<Rightarrow>
          if \<not> w < length (tp_queues p) then None
          else case claim_task start w p of
                 (None, p) \<Rightarrow> None
               | (Some t, p) \<Rightarrow>
                   Some (let e = run_task H t (e \<lparr> en_pool := Some p, en_worker := Some w \<rparr>)
                         in e \<lparr> en_pool := map_option (\<lambda>p. snd (finish_task p)) (en_pool e), en_worker := None \<rparr>))"

section \<open>Timers\<close>

text \<open>The deferred entry that is due next.\<close>

fun earliest :: "(Timestamp \<times> nat) list \<Rightarrow> (Timestamp \<times> nat) option" where
  "earliest [] = None"
| "earliest (x # xs) = (case earliest xs of None \<Rightarrow> Some x | Some y \<Rightarrow> if fst y < fst x then Some y else Some x)"

definition defer_timer :: "('v, 'w) hooks \<Rightarrow> ('v, 'w) Engine \<Rightarrow> ('v, 'w) Engine" where
  "defer_timer H e =
     (if \<not> en_deferRunning e then e
      else case earliest (en_deferQueue e) of
             None \<Rightarrow> e
           | Some (due, i) \<Rightarrow>
               (case read_clock H e of
                  (now, e) \<Rightarrow>
                    if now < due then e
                    else let e = e \<lparr> en_deferQueue := remove1 (due, i) (en_deferQueue e) \<rparr>
                         in if i < length (en_states e)
                            then tryScheduleNode H (checkNodeEndOfStream H) i (upd_node i (\<lambda>st. st \<lparr> nd_defer_pending := False \<rparr>) e)
                            else e))"

definition watch_node :: "('v, 'w) hooks \<Rightarrow> Timestamp \<Rightarrow> nat \<Rightarrow> ('v, 'w) Engine \<Rightarrow> ('v, 'w) Engine" where
  "watch_node H now i e =
     (case stateByIndex i e of
        None \<Rightarrow> e
      | Some st \<Rightarrow>
          let ready = length (filter (\<lambda>q. \<not> pq_empty q) (nd_queues st)); since = nd_join_wait_since_ticks st;
              restart = (\<lambda>t e. upd_node i (\<lambda>st. st \<lparr> nd_join_wait_since_ticks := t \<rparr>) e)
          in if ready = 0 \<or> ready = length (nd_queues st) then restart 0 e
             else if since = 0 then restart now e
             else if now - since < ec_join_wait_timeout (en_config e) * 1000000 then e
             else scheduleNodeExecution H i (upd_node i (\<lambda>st. st \<lparr> nd_degrade_pending := True \<rparr>) (restart now e)))"

definition watchdog_tick :: "('v, 'w) hooks \<Rightarrow> ('v, 'w) Engine \<Rightarrow> ('v, 'w) Engine" where
  "watchdog_tick H e =
     (if \<not> en_watchdog e \<or> en_stopFlag e then e
      else case read_clock H e of (now, e) \<Rightarrow> foldl (\<lambda>e i. watch_node H now i e) e (en_multiInput e))"

end
