(* ===== verification/Engine_Api.thy ===== *)
theory Engine_Api
  imports Engine_Exec
begin

unbundle bit_operations_syntax

text \<open>
  The public operations of the execution engine (\<open>execution_engine_impl.cpp\<close>): batch execution,
  streaming, injection of packets, end-of-stream signals, stopping, resetting and waiting.

  An operation that blocks on the completion condition variable is split at the wait.  The
  argument \<open>others\<close> is what all other threads do until the wait ends; its first result
  says whether the wait timed out.  The condition of the wait is a predicate of its own
  (\<open>completion_reached\<close>, \<open>drain_reached\<close>, \<open>eos_wait_reached\<close>).
\<close>

section \<open>Waiting\<close>

type_synonym ('v, 'w) others = "('v, 'w) Engine \<Rightarrow> bool \<times> ('v, 'w) Engine"

definition completion_reached :: "('v, 'w) Engine \<Rightarrow> bool" where
  "completion_reached e \<longleftrightarrow> en_activeTasks e = 0 \<or> en_stopFlag e"

definition idle_reached :: "('v, 'w) Engine \<Rightarrow> bool" where
  "idle_reached e \<longleftrightarrow> en_state e \<noteq> EngineRUNNING"

definition waitForIdle :: "('v, 'w) others \<Rightarrow> ('v, 'w) Engine \<Rightarrow> ('v, 'w) Engine" where
  "waitForIdle others e = snd (others e)"

definition drain_reached :: "nat \<Rightarrow> ('v, 'w) Engine \<Rightarrow> bool" where
  "drain_reached max_depth e \<longleftrightarrow> en_stopFlag e \<or> en_activeTasks e = 0 \<and> allQueuesDrained max_depth e"

definition waitForDrain :: "('v, 'w) others \<Rightarrow> nat \<Rightarrow> nat \<Rightarrow> ('v, 'w) Engine \<Rightarrow> void_result \<times> ('v, 'w) Engine" where
  "waitForDrain others max_depth timeout e =
     (case others e of
        (False, e) \<Rightarrow> (void_ok, e)
      | (True, e) \<Rightarrow> (void_err ExecutionTimeout (''waitForDrain timed out after '' @ to_string timeout @ ''ms''), e))"

text \<open>The verdict after the wait for a batch: the engine's state decides.\<close>

definition completion_verdict :: "('v, 'w) Engine \<Rightarrow> void_result \<times> ('v, 'w) Engine" where
  "completion_verdict e =
     (let was_stopped = en_stopFlag e; current_state = en_state e
      in if was_stopped \<and> current_state \<noteq> EngineSTOPPED
         then (void_err ExecutionStopped ''Execution was stopped externally'', e \<lparr> en_state := EngineSTOPPED, en_context := None \<rparr>)
         else if en_activeTasks e = 0 \<and> (current_state = EngineRUNNING \<or> current_state = EngineIDLE)
         then (void_ok, e \<lparr> en_state := EngineIDLE, en_context := None \<rparr>)
         else if current_state \<noteq> EngineERROR \<and> current_state \<noteq> EngineSTOPPED
         then (void_err ExecutionFailed ''Execution finished abnormally'', e \<lparr> en_state := EngineERROR, en_context := None \<rparr>)
         else (void_err ExecutionFailed (''Execution ended in '' @ stateToString current_state @ '' state''), e \<lparr> en_context := None \<rparr>))"

definition requestCancellation :: "ptr option \<Rightarrow> ('v, 'w) Engine \<Rightarrow> ('v, 'w) Engine" where
  "requestCancellation context e = (case context of None \<Rightarrow> e
     | Some c \<Rightarrow> e \<lparr> en_world := (en_world e) \<lparr> wd_cancelled := (wd_cancelled (en_world e))(c := True) \<rparr> \<rparr>)"

definition reset_cancellation :: "ptr option \<Rightarrow> ('v, 'w) Engine \<Rightarrow> ('v, 'w) Engine" where
  "reset_cancellation context e = (case context of None \<Rightarrow> e
     | Some c \<Rightarrow> e \<lparr> en_world := (en_world e) \<lparr> wd_cancelled := (wd_cancelled (en_world e))(c := False) \<rparr> \<rparr>)"

definition waitForCompletion :: "('v, 'w) others \<Rightarrow> nat option \<Rightarrow> ('v, 'w) Engine \<Rightarrow> void_result \<times> ('v, 'w) Engine" where
  "waitForCompletion others timeout e =
     (case others e of
        (timed_out, e) \<Rightarrow>
          (case timeout of
             Some ms \<Rightarrow>
               if timed_out
               then (void_err ExecutionTimeout (''Execution timed out after '' @ to_string ms @ ''ms''),
                     (stopExecutionAsync (requestCancellation (en_context e) e)) \<lparr> en_context := None \<rparr>)
               else completion_verdict e
           | None \<Rightarrow> completion_verdict e))"

section \<open>Injection of packets\<close>

definition route_branch :: "('v, 'w) hooks \<Rightarrow> string \<Rightarrow> 'v PortDataPtr \<Rightarrow> OutEdge \<Rightarrow> nat \<times> nat \<times> nat \<times> ('v, 'w) Engine \<Rightarrow> nat \<times> nat \<times> nat \<times> ('v, 'w) Engine" where
  "route_branch H output_port data edge s =
     (case s of
        (routed, rejected, depth, e) \<Rightarrow>
          if oe_source_port edge \<noteq> output_port \<or> \<not> oe_dest_node edge < length (en_states e) then s
          else case pushToQueue (oe_dest_node edge) (oe_dest_port edge) data e of
                 (False, e) \<Rightarrow> (routed, rejected + 1, depth, e)
               | (True, e) \<Rightarrow>
                   (let e = upd_stats (\<lambda>st. st \<lparr> total_queue_pushes := total_queue_pushes st + 1, total_input_frames := total_input_frames st + 1 \<rparr>) e;
                        e = tryScheduleNode H (checkNodeEndOfStream H) (oe_dest_node edge) e
                    in (routed + 1, rejected, depth + getQueueSize (en_states e ! oe_dest_node edge) (oe_dest_port edge), e)))"

definition routeToDownstream :: "('v, 'w) hooks \<Rightarrow> ptr \<Rightarrow> string \<Rightarrow> 'v PortDataPtr \<Rightarrow> ('v, 'w) Engine \<Rightarrow> PushStatus result \<times> ('v, 'w) Engine" where
  "routeToDownstream H source output_port data e =
     (let name = getName (hk_env H source); src_index = indexOfPtr (the_graph e) source
      in if src_index = k_invalid_index then (ResErr (Error_nodeNotFound name), e)
         else case foldl (\<lambda>s edge. route_branch H output_port data edge s) (0, 0, 0, e) (outEdges src_index e) of
                (routed, rejected, depth, e) \<Rightarrow>
                  if routed = 0
                  then if rejected > 0
                       then (err_at QueueRejected (''All downstream queues rejected data for port: '' @ output_port) name, e)
                       else (err_at NoDownstreamConnection (''No downstream connections for port: '' @ output_port) name, e)
                  else if rejected > 0
                  then (ResOk (dropped (''rejected on '' @ to_string rejected @ '' of '' @ to_string (routed + rejected) @ '' downstream branches'') depth), e)
                  else (ResOk (enqueued depth), e))"

definition actual_port :: "('v, 'w) hooks \<Rightarrow> ptr \<Rightarrow> string \<Rightarrow> string" where
  "actual_port H node port_name =
     (if port_name \<noteq> '''' then port_name
      else let port = getFirstInputPort H node in if port = '''' then getFirstOutputPort H node else port)"

definition at_end_of_stream :: "'v NodeState \<Rightarrow> string \<Rightarrow> bool" where
  "at_end_of_stream st port = (case port_position st port of None \<Rightarrow> False | Some k \<Rightarrow> portEosLatched st k)"

definition pushInput :: "('v, 'w) hooks \<Rightarrow> string \<Rightarrow> string \<Rightarrow> 'v PortDataPtr \<Rightarrow> ('v, 'w) Engine \<Rightarrow> PushStatus result \<times> ('v, 'w) Engine" where
  "pushInput H source port_name data e =
     (if \<not> en_streamingMode e \<and> en_state e \<noteq> EngineRUNNING then (err NotStreaming ''Not in streaming/running mode'', e)
      else case stateByName source e of
             None \<Rightarrow> (ResErr (Error_nodeNotFound source), e)
           | Some st \<Rightarrow>
               let port = actual_port H (nd_node st) port_name; i = nd_index st
               in if port = '''' then (err_at PortNotFound (''No ports for node: '' @ source) source, e)
                  else if isInputPort H (nd_node st) port
                  then if at_end_of_stream st port
                       then (err_at EndOfStreamSignaled (''Port is at end of stream: '' @ port) source, e)
                       else case stampIncomingFrame H data e of
                              (data, e) \<Rightarrow>
                                (case pushToQueue i port data e of
                                   (False, e) \<Rightarrow> (err_at QueueRejected (''Queue full (DropTail) on port: '' @ port) source, e)
                                 | (True, e) \<Rightarrow>
                                     (let e = upd_stats (\<lambda>st. st \<lparr> total_queue_pushes := total_queue_pushes st + 1, total_input_frames := total_input_frames st + 1 \<rparr>) e;
                                          e = tryScheduleNode H (checkNodeEndOfStream H) i e
                                      in (ResOk (enqueued (getQueueSize (en_states e ! i) port)), e)))
                  else if isOutputPort H (nd_node st) port then routeToDownstream H (nd_node st) port data e
                  else (ResErr (Error_portNotFound port source), e))"

text \<open>One source node: whether the loop goes on, whether a node was scheduled, and the engine afterwards.\<close>

definition distribute_input :: "('v, 'w) hooks \<Rightarrow> 'v PortDataMap \<Rightarrow> nat \<Rightarrow> bool \<Rightarrow> ('v, 'w) Engine \<Rightarrow> bool \<times> bool \<times> ('v, 'w) Engine" where
  "distribute_input H initial_inputs i has_scheduled e =
     (case stateByIndex i e of
        None \<Rightarrow> (True, has_scheduled, e)
      | Some st \<Rightarrow>
          (case map_of initial_inputs (nd_name st) of
             Some data \<Rightarrow>
               (case stampIncomingFrame H data e of
                  (data, e) \<Rightarrow>
                    if nd_input_ports st = [] then (True, True, tryScheduleNode H (checkNodeEndOfStream H) i e)
                    else case pushToQueue i (nd_input_ports st ! 0) data e of
                           (False, e) \<Rightarrow> (False, has_scheduled, e)
                         | (True, e) \<Rightarrow>
                             (True, True, tryScheduleNode H (checkNodeEndOfStream H) i
                               (upd_stats (\<lambda>s. s \<lparr> total_input_frames := total_input_frames s + 1 \<rparr>) e)))
           | None \<Rightarrow>
               if nd_input_ports st = [] then (True, True, tryScheduleNode H (checkNodeEndOfStream H) i e)
               else (True, has_scheduled, e)))"

fun distribute_loop :: "('v, 'w) hooks \<Rightarrow> 'v PortDataMap \<Rightarrow> nat list \<Rightarrow> bool \<Rightarrow> ('v, 'w) Engine \<Rightarrow> bool \<times> ('v, 'w) Engine" where
  "distribute_loop H initial_inputs [] has_scheduled e = (has_scheduled \<or> initial_inputs = [], e)"
| "distribute_loop H initial_inputs (i # is) has_scheduled e =
     (case distribute_input H initial_inputs i has_scheduled e of
        (False, has_scheduled, e) \<Rightarrow> (False, e)
      | (True, has_scheduled, e) \<Rightarrow> distribute_loop H initial_inputs is has_scheduled e)"

definition distributeInitialInputs :: "('v, 'w) hooks \<Rightarrow> 'v PortDataMap \<Rightarrow> ('v, 'w) Engine \<Rightarrow> bool \<times> ('v, 'w) Engine" where
  "distributeInitialInputs H initial_inputs e = distribute_loop H initial_inputs (cg_sourceNodes (the_graph e)) False e"


section \<open>End of stream\<close>

definition signalEndOfStream :: "('v, 'w) hooks \<Rightarrow> string \<Rightarrow> string \<Rightarrow> ('v, 'w) Engine \<Rightarrow> void_result \<times> ('v, 'w) Engine" where
  "signalEndOfStream H source port_name e =
     (if \<not> en_streamingMode e then (void_err NotStreaming ''signalEndOfStream requires streaming mode'', e)
      else case stateByName source e of
             None \<Rightarrow> (VoidResult (Error_nodeNotFound source), e)
           | Some st \<Rightarrow>
               if nd_input_ports st = [] then (void_err_at PortNotFound (''Node has no input port to close: '' @ source) source, e)
               else let port = (if port_name = '''' then hd (nd_input_ports st) else port_name)
                    in case port_position st port of
                         None \<Rightarrow> (VoidResult (Error_portNotFound port source), e)
                       | Some k \<Rightarrow>
                           if k \<ge> k_max_eos_ports
                           then (void_err_at InvalidArgument (''Port index beyond the end-of-stream limit on: '' @ source) source, e)
                           else let i = nd_index st; bit = push_bit k 1;
                                    e = upd_node i (\<lambda>st. st \<lparr> nd_eos_mask := nd_eos_mask st OR bit \<rparr>) e
                                in if nd_eos_mask st AND bit \<noteq> 0
                                   then (void_err_at EndOfStreamSignaled (''Port already at end of stream: '' @ port) source, e)
                                   else case checkNodeEndOfStream H i (en_context e) e of
                                          (True, e) \<Rightarrow> (void_ok, e)
                                        | (False, e) \<Rightarrow> (void_ok, tryScheduleNode H (checkNodeEndOfStream H) i e))"

definition eos_wait_reached :: "('v, 'w) Engine \<Rightarrow> bool" where
  "eos_wait_reached e \<longleftrightarrow> en_endOfStreamReached e \<or> en_stopFlag e"

definition waitForEndOfStream :: "('v, 'w) others \<Rightarrow> int \<Rightarrow> ('v, 'w) Engine \<Rightarrow> void_result \<times> ('v, 'w) Engine" where
  "waitForEndOfStream others timeout e =
     (if en_endOfStreamReached e then (void_ok, e)
      else if \<not> en_streamingMode e then (void_err NotStreaming ''waitForEndOfStream requires streaming mode'', e)
      else case others e of
             (timed_out, e) \<Rightarrow>
               if timeout > 0 \<and> timed_out then (void_err ExecutionTimeout ''Timed out waiting for end of stream'', e)
               else if \<not> en_endOfStreamReached e then (void_err ExecutionStopped ''Engine stopped before end of stream'', e)
               else (void_ok, e))"

section \<open>Starting and stopping\<close>

definition startStreaming :: "('v, 'w) hooks \<Rightarrow> ptr option \<Rightarrow> ('v, 'w) Engine \<Rightarrow> void_result \<times> ('v, 'w) Engine" where
  "startStreaming H context e =
     (if en_state e \<noteq> EngineIDLE then (void_err InvalidState ''Cannot start streaming - engine is not idle'', e)
      else if \<not> supportsStreaming (en_scheduler e)
      then (void_err StreamingNotSupported ''Current scheduler strategy does not support streaming mode'', e)
      else case setupNodes H context e of
             (r, e) \<Rightarrow>
               if \<not> void_isOk r then (r, e)
               else let e = reset_cancellation context e;
                        e = reset_statistics H (e \<lparr> en_context := context, en_completionReported := False, en_streamingMode := True,
                              en_stopFlag := False, en_state := EngineRUNNING \<rparr>)
                    in (void_ok, if ec_join_wait_timeout (en_config e) > 0 \<and> en_multiInput e \<noteq> [] then startJoinTimeoutWatchdog e else e))"

definition no_active_tasks :: "('v, 'w) Engine \<Rightarrow> bool" where
  "no_active_tasks e \<longleftrightarrow> en_activeTasks e = 0"

definition stopStreaming :: "('v, 'w) others \<Rightarrow> ('v, 'w) others \<Rightarrow> bool \<Rightarrow> ('v, 'w) Engine \<Rightarrow> ('v, 'w) Engine" where
  "stopStreaming draining others wait_for_drain e =
     (if \<not> en_streamingMode e then e
      else let e = stopJoinTimeoutWatchdog (e \<lparr> en_stopFlag := True \<rparr>);
               e = (if wait_for_drain then snd (waitForDrain draining 0 5000 e) else e);
               e = snd (others e)
           in e \<lparr> en_streamingMode := False, en_state := EngineIDLE \<rparr>)"

definition stopExecutionSync :: "('v, 'w) others \<Rightarrow> ('v, 'w) Engine \<Rightarrow> ('v, 'w) Engine" where
  "stopExecutionSync others e =
     (let e = snd (others (stopExecutionAsync e))
      in if en_state e = EngineRUNNING then e \<lparr> en_state := EngineSTOPPED \<rparr> else e)"

definition reset_node :: "'v NodeState \<Rightarrow> 'v NodeState" where
  "reset_node st = st \<lparr> nd_exec_state := WAITING, nd_execution_count := 0, nd_eos_mask := 0, nd_eos_propagated := False,
     nd_queues := map (\<lambda>q. pq_resetStatistics (pq_clear q)) (nd_queues st) \<rparr>"

definition engine_reset :: "('v, 'w) hooks \<Rightarrow> ('v, 'w) others \<Rightarrow> ('v, 'w) Engine \<Rightarrow> ('v, 'w) Engine" where
  "engine_reset H others e =
     (let e = stopDeferTimer (stopExecutionSync others e);
          e = teardownNodes H (e \<lparr> en_states := map reset_node (en_states e), en_sync := sync_reset (en_sync e) \<rparr>)
      in reset_statistics H (e \<lparr> en_results := [], en_activeTasks := 0, en_completionReported := False, en_stopFlag := False,
           en_streamingMode := False, en_sinksAtEos := 0, en_endOfStreamReached := False, en_state := EngineIDLE \<rparr>))"

section \<open>Batch execution\<close>

definition reset_batch_node :: "'v NodeState \<Rightarrow> 'v NodeState" where
  "reset_batch_node st = st \<lparr> nd_exec_state := WAITING, nd_execution_count := 0, nd_join_wait_since_ticks := 0, nd_degrade_pending := False,
     nd_eos_mask := 0, nd_eos_propagated := False, nd_stats := stats_reset (nd_stats st), nd_queues := map pq_clear (nd_queues st) \<rparr>"

definition resetInternalState :: "('v, 'w) Engine \<Rightarrow> ('v, 'w) Engine" where
  "resetInternalState e = e \<lparr> en_stopFlag := False, en_activeTasks := 0, en_completionReported := False, en_nextFrameId := 1,
     en_sinksAtEos := 0, en_endOfStreamReached := False, en_nextStreamFrameId := (\<lambda>_. 0), en_results := [],
     en_states := map reset_batch_node (en_states e) \<rparr>"

text \<open>The inputs of a streaming engine go in one by one; the first refusal ends the call.\<close>

fun push_inputs :: "('v, 'w) hooks \<Rightarrow> 'v PortDataMap \<Rightarrow> ('v, 'w) Engine \<Rightarrow> void_result \<times> ('v, 'w) Engine" where
  "push_inputs H [] e = (void_ok, e)"
| "push_inputs H ((node, data) # inputs) e =
     (case pushInput H node '''' data e of
        (ResErr er, e) \<Rightarrow> (VoidResult er, e)
      | (ResOk _, e) \<Rightarrow> push_inputs H inputs e)"

text \<open>The part of a batch before the wait.\<close>

definition start_batch :: "('v, 'w) hooks \<Rightarrow> 'v PortDataMap \<Rightarrow> ptr option \<Rightarrow> ('v, 'w) Engine \<Rightarrow> void_result \<times> ('v, 'w) Engine" where
  "start_batch H initial_inputs context e =
     (if en_state e = EngineRUNNING then (void_err AlreadyRunning ''Engine is already running'', e)
      else if en_compiled e = None \<or> en_pool e = None
      then (void_err NotInitialized ''Engine not initialized (missing graph or thread pool)'', e)
      else let e = e \<lparr> en_context := context \<rparr>
           in case setupNodes H context e of
                (r, e) \<Rightarrow>
                  if \<not> void_isOk r then (r, e \<lparr> en_state := EngineERROR, en_context := None \<rparr>)
                  else let e = (reset_cancellation context (resetInternalState e)) \<lparr> en_state := EngineRUNNING \<rparr>
                       in case distributeInitialInputs H initial_inputs e of
                            (True, e) \<Rightarrow> (void_ok, e)
                          | (False, e) \<Rightarrow> (void_err ExecutionFailed ''Failed to distribute initial inputs to source nodes'',
                              e \<lparr> en_state := EngineERROR, en_context := None \<rparr>))"

definition execute :: "('v, 'w) hooks \<Rightarrow> ('v, 'w) others \<Rightarrow> 'v PortDataMap \<Rightarrow> bool \<Rightarrow> ptr option \<Rightarrow> nat option \<Rightarrow> ('v, 'w) Engine \<Rightarrow> void_result \<times> ('v, 'w) Engine" where
  "execute H others initial_inputs wait_for_completion context timeout e =
     (if en_streamingMode e
      then case push_inputs H initial_inputs e of
             (r, e) \<Rightarrow> if \<not> void_isOk r then (r, e) else (void_ok, if wait_for_completion then snd (others e) else e)
      else case start_batch H initial_inputs context e of
             (r, e) \<Rightarrow> if \<not> void_isOk r then (r, e)
                      else if wait_for_completion then waitForCompletion others timeout e else (void_ok, e))"

end
