(* ===== verification/Engine_Frames.thy ===== *)
theory Engine_Frames
  imports Engine_Exec
begin

text \<open>
  What the steps of the engine leave alone.  The relation \<open>calm\<close> between two states of an
  engine collects what every internal step keeps: the configuration, the state machine of the nodes (only a
  waiting node changes its state), the latches of the ports, and, as implications, three invariants:

  \<^item> \<open>tasks_ok\<close>: the tasks in the pool are exactly one for each node that is ready, and the
    counter of active tasks is their number plus the running ones;
  \<^item> \<open>settled\<close>: a node whose inputs have all ended is flushed as soon as it does not run;
  \<^item> \<open>eos_ok\<close>: the flushed nodes have closed the ports behind them, and the sinks among them
    are counted.

  Steps that touch none of this are \<open>quiet\<close>.  The lemmas of theory \<open>Engine_Streams\<close> chain these
  facts through the functions of the engine.
\<close>

section \<open>The frame\<close>

definition node_frame :: "'v NodeState \<Rightarrow> ptr \<times> string \<times> nat \<times> string list \<times> bool \<times> nat list" where
  "node_frame st = (nd_node st, nd_name st, nd_index st, nd_input_ports st, nd_sync_tracked st, map pq_cap (nd_queues st))"

definition same_frame :: "('v, 'w) Engine \<Rightarrow> ('v, 'w) Engine \<Rightarrow> bool" where
  "same_frame e e' \<longleftrightarrow> en_compiled e' = en_compiled e \<and> en_config e' = en_config e \<and> en_scheduler e' = en_scheduler e \<and>
     en_streamingMode e' = en_streamingMode e \<and> en_sinkCount e' = en_sinkCount e \<and> en_callbacks e' = en_callbacks e \<and>
     en_multiInput e' = en_multiInput e \<and> en_worker e' = en_worker e \<and> map node_frame (en_states e') = map node_frame (en_states e)"

abbreviation nodes_of :: "('v, 'w) Engine \<Rightarrow> nat" where
  "nodes_of e \<equiv> length (en_states e)"

abbreviation exec_of :: "('v, 'w) Engine \<Rightarrow> nat \<Rightarrow> NodeExecutionState" where
  "exec_of e i \<equiv> nd_exec_state (en_states e ! i)"

abbreviation flushed :: "('v, 'w) Engine \<Rightarrow> nat \<Rightarrow> bool" where
  "flushed e i \<equiv> nd_eos_propagated (en_states e ! i)"

abbreviation latched :: "('v, 'w) Engine \<Rightarrow> nat \<Rightarrow> nat \<Rightarrow> bool" where
  "latched e i k \<equiv> portEosLatched (en_states e ! i) k"

lemma same_frame_refl [simp]: "same_frame e e"
  by (simp add: same_frame_def)

lemma same_frame_trans [trans]: "same_frame e1 e2 \<Longrightarrow> same_frame e2 e3 \<Longrightarrow> same_frame e1 e3"
  by (simp add: same_frame_def)

lemma same_frame_nodes: "same_frame e e' \<Longrightarrow> nodes_of e' = nodes_of e"
  unfolding same_frame_def by (metis length_map)

lemma same_frame_graph: "same_frame e e' \<Longrightarrow> the_graph e' = the_graph e" "same_frame e e' \<Longrightarrow> outEdges i e' = outEdges i e"
  by (simp_all add: same_frame_def the_graph_def outEdges_def)

lemma same_frame_node:
  assumes "same_frame e e'" and "i < nodes_of e"
  shows "node_frame (en_states e' ! i) = node_frame (en_states e ! i)"
proof -
  have "map node_frame (en_states e') ! i = map node_frame (en_states e) ! i" using assms(1) by (simp add: same_frame_def)
  then show ?thesis using assms(2) same_frame_nodes [OF assms(1)] by simp
qed

text \<open>What initialization establishes once and for all.\<close>

definition node_static :: "nat \<Rightarrow> 'v NodeState \<Rightarrow> bool" where
  "node_static i st \<longleftrightarrow> nd_index st = i \<and> distinct (nd_input_ports st) \<and> length (nd_queues st) = length (nd_input_ports st) \<and>
     (\<forall>q\<in>set (nd_queues st). 0 < pq_cap q)"

definition static_ok :: "('v, 'w) Engine \<Rightarrow> bool" where
  "static_ok e \<longleftrightarrow> (\<forall>i<nodes_of e. node_static i (en_states e ! i))"

lemma node_static_frame:
  assumes "node_frame st' = node_frame st" and "node_static i st"
  shows "node_static i st'"
proof -
  have caps: "map pq_cap (nd_queues st') = map pq_cap (nd_queues st)" using assms(1) by (simp add: node_frame_def)
  have "0 < pq_cap q" if "q \<in> set (nd_queues st')" for q
  proof -
    have "pq_cap q \<in> set (map pq_cap (nd_queues st'))" using that by simp
    then show ?thesis unfolding caps using assms(2) by (auto simp: node_static_def)
  qed
  then show ?thesis using assms map_eq_imp_length_eq [OF caps] by (simp add: node_static_def node_frame_def)
qed

lemma static_frame: "same_frame e e' \<Longrightarrow> static_ok e \<Longrightarrow> static_ok e'"
  by (auto simp: static_ok_def same_frame_nodes intro: node_static_frame same_frame_node)

section \<open>The invariants\<close>

definition ready_nodes :: "('v, 'w) Engine \<Rightarrow> nat set" where
  "ready_nodes e = {i. i < nodes_of e \<and> exec_of e i = READY}"

definition tasks_ok :: "int \<Rightarrow> ('v, 'w) Engine \<Rightarrow> bool" where
  "tasks_ok running e \<longleftrightarrow> en_pool e \<noteq> None \<and> own_thread (en_worker e) (the (en_pool e)) \<and>
     en_activeTasks e = int (length (pool_tasks (the (en_pool e)))) + running \<and>
     mset (map fst (pool_tasks (the (en_pool e)))) = mset_set (ready_nodes e)"

definition settled_at :: "('v, 'w) Engine \<Rightarrow> nat \<Rightarrow> bool" where
  "settled_at e i \<longleftrightarrow> \<not> (en_streamingMode e \<and> \<not> en_stopFlag e \<and> exec_of e i \<in> {WAITING, COMPLETED} \<and>
     allInputPortsDrained (en_states e ! i)) \<or> flushed e i"

definition settled :: "nat set \<Rightarrow> ('v, 'w) Engine \<Rightarrow> bool" where
  "settled S e \<longleftrightarrow> (\<forall>i<nodes_of e. i \<notin> S \<longrightarrow> settled_at e i)"

definition flushed_sinks :: "('v, 'w) Engine \<Rightarrow> nat set" where
  "flushed_sinks e = {i. i < nodes_of e \<and> isSink (the_graph e) i \<and> flushed e i}"

definition closed_behind :: "('v, 'w) Engine \<Rightarrow> nat \<Rightarrow> bool" where
  "closed_behind e i \<longleftrightarrow> (\<forall>edge\<in>set (outEdges i e). oe_dest_node edge < nodes_of e \<and> oe_dest_port_index edge < k_max_eos_ports \<longrightarrow>
     latched e (oe_dest_node edge) (oe_dest_port_index edge))"

text \<open>The nodes of \<open>P\<close> are in the middle of their flush.\<close>

definition eos_ok :: "nat set \<Rightarrow> ('v, 'w) Engine \<Rightarrow> bool" where
  "eos_ok P e \<longleftrightarrow> (\<forall>i\<in>P. i < nodes_of e \<and> flushed e i) \<and>
     en_sinksAtEos e + card {i \<in> P. isSink (the_graph e) i} = card (flushed_sinks e) \<and>
     en_endOfStreamReached e = (en_sinkCount e \<noteq> 0 \<and> en_sinkCount e \<le> en_sinksAtEos e) \<and>
     (\<forall>i<nodes_of e. flushed e i \<and> i \<notin> P \<longrightarrow> closed_behind e i)"

definition eos_calls :: "('v, 'w) Engine \<Rightarrow> nat" where
  "eos_calls e = length (filter (\<lambda>c. c = EndOfStreamCall) (en_calls e))"

section \<open>Calm steps\<close>

text \<open>Only a waiting node changes its state: it gets ready, or it is flushed and so completed.\<close>

definition exec_step :: "NodeExecutionState \<Rightarrow> NodeExecutionState \<Rightarrow> bool" where
  "exec_step s s' \<longleftrightarrow> (if s = WAITING then s' \<in> {WAITING, READY, COMPLETED} else s' = s)"

lemma exec_step_refl [simp]: "exec_step s s"
  by (simp add: exec_step_def)

lemma exec_step_simps [simp]:
  "exec_step WAITING s \<longleftrightarrow> s \<in> {WAITING, READY, COMPLETED}" "exec_step READY s \<longleftrightarrow> s = READY" "exec_step EXECUTING s \<longleftrightarrow> s = EXECUTING"
  "exec_step COMPLETED s \<longleftrightarrow> s = COMPLETED" "exec_step FAILED s \<longleftrightarrow> s = FAILED"
  by (simp_all add: exec_step_def)

lemma exec_step_trans: "exec_step s1 s2 \<Longrightarrow> exec_step s2 s3 \<Longrightarrow> exec_step s1 s3"
  by (auto simp: exec_step_def split: if_splits)

text \<open>The nodes of \<open>X\<close> are exempt: their state may change, and they may be left unsettled.\<close>

definition steady :: "nat set \<Rightarrow> ('v, 'w) Engine \<Rightarrow> ('v, 'w) Engine \<Rightarrow> bool" where
  "steady X e e' \<longleftrightarrow> same_frame e e' \<and> (en_stopFlag e \<longrightarrow> en_stopFlag e') \<and>
     (\<forall>i<nodes_of e. (flushed e i \<longrightarrow> flushed e' i) \<and> (\<forall>k. latched e i k \<longrightarrow> latched e' i k)) \<and>
     (\<forall>i<nodes_of e. i \<notin> X \<longrightarrow> exec_step (exec_of e i) (exec_of e' i)) \<and>
     (en_endOfStreamReached e \<longrightarrow> en_endOfStreamReached e') \<and>
     eos_calls e' = eos_calls e + of_bool (cb_endOfStream (en_callbacks e) \<and> en_endOfStreamReached e' \<and> \<not> en_endOfStreamReached e) \<and>
     (static_ok e \<longrightarrow> (\<forall>d. tasks_ok d e \<longrightarrow> tasks_ok d e') \<and> (\<forall>S. settled S e \<longrightarrow> settled (S \<union> X) e'))"

definition flows :: "('v, 'w) Engine \<Rightarrow> ('v, 'w) Engine \<Rightarrow> bool" where
  "flows e e' \<longleftrightarrow> (\<forall>P. eos_ok P e \<longrightarrow> eos_ok P e')"

definition calm :: "nat set \<Rightarrow> ('v, 'w) Engine \<Rightarrow> ('v, 'w) Engine \<Rightarrow> bool" where
  "calm X e e' \<longleftrightarrow> steady X e e' \<and> flows e e'"

lemma steadyD:
  assumes "steady X e e'"
  shows "same_frame e e'" and "en_stopFlag e \<Longrightarrow> en_stopFlag e'"
    and "i < nodes_of e \<Longrightarrow> flushed e i \<Longrightarrow> flushed e' i" and "i < nodes_of e \<Longrightarrow> latched e i k \<Longrightarrow> latched e' i k"
    and "i < nodes_of e \<Longrightarrow> i \<notin> X \<Longrightarrow> exec_step (exec_of e i) (exec_of e' i)"
    and "en_endOfStreamReached e \<Longrightarrow> en_endOfStreamReached e'"
    and "eos_calls e' = eos_calls e + of_bool (cb_endOfStream (en_callbacks e) \<and> en_endOfStreamReached e' \<and> \<not> en_endOfStreamReached e)"
    and "static_ok e \<Longrightarrow> tasks_ok d e \<Longrightarrow> tasks_ok d e'" and "static_ok e \<Longrightarrow> settled S e \<Longrightarrow> settled (S \<union> X) e'"
  using assms by (simp_all add: steady_def)

lemma steady_nodes: "steady X e e' \<Longrightarrow> nodes_of e' = nodes_of e"
  by (rule same_frame_nodes [OF steadyD(1)])

lemma steady_static: "steady X e e' \<Longrightarrow> static_ok e \<Longrightarrow> static_ok e'"
  by (rule static_frame [OF steadyD(1)])

lemma steady_trans:
  assumes "steady X e1 e2" and "steady Y e2 e3"
  shows "steady (X \<union> Y) e1 e3"
proof -
  note st1 = steadyD [OF assms(1)] and st2 = steadyD [OF assms(2)]
  have nodes: "nodes_of e2 = nodes_of e1" by (rule steady_nodes [OF assms(1)])
  have cb: "en_callbacks e2 = en_callbacks e1" using st1(1) by (simp add: same_frame_def)
  have exec: "exec_step (exec_of e1 i) (exec_of e3 i)" if "i < nodes_of e1" "i \<notin> X" "i \<notin> Y" for i
    using exec_step_trans [OF st1(5) [of i] st2(5) [of i]] that nodes by simp
  have settle: "settled (S \<union> (X \<union> Y)) e3" if "static_ok e1" "settled S e1" for S
    using st2(9) [OF steady_static [OF assms(1) that(1)] st1(9) [OF that]] by (simp add: Un_assoc)
  show ?thesis unfolding steady_def
    using same_frame_trans [OF st1(1) st2(1)] st1(2,3,4,6,7,8) st2(2,3,4,6,7,8) nodes cb exec settle steady_static [OF assms(1)] by auto
qed

lemma flows_trans: "flows e1 e2 \<Longrightarrow> flows e2 e3 \<Longrightarrow> flows e1 e3"
  by (simp add: flows_def)

lemma calm_trans: "calm X e1 e2 \<Longrightarrow> calm Y e2 e3 \<Longrightarrow> calm (X \<union> Y) e1 e3"
  unfolding calm_def using steady_trans flows_trans by blast

lemma calm_trans_empty [trans]: "calm {} e1 e2 \<Longrightarrow> calm {} e2 e3 \<Longrightarrow> calm {} e1 e3"
  using calm_trans [of "{}" e1 e2 "{}" e3] by simp

text \<open>An exempt node that ends up as it should be is not exempt any more.\<close>

lemma steady_close:
  assumes "steady X e e'" and "\<And>i. i \<in> X \<Longrightarrow> i < nodes_of e \<Longrightarrow> settled_at e' i \<and> exec_step (exec_of e i) (exec_of e' i)"
  shows "steady {} e e'"
proof -
  have "settled (S \<union> X) e' \<Longrightarrow> settled S e'" for S
    using assms(2) steady_nodes [OF assms(1)] by (auto simp: settled_def)
  moreover have "exec_step (exec_of e i) (exec_of e' i)" if "i < nodes_of e" for i
    using assms(2) [of i] steadyD(5) [OF assms(1) that] that by (cases "i \<in> X") simp_all
  ultimately show ?thesis using assms(1) by (simp add: steady_def)
qed

section \<open>Quiet steps\<close>

definition node_view :: "'v NodeState \<Rightarrow> NodeExecutionState \<times> 64 word \<times> bool \<times> bool list" where
  "node_view st = (nd_exec_state st, nd_eos_mask st, nd_eos_propagated st, map pq_empty (nd_queues st))"

definition quiet :: "('v, 'w) Engine \<Rightarrow> ('v, 'w) Engine \<Rightarrow> bool" where
  "quiet e e' \<longleftrightarrow> same_frame e e' \<and> en_pool e' = en_pool e \<and> en_activeTasks e' = en_activeTasks e \<and> en_stopFlag e' = en_stopFlag e \<and>
     en_endOfStreamReached e' = en_endOfStreamReached e \<and> en_sinksAtEos e' = en_sinksAtEos e \<and> eos_calls e' = eos_calls e \<and>
     map node_view (en_states e') = map node_view (en_states e)"

lemma quiet_refl [simp]: "quiet e e"
  by (simp add: quiet_def)

lemma quiet_trans [trans]: "quiet e1 e2 \<Longrightarrow> quiet e2 e3 \<Longrightarrow> quiet e1 e3"
  by (auto simp: quiet_def intro: same_frame_trans)

lemma drained_view:
  assumes "node_frame st' = node_frame st" and "node_view st' = node_view st"
  shows "allInputPortsDrained st' = allInputPortsDrained st"
proof -
  have ports: "nd_input_ports st' = nd_input_ports st" using assms(1) by (simp add: node_frame_def)
  have mask: "nd_eos_mask st' = nd_eos_mask st" and empty: "map pq_empty (nd_queues st') = map pq_empty (nd_queues st)"
    using assms(2) by (simp_all add: node_view_def)
  have len: "length (nd_queues st') = length (nd_queues st)" by (rule map_eq_imp_length_eq [OF empty])
  have "pq_empty (nd_queues st' ! k) = pq_empty (nd_queues st ! k)" if "k < length (nd_queues st)" for k
    using arg_cong [OF empty, of "\<lambda>bs. bs ! k"] that len by simp
  then have "portDrained st' k = portDrained st k" for k using mask len by (auto simp: portDrained_def portEosLatched_def)
  then show ?thesis using ports by (simp add: allInputPortsDrained_def list_all_iff)
qed

lemma quiet_node:
  assumes "quiet e e'" and "i < nodes_of e"
  shows "exec_of e' i = exec_of e i" and "flushed e' i = flushed e i" and "latched e' i k = latched e i k"
    and "allInputPortsDrained (en_states e' ! i) = allInputPortsDrained (en_states e ! i)"
proof -
  have frame: "same_frame e e'" and views: "map node_view (en_states e') = map node_view (en_states e)" using assms(1) by (simp_all add: quiet_def)
  have view: "node_view (en_states e' ! i) = node_view (en_states e ! i)"
    using arg_cong [OF views, of "\<lambda>vs. vs ! i"] assms(2) same_frame_nodes [OF frame] by simp
  then show "exec_of e' i = exec_of e i" "flushed e' i = flushed e i" "latched e' i k = latched e i k"
    by (simp_all add: node_view_def portEosLatched_def)
  show "allInputPortsDrained (en_states e' ! i) = allInputPortsDrained (en_states e ! i)"
    by (rule drained_view [OF same_frame_node [OF frame assms(2)] view])
qed

lemma quiet_tasks: "quiet e e' \<Longrightarrow> tasks_ok d e' = tasks_ok d e"
proof -
  assume q: "quiet e e'"
  then have "nodes_of e' = nodes_of e" using same_frame_nodes by (auto simp: quiet_def)
  then have "ready_nodes e' = ready_nodes e" using quiet_node(1) [OF q] by (auto simp: ready_nodes_def)
  then show ?thesis using q by (simp add: tasks_ok_def quiet_def same_frame_def)
qed

lemma quiet_settled: "quiet e e' \<Longrightarrow> settled S e' = settled S e"
proof -
  assume q: "quiet e e'"
  then have n: "nodes_of e' = nodes_of e" using same_frame_nodes by (auto simp: quiet_def)
  have "settled_at e' i = settled_at e i" if "i < nodes_of e" for i
    using quiet_node [OF q that] q by (simp add: settled_at_def quiet_def same_frame_def)
  then show ?thesis using n by (simp add: settled_def)
qed

lemma quiet_eos_ok: "quiet e e' \<Longrightarrow> eos_ok P e' = eos_ok P e"
proof -
  assume q: "quiet e e'"
  then have frame: "same_frame e e'" by (simp add: quiet_def)
  note n = same_frame_nodes [OF frame] and graph = same_frame_graph [OF frame]
  have "flushed_sinks e' = flushed_sinks e" using quiet_node(2) [OF q] n graph(1) by (auto simp: flushed_sinks_def)
  moreover have "closed_behind e' i = closed_behind e i" for i using quiet_node(3) [OF q] n graph by (auto simp: closed_behind_def)
  moreover have "(\<forall>i\<in>P. i < nodes_of e' \<and> flushed e' i) = (\<forall>i\<in>P. i < nodes_of e \<and> flushed e i)" using quiet_node(2) [OF q] n by auto
  moreover have "en_sinkCount e' = en_sinkCount e" using frame by (simp add: same_frame_def)
  ultimately show ?thesis using q n graph quiet_node(2) [OF q] unfolding eos_ok_def by (auto simp: quiet_def)
qed

lemma quiet_calm:
  assumes "quiet e e'"
  shows "calm {} e e'"
proof -
  have "same_frame e e'" "en_stopFlag e' = en_stopFlag e" "en_endOfStreamReached e' = en_endOfStreamReached e" "eos_calls e' = eos_calls e"
    using assms by (simp_all add: quiet_def)
  then have "steady {} e e'" unfolding steady_def using quiet_node(1,2,3) [OF assms] quiet_tasks [OF assms] quiet_settled [OF assms] by simp
  moreover have "flows e e'" using quiet_eos_ok [OF assms] by (simp add: flows_def)
  ultimately show ?thesis by (simp add: calm_def)
qed


lemma calm_refl [simp]: "calm {} e e"
  by (simp add: quiet_calm)

lemma quiet_nodes: "quiet e e' \<Longrightarrow> nodes_of e' = nodes_of e"
  by (simp add: quiet_def same_frame_nodes)

lemma calm_nodes: "calm X e e' \<Longrightarrow> nodes_of e' = nodes_of e"
  unfolding calm_def using steady_nodes by blast

lemma calm_static: "calm X e e' \<Longrightarrow> static_ok e \<Longrightarrow> static_ok e'"
  unfolding calm_def using steady_static by blast

lemma quiet_field [simp]:
  "quiet e (e \<lparr> en_world := w \<rparr>)" "quiet e (upd_stats f e)" "quiet e (e \<lparr> en_sync := y \<rparr>)" "quiet e (e \<lparr> en_results := r \<rparr>)"
  "quiet e (invokeErrorCallback m nm e)" "quiet e (invokeDropCallback nm fr re e)" "quiet e (invokeResultCallback r e)"
  "quiet e (recordQueueRejection nm port e)" "quiet e (on_queue_drop nm re data e)" "quiet e (collectResults H node outputs e)"
  "quiet e (snd (read_clock H e))" "quiet e (flush_failed m nm e)" "quiet e (checkCompletionAndNotify e)" "quiet e (e \<lparr> en_deferQueue := dq, en_deferRunning := b \<rparr>)"
  "quiet e (e \<lparr> en_deferQueue := dq \<rparr>)"
  by (auto simp: quiet_def same_frame_def eos_calls_def upd_stats_def invokeErrorCallback_def invokeDropCallback_def invokeResultCallback_def
      log_call_def recordQueueRejection_def on_queue_drop_def collectResults_def read_clock_def flush_failed_def checkCompletionAndNotify_def
      Let_def split: prod.splits)

lemma quiet_clock: "read_clock H e = (t, e') \<Longrightarrow> quiet e e'"
  using quiet_field(11) [of e H] by simp

lemma quiet_foldl: "(\<And>e x. quiet e (f e x)) \<Longrightarrow> quiet e (foldl f e xs)"
  by (induction xs arbitrary: e) (auto intro: quiet_trans)

text \<open>Fields of a node that are not part of the view.\<close>

lemma quiet_upd_node:
  assumes "\<And>st. node_frame (f st) = node_frame st" and "\<And>st. node_view (f st) = node_view st"
  shows "quiet e (upd_node i f e)"
  using assms by (simp add: quiet_def same_frame_def eos_calls_def upd_node_def map_list_update_same)

lemmas node_fields = node_frame_def node_view_def

lemma quiet_node_field [simp]:
  "quiet e (upd_node i (\<lambda>st. st \<lparr> nd_execution_count := nd_execution_count st + 1 \<rparr>) e)"
  "quiet e (upd_node i (\<lambda>st. st \<lparr> nd_last_execution_ticks := t \<rparr>) e)" "quiet e (upd_node i (\<lambda>st. st \<lparr> nd_defer_pending := b \<rparr>) e)"
  "quiet e (upd_node i (\<lambda>st. st \<lparr> nd_join_wait_since_ticks := t \<rparr>) e)" "quiet e (upd_node i (\<lambda>st. st \<lparr> nd_degrade_pending := b \<rparr>) e)"
  "quiet e (upd_node i (\<lambda>st. st \<lparr> nd_stats := g st \<rparr>) e)"
  by (rule quiet_upd_node; simp add: node_fields)+

lemma quiet_collect_sink [simp]: "quiet e (collect_sink H i outputs e)"
  by (auto simp: collect_sink_def intro: quiet_trans [OF quiet_field(2) quiet_field(10)])

lemma quiet_flush_node: "flush_node H i context e = (outputs, e') \<Longrightarrow> quiet e e'"
  by (auto simp: flush_node_def Let_def split: prod.splits attempt.splits intro: quiet_trans [OF quiet_field(1) quiet_field(12)])

lemma quiet_processNode: "processNode H node inputs context e = (r, e') \<Longrightarrow> quiet e e'"
  by (auto simp: processNode_def Let_def split: prod.splits attempt.splits intro: quiet_trans [OF quiet_field(1) quiet_field(5)])

lemma quiet_record_latency [simp]: "quiet e (record_latency t inputs e)"
  by (auto simp: record_latency_def Let_def split: option.splits prod.splits)

lemma quiet_mark_processed [simp]: "quiet e (mark_processed i inputs e)"
  by (auto simp: mark_processed_def split: option.splits)

lemma quiet_record_node_execution [simp]: "quiet e (record_node_execution i us inputs r e)"
  unfolding record_node_execution_def Let_def by (auto intro: quiet_trans [OF quiet_field(2) quiet_node_field(6)])

lemma quiet_scheduleDeferredRetry [simp]: "quiet e (scheduleDeferredRetry H i delay e)"
  unfolding scheduleDeferredRetry_def
  by (auto split: prod.splits dest!: quiet_clock intro: quiet_trans quiet_trans [OF quiet_node_field(3)])


section \<open>Stopping, queues and node states\<close>

lemma calm_stop [simp]: "calm {} e (stopExecutionAsync e)"
proof (cases "en_stopFlag e")
  case False
  let ?e = "stopExecutionAsync e"
  have e: "?e = e \<lparr> en_stopFlag := True, en_state := (if en_state e = EngineRUNNING then EngineSTOPPED else en_state e) \<rparr>"
    using False by (simp add: stopExecutionAsync_def)
  have "steady {} e ?e"
    unfolding e steady_def
    by (simp add: same_frame_def eos_calls_def tasks_ok_def ready_nodes_def settled_def settled_at_def)
  moreover have "flows e ?e"
    unfolding e flows_def eos_ok_def flushed_sinks_def closed_behind_def by (simp add: the_graph_def outEdges_def)
  ultimately show ?thesis by (simp add: calm_def)
qed (simp add: stopExecutionAsync_def quiet_calm)

lemma isStopRequested_cases:
  assumes "isStopRequested e = (b, e')"
  shows "calm {} e e' \<and> (if b then en_stopFlag e' else e' = e \<and> \<not> en_stopFlag e) \<and> en_states e' = en_states e"
  using assms calm_stop [of e] quiet_calm [OF quiet_refl [of e]]
  by (auto simp: isStopRequested_def stopExecutionAsync_def split: if_splits)

lemma portEosLatched_bit: "portEosLatched st k \<longleftrightarrow> k < k_max_eos_ports \<and> bit (nd_eos_mask st) k"
  by (simp add: portEosLatched_def bit_iff_and_push_bit_not_eq_0)

text \<open>Changing one node: the conditions that make it calm up to that node.\<close>

lemma upd_node_frame:
  assumes "node_frame (f (en_states e ! i)) = node_frame (en_states e ! i)"
  shows "same_frame e (upd_node i f e)"
  using assms by (simp add: same_frame_def upd_node_def map_list_update_same)

lemma upd_node_nth: "j < nodes_of e \<Longrightarrow> en_states (upd_node i f e) ! j = (if j = i then f (en_states e ! i) else en_states e ! j)"
  by (simp add: upd_node_def nth_list_update)

lemma upd_node_fields [simp]:
  "en_pool (upd_node i f e) = en_pool e" "en_stopFlag (upd_node i f e) = en_stopFlag e" "en_calls (upd_node i f e) = en_calls e"
  "en_sinksAtEos (upd_node i f e) = en_sinksAtEos e" "en_endOfStreamReached (upd_node i f e) = en_endOfStreamReached e"
  "en_activeTasks (upd_node i f e) = en_activeTasks e" "en_context (upd_node i f e) = en_context e" "nodes_of (upd_node i f e) = nodes_of e"
  "en_streamingMode (upd_node i f e) = en_streamingMode e" "en_worker (upd_node i f e) = en_worker e" "the_graph (upd_node i f e) = the_graph e"
  "outEdges k (upd_node i f e) = outEdges k e" "en_sinkCount (upd_node i f e) = en_sinkCount e" "en_scheduler (upd_node i f e) = en_scheduler e"
  by (simp_all add: upd_node_def the_graph_def outEdges_def)

lemma upd_node_steady:
  assumes "let st = en_states e ! i in node_frame (f st) = node_frame st \<and> (nd_eos_propagated st \<longrightarrow> nd_eos_propagated (f st)) \<and>
      (\<forall>k. portEosLatched st k \<longrightarrow> portEosLatched (f st) k) \<and> (nd_exec_state (f st) = READY \<longleftrightarrow> nd_exec_state st = READY)"
  shows "steady {i} e (upd_node i f e)"
proof -
  let ?e = "upd_node i f e"
  have frame: "same_frame e ?e" by (rule upd_node_frame) (use assms in \<open>simp add: Let_def\<close>)
  have node: "flushed e j \<Longrightarrow> flushed ?e j" "latched e j k \<Longrightarrow> latched ?e j k" "exec_of ?e j = READY \<longleftrightarrow> exec_of e j = READY"
    if "j < nodes_of e" for j k using that assms by (auto simp: upd_node_nth Let_def)
  have other: "en_states ?e ! j = en_states e ! j" if "j < nodes_of e" "j \<noteq> i" for j using that by (simp add: upd_node_nth)
  have "ready_nodes ?e = ready_nodes e" using node(3) by (auto simp: ready_nodes_def)
  then have tasks: "tasks_ok d ?e = tasks_ok d e" for d by (simp add: tasks_ok_def)
  have "settled_at ?e j = settled_at e j" if "j < nodes_of e" "j \<noteq> i" for j using other [OF that] by (simp add: settled_at_def)
  then have settle: "settled S e \<Longrightarrow> settled (S \<union> {i}) ?e" for S by (auto simp: settled_def)
  show ?thesis unfolding steady_def using frame node other tasks settle by (auto simp: eos_calls_def)
qed

lemma upd_node_calm:
  assumes "let st = en_states e ! i in node_frame (f st) = node_frame st \<and> nd_eos_propagated (f st) = nd_eos_propagated st \<and>
      (\<forall>k. portEosLatched st k \<longrightarrow> portEosLatched (f st) k) \<and> (nd_exec_state (f st) = READY \<longleftrightarrow> nd_exec_state st = READY)"
  shows "calm {i} e (upd_node i f e)"
proof -
  let ?e = "upd_node i f e"
  have node: "flushed ?e j = flushed e j" "latched e j k \<Longrightarrow> latched ?e j k" if "j < nodes_of e" for j k
    using that assms by (auto simp: upd_node_nth Let_def)
  have "flushed_sinks ?e = flushed_sinks e" using node(1) by (auto simp: flushed_sinks_def)
  moreover have "closed_behind e j \<Longrightarrow> closed_behind ?e j" for j using node(2) by (auto simp: closed_behind_def)
  ultimately have "flows e ?e" using node(1) by (auto simp: flows_def eos_ok_def)
  moreover have "steady {i} e ?e" by (rule upd_node_steady) (use assms in \<open>simp add: Let_def\<close>)
  ultimately show ?thesis by (simp add: calm_def)
qed

lemma calm_set_exec: "exec_of e i \<noteq> READY \<Longrightarrow> s \<noteq> READY \<Longrightarrow> calm {i} e (set_exec_state i s e)"
  unfolding set_exec_state_def by (rule upd_node_calm) (simp add: node_frame_def portEosLatched_def)

lemma calm_latch: "calm {i} e (upd_node i (\<lambda>st. st \<lparr> nd_eos_mask := nd_eos_mask st OR m \<rparr>) e)"
  by (rule upd_node_calm) (simp add: node_frame_def portEosLatched_bit bit_or_iff)

text \<open>A queue may get packets, but it does not get empty.\<close>

lemma calm_upd_queue:
  assumes "pq_cap q = pq_cap (queue_at i k e)"
    and "static_ok e \<Longrightarrow> i < nodes_of e \<Longrightarrow> k < length (nd_queues (en_states e ! i)) \<Longrightarrow> pq_empty q \<Longrightarrow> pq_empty (queue_at i k e)"
  shows "calm {} e (upd_queue i k q e)"
proof -
  let ?e = "upd_queue i k q e"
  have calm: "calm {i} e ?e"
    unfolding upd_queue_def
    by (rule upd_node_calm) (use assms(1) in \<open>simp add: node_frame_def portEosLatched_def map_list_update_same queue_at_def\<close>)
  have same: "exec_of ?e j = exec_of e j" "en_streamingMode ?e = en_streamingMode e" "en_stopFlag ?e = en_stopFlag e" "flushed ?e j = flushed e j" if "j < nodes_of e" for j
    using that by (auto simp: upd_queue_def upd_node_nth)
  have empty: "pq_empty (nd_queues (en_states e ! i) ! x)"
    if "pq_empty ((nd_queues (en_states e ! i))[k := q] ! x)" "x < length (nd_queues (en_states e ! i))" "i < nodes_of e" "static_ok e" for x
    using that assms(2) by (cases "x = k") (simp_all add: queue_at_def)
  have drained: "allInputPortsDrained (en_states e ! j)" if "allInputPortsDrained (en_states ?e ! j)" "j < nodes_of e" "static_ok e" for j
    using that empty by (auto simp: upd_queue_def upd_node_nth allInputPortsDrained_def list_all_iff portDrained_def portEosLatched_def split: if_splits)
  have settle: "settled S ?e" if "static_ok e" "settled S e" for S
    using that same drained steady_nodes [of "{i}" e ?e] calm unfolding settled_def settled_at_def calm_def by auto
  have "steady {} e ?e" using calm same settle unfolding calm_def steady_def by auto
  then show ?thesis using calm by (simp add: calm_def)
qed


lemma pq_push_facts:
  assumes "pq_push q x = (ok, gone, q')"
  shows "pq_cap q' = pq_cap q" and "0 < pq_cap q \<Longrightarrow> pq_empty q' \<Longrightarrow> pq_empty q \<and> \<not> ok"
proof -
  have window: "0 < pq_window q" if "0 < pq_cap q" using that by (auto simp: pq_window_def split: LockFreeDropPolicy.splits)
  show "pq_cap q' = pq_cap q" using assms by (auto simp: pq_push_def pq_tracked_def Let_def split: if_splits)
  show "0 < pq_cap q \<Longrightarrow> pq_empty q' \<Longrightarrow> pq_empty q \<and> \<not> ok"
    using assms window by (auto simp: pq_push_def pq_tracked_def pq_empty_def latest_def Let_def split: if_splits)
qed

lemma static_cap:
  assumes "static_ok e" and "i < nodes_of e" and "k < length (nd_queues (en_states e ! i))"
  shows "0 < pq_cap (queue_at i k e)"
proof -
  have "node_static i (en_states e ! i)" using assms(1,2) by (simp add: static_ok_def)
  then show ?thesis using assms(3) by (simp add: node_static_def queue_at_def)
qed

lemma calm_push_queue:
  assumes "push_queue i k data e = (ok, e')"
  shows "calm {} e e'"
proof -
  obtain gone q where p: "pq_push (queue_at i k e) data = (ok, gone, q)"
    using assms by (auto simp: push_queue_def Let_def split: prod.splits)
  have "calm {} e (upd_queue i k q e)"
    by (rule calm_upd_queue) (simp_all add: pq_push_facts [OF p] static_cap)
  moreover have "quiet (upd_queue i k q e) e'"
    using assms p by (auto simp: push_queue_def Let_def intro!: quiet_foldl)
  ultimately show ?thesis using calm_trans_empty quiet_calm by blast
qed

lemma calm_pushToQueue: "pushToQueue i port data e = (ok, e') \<Longrightarrow> calm {} e e'"
  by (auto simp: pushToQueue_def quiet_calm split: option.splits prod.splits bool.splits
      dest!: calm_push_queue intro: calm_trans_empty [OF _ quiet_calm [OF quiet_field(8)]])

section \<open>Tasks\<close>

text \<open>The pool after a submission: the same tasks, or one more for a node that was waiting.\<close>

lemma calm_pool_same:
  assumes "en_pool e = Some p"
    and "own_thread (en_worker e) p \<Longrightarrow> mset (pool_tasks p') = mset (pool_tasks p) \<and> length (tp_queues p') = length (tp_queues p)"
  shows "calm {} e (e \<lparr> en_world := w, en_pool := Some p' \<rparr>)"
proof -
  let ?e = "e \<lparr> en_world := w, en_pool := Some p' \<rparr>"
  have "ready_nodes ?e = ready_nodes e" by (simp add: ready_nodes_def)
  moreover have "own_thread (en_worker e) p'" "length (pool_tasks p') = length (pool_tasks p)" "mset (map fst (pool_tasks p')) = mset (map fst (pool_tasks p))"
    if "own_thread (en_worker e) p"
    using assms(2) [OF that] that mset_eq_length by (auto simp: mset_map own_thread_def)
  ultimately have tasks: "tasks_ok d e \<Longrightarrow> tasks_ok d ?e" for d using assms(1) by (simp add: tasks_ok_def)
  have "steady {} e ?e"
    unfolding steady_def using tasks by (simp add: same_frame_def eos_calls_def settled_def settled_at_def)
  moreover have "flows e ?e"
    unfolding flows_def eos_ok_def flushed_sinks_def closed_behind_def by (simp add: the_graph_def outEdges_def)
  ultimately show ?thesis by (simp add: calm_def)
qed

lemma calm_pool_more:
  assumes "en_pool e = Some p"
    and "own_thread (en_worker e) p \<Longrightarrow> mset (pool_tasks p') = add_mset t (mset (pool_tasks p)) \<and> length (tp_queues p') = length (tp_queues p)"
    and "i < nodes_of e" and "exec_of e i = WAITING" and "fst t = nd_index (en_states e ! i)"
  shows "calm {} e ((set_exec_state i READY e) \<lparr> en_activeTasks := en_activeTasks e + 1, en_world := w, en_pool := Some p' \<rparr>)"
proof -
  let ?e = "(set_exec_state i READY e) \<lparr> en_activeTasks := en_activeTasks e + 1, en_world := w, en_pool := Some p' \<rparr>"
  have states: "en_states ?e = (en_states e)[i := (en_states e ! i) \<lparr> nd_exec_state := READY \<rparr>]" by (simp add: set_exec_state_def upd_node_def)
  have node: "en_states ?e ! j = (if j = i then (en_states e ! i) \<lparr> nd_exec_state := READY \<rparr> else en_states e ! j)" if "j < nodes_of e" for j
    using that by (simp add: states nth_list_update)
  have n: "nodes_of ?e = nodes_of e" by (simp add: states)
  have kept: "flushed ?e j = flushed e j" "latched ?e j k = latched e j k" if "j < nodes_of e" for j k
    using node [OF that] by (auto simp: portEosLatched_def)
  have frame: "same_frame e ?e" by (simp add: same_frame_def states set_exec_state_def upd_node_def map_list_update_same node_frame_def)
  have ready: "ready_nodes ?e = insert i (ready_nodes e)" "i \<notin> ready_nodes e"
    using node n assms(3,4) by (auto simp: ready_nodes_def split: if_splits)
  have "tasks_ok d ?e" if "static_ok e" "tasks_ok d e" for d
  proof -
    have "nd_index (en_states e ! i) = i" using that(1) assms(3) by (simp add: static_ok_def node_static_def)
    moreover have "finite (ready_nodes e)" by (simp add: ready_nodes_def)
    moreover have own: "own_thread (en_worker e) p" using that(2) assms(1) by (simp add: tasks_ok_def)
    moreover have "own_thread (en_worker e) p'" using own assms(2) [OF own] by (auto simp: own_thread_def)
    moreover have "length (pool_tasks p') = Suc (length (pool_tasks p))" using assms(2) [OF own] by (metis size_add_mset size_mset)
    moreover have "en_worker ?e = en_worker e" by (simp add: set_exec_state_def)
    ultimately show ?thesis using that(2) assms(1,5) assms(2) [OF own] ready by (simp add: tasks_ok_def mset_map)
  qed
  moreover have "settled S ?e" if "settled S e" for S
    using that node n by (auto simp: settled_def settled_at_def set_exec_state_def)
  ultimately have "steady {} e ?e"
    unfolding steady_def using frame kept node assms(4) by (auto simp: eos_calls_def set_exec_state_def)
  moreover have "flows e ?e"
  proof -
    have "flushed_sinks ?e = flushed_sinks e" "the_graph ?e = the_graph e" using kept n same_frame_graph [OF frame] by (auto simp: flushed_sinks_def)
    moreover have "closed_behind ?e j = closed_behind e j" for j using kept n same_frame_graph [OF frame] by (auto simp: closed_behind_def)
    ultimately show ?thesis using kept n by (auto simp: flows_def eos_ok_def set_exec_state_def)
  qed
  ultimately show ?thesis by (simp add: calm_def)
qed


lemma exec_rollback:
  assumes "exec_of e i = WAITING"
  shows "(set_exec_state i WAITING ((set_exec_state i READY e) \<lparr> en_activeTasks := a, en_world := w, en_pool := p \<rparr>)) \<lparr> en_activeTasks := en_activeTasks e \<rparr> =
     e \<lparr> en_world := w, en_pool := p \<rparr>"
proof -
  have "(en_states e ! i) \<lparr> nd_exec_state := WAITING \<rparr> = en_states e ! i" using assms by simp
  then have "(en_states e)[i := (en_states e ! i) \<lparr> nd_exec_state := WAITING \<rparr>] = en_states e" by simp
  moreover have "i < nodes_of e \<Longrightarrow> (en_states e)[i := st] ! i = st" for st by simp
  moreover have "\<not> i < nodes_of e \<Longrightarrow> (en_states e)[i := st] = en_states e" for st by (simp add: list_update_beyond not_less)
  ultimately show ?thesis by (cases "i < nodes_of e") (simp_all add: set_exec_state_def upd_node_def)
qed

lemma calm_schedule:
  assumes "i < nodes_of e"
  shows "calm {} e (scheduleNodeExecution H i e)"
proof (cases "exec_of e i = WAITING")
  case False
  then show ?thesis by (simp add: scheduleNodeExecution_def quiet_calm)
next
  case True
  obtain now w where clock: "hk_now H (en_world e) = (now, w)" by fastforce
  define e1 where "e1 = (set_exec_state i READY e) \<lparr> en_activeTasks := en_activeTasks e + 1, en_world := w \<rparr>"
  define t where "t = (nd_index (en_states e ! i), en_context e, now)"
  have e1: "en_pool e1 = en_pool e" "en_worker e1 = en_worker e" "en_activeTasks e1 = en_activeTasks e + 1"
    by (simp_all add: e1_def set_exec_state_def)
  have run: "scheduleNodeExecution H i e = (case post_task H t e1 of (True, e) \<Rightarrow> e | (False, e) \<Rightarrow> finish_one (set_exec_state i WAITING e))"
    using True clock assms
    by (simp add: scheduleNodeExecution_def read_clock_def Let_def e1_def t_def set_exec_state_def upd_node_def)
  have rollback: "(set_exec_state i WAITING (e1 \<lparr> en_pool := p \<rparr>)) \<lparr> en_activeTasks := en_activeTasks e \<rparr> = e \<lparr> en_world := w, en_pool := p \<rparr>" for p
    using exec_rollback [OF True, where a = "en_activeTasks e + 1" and w = w and p = p] by (simp add: e1_def)
  have fin: "quiet (e \<lparr> en_world := w, en_pool := p \<rparr>) (finish_one (set_exec_state i WAITING (e1 \<lparr> en_pool := p \<rparr>)))" for p
    using rollback [of p] e1(3) by (simp add: finish_one_def set_exec_state_def)
  show ?thesis
  proof (cases "en_pool e")
    case None
    then have "post_task H t e1 = (False, e1 \<lparr> en_pool := None \<rparr>)" using e1(1) by (simp add: post_task_def)
    moreover have "e \<lparr> en_world := w, en_pool := None \<rparr> = e \<lparr> en_world := w \<rparr>" using None by simp
    ultimately show ?thesis using run fin [of None] by (simp add: quiet_calm quiet_trans [OF quiet_field(1)])
  next
    case (Some p)
    obtain ok p' where post: "post (hk_submit_rounds H) (en_worker e) t p = (ok, p')" by fastforce
    have pt: "post_task H t e1 = (ok, e1 \<lparr> en_pool := Some p' \<rparr>)" using post Some e1 by (simp add: post_task_def)
    have tasks: "mset (pool_tasks p') = (if ok then {#t#} else {#}) + mset (pool_tasks p) \<and> length (tp_queues p') = length (tp_queues p)"
      if "own_thread (en_worker e) p" by (rule post_tasks [OF that post])
    show ?thesis
    proof (cases ok)
      case ok: True
      have "scheduleNodeExecution H i e = (set_exec_state i READY e) \<lparr> en_activeTasks := en_activeTasks e + 1, en_world := w, en_pool := Some p' \<rparr>"
        using run pt ok by (simp add: e1_def)
      moreover have "calm {} e ((set_exec_state i READY e) \<lparr> en_activeTasks := en_activeTasks e + 1, en_world := w, en_pool := Some p' \<rparr>)"
        by (rule calm_pool_more [OF Some _ assms True, of p' t]) (use tasks ok in \<open>simp_all add: t_def\<close>)
      ultimately show ?thesis by simp
    next
      case refused: False
      have "calm {} e (e \<lparr> en_world := w, en_pool := Some p' \<rparr>)" by (rule calm_pool_same [OF Some]) (use tasks refused in simp)
      from calm_trans_empty [OF this quiet_calm [OF fin]] show ?thesis using run pt refused by simp
    qed
  qed
qed


section \<open>Gathering\<close>

lemma gather_update_calm:
  assumes "gather_update i e e'" and "exec_of e i = EXECUTING"
  shows "calm {} e e'"
proof -
  note fields = gather_update_fields [OF assms(1)] and node = gather_update_same [OF assms(1)] and n = gather_update_length [OF assms(1)]
  have other: "en_states e' ! j = en_states e ! j" if "j < nodes_of e" "j \<noteq> i" for j using assms(1) that by (simp add: gather_update_def)
  have "map node_frame (en_states e') = map node_frame (en_states e)"
    using n node(1,2,3,7,8) gather_update_node(3) [OF assms(1)] by (intro nth_equalityI) (simp_all add: node_frame_def)
  then have frame: "same_frame e e'" using fields by (simp add: same_frame_def)
  have latch: "latched e' j k = latched e j k" if "j < nodes_of e" for j k using node(5) [OF that] by (simp add: portEosLatched_def)
  have calls: "eos_calls e' = eos_calls e" using assms(1) by (simp add: eos_calls_def gather_update_def)
  have "ready_nodes e' = ready_nodes e" using n node(4) by (auto simp: ready_nodes_def)
  then have tasks: "tasks_ok d e' = tasks_ok d e" for d using fields by (simp add: tasks_ok_def)
  have "settled_at e' j" if "settled_at e j" "j < nodes_of e" for j
    using that assms(2) node(4,6) [OF that(2)] fields other [OF that(2)] by (cases "j = i") (auto simp: settled_at_def)
  then have settle: "settled S e \<Longrightarrow> settled S e'" for S using n by (auto simp: settled_def)
  have "steady {} e e'" unfolding steady_def using frame fields node(4,6) latch calls tasks settle by simp
  moreover have "flows e e'"
  proof -
    have "flushed_sinks e' = flushed_sinks e" using node(6) n same_frame_graph [OF frame] by (auto simp: flushed_sinks_def)
    moreover have "closed_behind e' j = closed_behind e j" for j using latch n same_frame_graph [OF frame] by (auto simp: closed_behind_def)
    ultimately show ?thesis using node(6) n fields same_frame_graph [OF frame] by (auto simp: flows_def eos_ok_def)
  qed
  ultimately show ?thesis by (simp add: calm_def)
qed

lemma degrade_heads_update: "degrade_heads i ks e = (heads, e') \<Longrightarrow> gather_update i e e'"
proof (induction ks arbitrary: e heads)
  case (Cons k ks)
  then show ?case
    by (auto simp: peekAlignmentHead_def split: prod.splits dest!: peek_loop_update intro: gather_update_trans)
qed simp

lemma degrade_loop_update: "degrade_loop H i pairs deliver hs delivered (inputs, e) = (ok, inputs', e') \<Longrightarrow> gather_update i e e'"
proof (induction hs arbitrary: delivered inputs e)
  case (Cons h hs)
  obtain k head where h: "h = (k, head)" by fastforce
  have step: "\<exists>d inputs1 e1. gather_update i e e1 \<and> degrade_loop H i pairs deliver hs d (inputs1, e1) = (ok, inputs', e')"
    using Cons.prems deliver_head_update [of H i k inputs e] dropStaleHead_update [of i e k]
    unfolding h by (auto simp: gather_stale_def split: option.splits if_splits prod.splits) (blast intro: gather_update_refl)+
  then show ?case using Cons.IH gather_update_trans by blast
qed simp

lemma degradeJoinGather_update: "degradeJoinGather H i (inputs, e) = (ok, inputs', e') \<Longrightarrow> gather_update i e e'"
  by (auto simp: degradeJoinGather_def Let_def split: prod.splits if_splits dest!: degrade_heads_update degrade_loop_update
      intro: gather_update_trans gather_update_trans [OF stats_gather_update(1)])

lemma plain_pop_update: "plain_pop H n i k e = (r, e') \<Longrightarrow> gather_update i e e'"
proof (induction n arbitrary: e)
  case 0
  then show ?case by (simp add: pop_queue_update)
next
  case (Suc n)
  obtain r1 e1 where p: "pop_queue i k e = (r1, e1)" by fastforce
  note up = pop_queue_update [OF p]
  have drop: "gather_update i e e'" if "plain_pop H n i k (recordSyncDrop nm fr re e1) = (r, e')" for nm fr re
    using gather_update_trans [OF up gather_update_trans [OF stats_gather_update(5) Suc.IH [OF that]]] .
  show ?case using Suc.prems p up drop gather_update_trans [OF up] by (auto split: option.splits if_splits)
qed

lemma plain_gather_update: "plain_gather H i ks b (inputs, e) = (ok, inputs', e') \<Longrightarrow> gather_update i e e'"
proof (induction ks arbitrary: b inputs e)
  case (Cons k ks)
  then show ?case by (auto split: if_splits option.splits prod.splits dest!: plain_pop_update intro: gather_update_trans)
qed simp

lemma calm_gather:
  assumes "gatherNodeInputs H i e = (ok, inputs, e')" and "static_ok e" and "i < nodes_of e" and "exec_of e i = EXECUTING"
  shows "calm {} e e'"
proof -
  obtain b e1 where take: "take_degrade i e = (b, e1)" by fastforce
  have quiet: "quiet e e1" using take by (auto simp: take_degrade_def split: if_splits)
  have ready: "node_ready i e1" "exec_of e1 i = EXECUTING"
  proof -
    have frame: "same_frame e e1" using quiet by (simp add: quiet_def)
    have "node_static i (en_states e1 ! i)" using static_frame [OF frame assms(2)] assms(3) same_frame_nodes [OF frame] by (simp add: static_ok_def)
    then show "node_ready i e1" "exec_of e1 i = EXECUTING"
      using assms(3,4) same_frame_nodes [OF frame] quiet_node(1) [OF quiet assms(3)] by (simp_all add: node_ready_def node_static_def)
  qed
  have aligned: "gather_update i e1 e2" if "runAlignedGather H i policy ([], e1) = (b, inputs2, e2)" "gather_policy e1 = Some policy" for policy b inputs2 e2
    using gather_returns [OF ready(1) gather_policy_ok [OF that(2)], of H] that(1) by (auto simp: gather_wf_def)
  have "gather_update i e e' \<or> gather_update i e1 e'"
  proof (cases "length (ports_of i e) \<le> 1")
    case True
    then show ?thesis using assms(1) by (auto simp: gatherNodeInputs_def Let_def dest: plain_gather_update)
  next
    case False
    show ?thesis
    proof (cases "gather_policy e1")
      case None
      then show ?thesis
        using assms(1) False take by (auto simp: gatherNodeInputs_def Let_def split: if_splits dest: plain_gather_update degradeJoinGather_update)
    next
      case (Some policy)
      obtain b2 inputs2 e2 where run: "runAlignedGather H i policy ([], e1) = (b2, inputs2, e2)" by (metis prod.exhaust)
      show ?thesis
        using assms(1) False take Some run aligned [OF run Some] gather_update_trans [OF aligned [OF run Some] degradeJoinGather_update]
        by (auto simp: gatherNodeInputs_def Let_def split: if_splits)
    qed
  qed
  then show ?thesis
    using gather_update_calm [of i e e'] gather_update_calm [of i e1 e'] assms(4) ready(2) calm_trans_empty [OF quiet_calm [OF quiet]] by blast
qed

end
