(* ===== verification/Engine_Streams.thy ===== *)
theory Engine_Streams
  imports Engine_Frames
begin

unbundle bit_operations_syntax

text \<open>
  The end-of-stream cascade and the task of a node, step by step calm.

  The locale \<open>eos_handler\<close> is what the scheduling and routing functions expect of the
  end-of-stream check they call: it is calm and leaves its node settled, as long as at most \<open>m\<close> nodes
  are still to be flushed.  Its lemmas carry this through \<open>tryScheduleNode\<close>, \<open>propagateOutputs\<close>
  and \<open>latchPortEos\<close>.  The check with fuel \<open>m + 1\<close> is such a handler, and so is
  \<open>checkNodeEndOfStream\<close> for every \<open>m\<close>.
\<close>

section \<open>Nodes still to be flushed\<close>

definition unflushed :: "('v, 'w) Engine \<Rightarrow> nat" where
  "unflushed e = card {i. i < nodes_of e \<and> \<not> flushed e i}"

lemma steady_unflushed:
  assumes "steady X e e'"
  shows "unflushed e' \<le> unflushed e"
  unfolding unflushed_def using steadyD(3) [OF assms] steady_nodes [OF assms] by (intro card_mono) auto

lemma unflushed_bound: "unflushed e \<le> nodes_of e"
proof -
  have "unflushed e \<le> card {..<nodes_of e}" unfolding unflushed_def by (intro card_mono) auto
  then show ?thesis by simp
qed

lemma calm_foldl:
  assumes "\<And>e x. x \<in> set xs \<Longrightarrow> unflushed e \<le> m \<Longrightarrow> calm {} e (f e x)" and "unflushed e \<le> m"
  shows "calm {} e (foldl f e xs)"
  using assms
proof (induction xs arbitrary: e)
  case Nil
  show ?case by (simp add: quiet_calm)
next
  case (Cons x xs)
  have step: "calm {} e (f e x)" using Cons.prems by simp
  then have "unflushed (f e x) \<le> m" using Cons.prems(2) steady_unflushed [of "{}" e "f e x"] by (simp add: calm_def)
  then show ?case using calm_trans_empty [OF step Cons.IH] Cons.prems(1) by simp
qed

section \<open>The contract of the end-of-stream check\<close>

locale eos_handler =
  fixes eos :: "('v, 'w) eos_check" and m :: nat
  assumes eos_calm: "i < nodes_of e \<Longrightarrow> unflushed e \<le> m \<Longrightarrow> calm {} e (snd (eos i context e))"
    and eos_settles: "i < nodes_of e \<Longrightarrow> unflushed e \<le> m \<Longrightarrow> settled_at (snd (eos i context e)) i"
begin

lemma try_calm:
  assumes "unflushed e \<le> m"
  shows "calm {} e (tryScheduleNode H eos i e)"
proof -
  obtain b e1 where stop: "isStopRequested e = (b, e1)" by fastforce
  note s = isStopRequested_cases [OF stop]
  show ?thesis
  proof (cases "b \<or> \<not> i < nodes_of e")
    case True
    then show ?thesis using s stop by (auto simp: tryScheduleNode_def stateByIndex_def split: bool.splits)
  next
    case False
    obtain now e2 where clock: "read_clock H e = (now, e2)" by fastforce
    have q: "quiet e e2" by (rule quiet_clock [OF clock])
    then have i2: "i < nodes_of e2" using False quiet_nodes [OF q] by simp
    have "calm {} e (scheduleNodeExecution H i e2)" "calm {} e (scheduleDeferredRetry H i d e2)" "calm {} e e2" for d
      using calm_trans_empty [OF quiet_calm [OF q] calm_schedule [OF i2]] quiet_calm [OF quiet_trans [OF q quiet_scheduleDeferredRetry]] quiet_calm [OF q]
      by auto
    then show ?thesis
      using s stop False clock eos_calm [of i e] assms
      by (auto simp: tryScheduleNode_def stateByIndex_def Let_def quiet_calm split: bool.splits ScheduleDecision.splits)
  qed
qed

lemma route_calm:
  assumes "unflushed e \<le> m"
  shows "calm {} e (route_output H eos outputs edge e)"
proof -
  have pushed: "calm {} e (recordQueueRejection nm port e1)" "calm {} e (tryScheduleNode H eos i e1)"
    if "push_queue i k data e = (ok, e1)" for i k data ok e1 nm port
  proof -
    note c = calm_push_queue [OF that]
    have "unflushed e1 \<le> m" using assms steady_unflushed c unfolding calm_def by (meson le_trans)
    then show "calm {} e (recordQueueRejection nm port e1)" "calm {} e (tryScheduleNode H eos i e1)"
      using calm_trans_empty [OF c try_calm] calm_trans_empty [OF c quiet_calm [OF quiet_field(8)]] by auto
  qed
  then show ?thesis by (auto simp: route_output_def quiet_calm split: option.splits prod.splits bool.splits)
qed

lemma propagate_calm: "unflushed e \<le> m \<Longrightarrow> calm {} e (propagateOutputs H eos i outputs e)"
  unfolding propagateOutputs_def by (auto intro!: calm_foldl route_calm)

lemma latch_calm:
  assumes "i < nodes_of e" and "unflushed e \<le> m"
  shows "calm {} e (latchPortEos eos i k context e)" and "k < k_max_eos_ports \<Longrightarrow> latched (latchPortEos eos i k context e) i k"
proof -
  define e1 where "e1 = upd_node i (\<lambda>st. st \<lparr> nd_eos_mask := nd_eos_mask st OR push_bit k 1 \<rparr>) e"
  have e1: "calm {i} e e1" unfolding e1_def by (rule calm_latch)
  have n: "i < nodes_of e1" "unflushed e1 \<le> m"
    using assms e1 steady_nodes [of "{i}" e e1] steady_unflushed [of "{i}" e e1] unfolding calm_def by auto
  have e2: "calm {} e1 (snd (eos i context e1))" "settled_at (snd (eos i context e1)) i" using eos_calm [OF n] eos_settles [OF n] by auto
  have exec: "exec_of e1 i = exec_of e i" using assms(1) by (simp add: e1_def upd_node_nth)
  have both: "calm {i} e (snd (eos i context e1))" using calm_trans [OF e1 e2(1)] by simp
  have "steady {} e (snd (eos i context e1))"
    using both unfolding calm_def
    by (rule steady_close [OF conjunct1]) (use e2 exec steadyD(5) [of "{}" e1 "snd (eos i context e1)" i] n in \<open>auto simp: calm_def\<close>)
  then have "calm {} e (snd (eos i context e1))" using both by (simp add: calm_def)
  moreover have run: "latchPortEos eos i k context e = (if k \<ge> k_max_eos_ports then e else snd (eos i context e1))"
    by (simp only: latchPortEos_def e1_def)
  ultimately show "calm {} e (latchPortEos eos i k context e)" by simp
  assume k: "k < k_max_eos_ports"
  then have "latched e1 i k" using assms(1) by (simp add: e1_def upd_node_nth portEosLatched_bit bit_or_iff bit_exp_iff possible_bit_word k_max_eos_ports_def)
  then have "latched (snd (eos i context e1)) i k" using steadyD(4) e2(1) n(1) unfolding calm_def by blast
  then show "latched (latchPortEos eos i k context e) i k" using k run by simp
qed

lemma latch_edge_calm:
  assumes "unflushed e \<le> m"
  shows "calm {} e (latch_edge eos context e edge)"
    and "oe_dest_node edge < nodes_of e \<Longrightarrow> oe_dest_port_index edge < k_max_eos_ports \<Longrightarrow>
      latched (latch_edge eos context e edge) (oe_dest_node edge) (oe_dest_port_index edge)"
  using latch_calm [OF _ assms] by (simp_all add: latch_edge_def)

lemma cascade_calm: "unflushed e \<le> m \<Longrightarrow> calm {} e (foldl (latch_edge eos context) e edges)"
  by (intro calm_foldl [of _ m] latch_edge_calm(1))

lemma cascade_latches:
  assumes "unflushed e \<le> m" and "edge \<in> set edges" and "oe_dest_node edge < nodes_of e" and "oe_dest_port_index edge < k_max_eos_ports"
  shows "latched (foldl (latch_edge eos context) e edges) (oe_dest_node edge) (oe_dest_port_index edge)"
  using assms
proof (induction edges arbitrary: e)
  case (Cons x edges)
  let ?e = "latch_edge eos context e x"
  have c: "calm {} e ?e" by (rule latch_edge_calm(1) [OF Cons.prems(1)])
  then have n: "nodes_of ?e = nodes_of e" and u: "unflushed ?e \<le> m"
    using calm_nodes [OF c] steady_unflushed [of "{}" e ?e] Cons.prems(1) by (simp_all add: calm_def)
  have rest: "steady {} ?e (foldl (latch_edge eos context) ?e edges)" using cascade_calm [OF u] by (simp add: calm_def)
  show ?case
  proof (cases "edge = x")
    case True
    then show ?thesis using steadyD(4) [OF rest] latch_edge_calm(2) [OF Cons.prems(1)] Cons.prems(3,4) n by simp
  next
    case False
    then show ?thesis using Cons.IH [OF u] Cons.prems(2-4) n by simp
  qed
qed simp

end

section \<open>Flushing a node\<close>

definition mark_flushed :: "nat \<Rightarrow> ('v, 'w) Engine \<Rightarrow> ('v, 'w) Engine" where
  "mark_flushed i e = upd_node i (\<lambda>st. st \<lparr> nd_exec_state := EXECUTING, nd_eos_propagated := True \<rparr>) e"

lemma mark_flushed:
  assumes "i < nodes_of e" and "\<not> flushed e i" and "exec_of e i \<in> {WAITING, COMPLETED}"
  shows "steady {i} e (mark_flushed i e)" and "eos_ok P e \<Longrightarrow> i \<notin> P \<and> eos_ok (insert i P) (mark_flushed i e)"
    and "unflushed (mark_flushed i e) < unflushed e" and "exec_of (mark_flushed i e) i = EXECUTING"
proof -
  let ?e = "mark_flushed i e"
  have node: "en_states ?e ! j = (if j = i then (en_states e ! i) \<lparr> nd_exec_state := EXECUTING, nd_eos_propagated := True \<rparr> else en_states e ! j)"
    if "j < nodes_of e" for j using that by (simp add: mark_flushed_def upd_node_nth)
  have n: "nodes_of ?e = nodes_of e" "the_graph ?e = the_graph e" "outEdges j ?e = outEdges j e" "en_sinksAtEos ?e = en_sinksAtEos e"
    "en_endOfStreamReached ?e = en_endOfStreamReached e" "en_sinkCount ?e = en_sinkCount e" for j by (simp_all add: mark_flushed_def)
  show "steady {i} e ?e"
    unfolding mark_flushed_def by (rule upd_node_steady) (use assms(3) in \<open>auto simp: node_frame_def portEosLatched_def\<close>)
  show "exec_of ?e i = EXECUTING" using node [OF assms(1)] by simp
  have "{j. j < nodes_of e \<and> \<not> flushed ?e j} = {j. j < nodes_of e \<and> \<not> flushed e j} - {i}" using node by (auto split: if_splits)
  then show "unflushed ?e < unflushed e" unfolding unflushed_def n(1) by (intro psubset_card_mono) (use assms(1,2) in auto)
  assume ok: "eos_ok P e"
  then have i: "i \<notin> P" using assms(2) by (auto simp: eos_ok_def)
  have "P \<subseteq> {..<nodes_of e}" using ok by (auto simp: eos_ok_def)
  then have fin: "finite {j \<in> P. isSink (the_graph e) j}" using finite_subset by (metis (no_types, lifting) finite_lessThan mem_Collect_eq subsetI subset_iff)
  have sinks: "flushed_sinks ?e = (if isSink (the_graph e) i then insert i (flushed_sinks e) else flushed_sinks e)"
    using node n assms(1) by (auto simp: flushed_sinks_def split: if_splits)
  have "i \<notin> flushed_sinks e" "finite (flushed_sinks e)" using assms(2) by (simp_all add: flushed_sinks_def)
  moreover have "{j \<in> insert i P. isSink (the_graph e) j} = (if isSink (the_graph e) i then insert i {j \<in> P. isSink (the_graph e) j} else {j \<in> P. isSink (the_graph e) j})"
    by auto
  ultimately have count: "en_sinksAtEos e + card {j \<in> insert i P. isSink (the_graph e) j} = card (flushed_sinks ?e)"
    using ok i fin sinks by (simp add: eos_ok_def)
  have latch: "latched ?e j k = latched e j k" if "j < nodes_of e" for j k using node [OF that] by (simp add: portEosLatched_def)
  then have "closed_behind ?e j = closed_behind e j" for j using n by (auto simp: closed_behind_def)
  then show "i \<notin> P \<and> eos_ok (insert i P) ?e"
    using ok i count n node assms(1) by (auto simp: eos_ok_def split: if_splits)
qed

lemma flush_done:
  assumes "eos_ok (insert i P) e" and "i \<notin> P" and "closed_behind e i"
  shows "eos_ok P (if isSink (the_graph e) i then recordSinkEndOfStream e else e)"
proof -
  let ?e = "if isSink (the_graph e) i then recordSinkEndOfStream e else e"
  have states: "en_states ?e = en_states e" "the_graph ?e = the_graph e" "outEdges j ?e = outEdges j e" "en_sinkCount ?e = en_sinkCount e"
    "en_sinksAtEos ?e = en_sinksAtEos e + of_bool (isSink (the_graph e) i)" for j
    by (simp_all add: recordSinkEndOfStream_def invokeEndOfStreamCallback_def log_call_def the_graph_def outEdges_def Let_def)
  have reached: "en_endOfStreamReached ?e = (en_sinkCount ?e \<noteq> 0 \<and> en_sinkCount ?e \<le> en_sinksAtEos ?e)"
    using assms(1) by (auto simp: eos_ok_def recordSinkEndOfStream_def invokeEndOfStreamCallback_def log_call_def Let_def)
  have "P \<subseteq> {..<nodes_of e}" using assms(1) by (auto simp: eos_ok_def)
  then have fin: "finite {j \<in> P. isSink (the_graph e) j}" using finite_subset by (metis (no_types, lifting) finite_lessThan mem_Collect_eq subsetI subset_iff)
  have "{j \<in> insert i P. isSink (the_graph e) j} = (if isSink (the_graph e) i then insert i {j \<in> P. isSink (the_graph e) j} else {j \<in> P. isSink (the_graph e) j})"
    by auto
  then have "en_sinksAtEos ?e + card {j \<in> P. isSink (the_graph e) j} = card (flushed_sinks e)"
    using assms(1,2) fin states(5) by (cases "isSink (the_graph e) i") (simp_all add: eos_ok_def)
  moreover have "flushed_sinks ?e = flushed_sinks e" using states by (simp add: flushed_sinks_def)
  moreover have "closed_behind ?e j = closed_behind e j" for j using states by (simp add: closed_behind_def)
  ultimately show ?thesis using assms reached states(1,2) unfolding eos_ok_def by auto
qed

lemma steady_record: "steady {} e (recordSinkEndOfStream e)"
proof -
  let ?e = "recordSinkEndOfStream e"
  have "en_states ?e = en_states e" "en_stopFlag ?e = en_stopFlag e" "same_frame e ?e" "en_pool ?e = en_pool e" "en_activeTasks ?e = en_activeTasks e"
    by (simp_all add: recordSinkEndOfStream_def invokeEndOfStreamCallback_def log_call_def same_frame_def Let_def)
  moreover have "eos_calls ?e = eos_calls e + of_bool (cb_endOfStream (en_callbacks e) \<and> en_endOfStreamReached ?e \<and> \<not> en_endOfStreamReached e)"
    "en_endOfStreamReached e \<Longrightarrow> en_endOfStreamReached ?e"
    by (auto simp: recordSinkEndOfStream_def invokeEndOfStreamCallback_def log_call_def eos_calls_def Let_def)
  ultimately show ?thesis
    unfolding steady_def by (simp add: tasks_ok_def ready_nodes_def settled_def settled_at_def same_frame_def)
qed

text \<open>One flush, for a check whose nested checks satisfy the contract for one node less.\<close>

lemma check_eos_due:
  assumes due: "eos_due i e" and i: "i < nodes_of e" and nested: "eos_handler (check_eos H n) m" and m: "unflushed e \<le> Suc m"
  shows "calm {} e (snd (check_eos H (Suc n) i context e)) \<and> settled_at (snd (check_eos H (Suc n) i context e)) i"
proof -
  have exec: "exec_of e i \<in> {WAITING, COMPLETED}" and new: "\<not> flushed e i" using due by (auto simp: eos_due_def)
  note mark = mark_flushed [OF i new exec]
  define e1 where "e1 = mark_flushed i e"
  obtain outputs e2 where flush: "flush_node H i context e1 = (outputs, e2)" by fastforce
  define e3 where "e3 = (if outputs = [] then e2 else propagateOutputs H (check_eos H n) i outputs (collect_sink H i outputs e2))"
  define e4 where "e4 = set_exec_state i COMPLETED e3"
  define e5 where "e5 = foldl (latch_edge (check_eos H n) context) e4 (outEdges i e4)"
  define e6 where "e6 = (if isSink (the_graph e5) i then recordSinkEndOfStream e5 else e5)"
  have run: "snd (check_eos H (Suc n) i context e) = e6"
    using due flush by (simp add: check_eos.simps eos_body_def mark_flushed_def [symmetric] e1_def [symmetric] e3_def e4_def e5_def e6_def Let_def)
  have n1: "nodes_of e1 = nodes_of e" and u1: "unflushed e1 \<le> m" and x1: "exec_of e1 i = EXECUTING"
    using mark m steady_nodes [OF mark(1)] by (auto simp: e1_def)
  have q2: "quiet e1 e2" by (rule quiet_flush_node [OF flush])
  have c2: "calm {} e1 (collect_sink H i outputs e2)" by (rule quiet_calm [OF quiet_trans [OF q2 quiet_collect_sink]])
  have "unflushed (collect_sink H i outputs e2) \<le> m" using steady_unflushed [of "{}" e1] c2 u1 by (meson calm_def le_trans)
  then have c3: "calm {} e1 e3"
    unfolding e3_def using calm_trans_empty [OF c2 eos_handler.propagate_calm [OF nested]] quiet_calm [OF q2] by simp
  have x3: "exec_of e3 i = EXECUTING" using c3 x1 steadyD(5) [of "{}" e1 e3 i] n1 i by (simp add: calm_def)
  have c4: "calm {i} e3 e4" unfolding e4_def by (rule calm_set_exec) (simp_all add: x3)
  have n4: "nodes_of e4 = nodes_of e" using calm_nodes [OF c4] calm_nodes [OF c3] n1 by simp
  have c14: "calm {i} e1 e4" using calm_trans [OF c3 c4] by simp
  then have u4: "unflushed e4 \<le> m" using u1 steady_unflushed [of "{i}" e1 e4] by (simp add: calm_def)
  have x4: "exec_of e4 i = COMPLETED" using i calm_nodes [OF c3] n1 by (simp add: e4_def set_exec_state_def upd_node_nth)
  have c5: "calm {} e4 e5" unfolding e5_def by (rule eos_handler.cascade_calm [OF nested u4])
  have frame5: "same_frame e4 e5" using c5 steadyD(1) unfolding calm_def by blast
  have closed: "closed_behind e5 i"
    using eos_handler.cascade_latches [OF nested u4, of _ "outEdges i e4" "context"] same_frame_graph(2) [OF frame5] same_frame_nodes [OF frame5]
    by (simp add: closed_behind_def e5_def [symmetric])
  have s6: "steady {} e5 e6" unfolding e6_def using steady_record [of e5] calm_refl [of e5] by (simp add: calm_def)
  have x6: "exec_of e6 i = COMPLETED"
    using c5 s6 x4 i n4 steadyD(5) [of "{}" e4 e5 i] steadyD(5) [OF s6, of i] same_frame_nodes [OF frame5] by (simp add: calm_def)
  have s14: "steady {i} e1 e4" and s45: "steady {} e4 e5" using c14 c5 by (simp_all add: calm_def)
  have s16: "steady {i} e e6"
    using steady_trans [OF mark(1) [folded e1_def] steady_trans [OF steady_trans [OF s14 s45] s6]] by simp
  have f6: "flushed e6 i"
  proof -
    have "flushed e1 i" using i by (simp add: e1_def mark_flushed_def upd_node_nth)
    then show ?thesis using steadyD(3) [OF steady_trans [OF steady_trans [OF s14 s45] s6]] i n1 by simp
  qed
  have "steady {} e e6" by (rule steady_close [OF s16]) (use f6 x6 exec in \<open>auto simp: settled_at_def\<close>)
  moreover have "flows e e6"
    unfolding flows_def
  proof (intro allI impI)
    fix P assume ok: "eos_ok P e"
    then have "eos_ok (insert i P) e5" "i \<notin> P"
      using mark(2) c14 c5 by (auto simp: calm_def flows_def e1_def)
    then show "eos_ok P e6" unfolding e6_def using flush_done closed by blast
  qed
  ultimately show ?thesis using f6 by (simp add: run calm_def settled_at_def)
qed

lemma check_eos_handler: "eos_handler (check_eos H (Suc m)) m"
proof (induction m)
  case 0
  show ?case
  proof
    fix i ctx and e :: "('a, 'b) Engine"
    assume i: "i < nodes_of e" and u: "unflushed e \<le> 0"
    have "finite {j. j < nodes_of e \<and> \<not> flushed e j}" by simp
    then have "flushed e i" using i u unfolding unflushed_def by (metis (mono_tags, lifting) card_eq_0_iff empty_Collect_eq le_zero_eq)
    then show "calm {} e (snd (check_eos H (Suc 0) i ctx e))" "settled_at (snd (check_eos H (Suc 0) i ctx e)) i"
      by (simp_all add: check_eos.simps eos_body_def eos_due_def settled_at_def)
  qed
next
  case (Suc m)
  show ?case
  proof
    fix i ctx and e :: "('a, 'b) Engine"
    assume i: "i < nodes_of e" and u: "unflushed e \<le> Suc m"
    have "calm {} e (snd (check_eos H (Suc (Suc m)) i ctx e)) \<and> settled_at (snd (check_eos H (Suc (Suc m)) i ctx e)) i"
    proof (cases "eos_due i e")
      case True
      show ?thesis by (rule check_eos_due [OF True i Suc.IH u])
    next
      case False
      then show ?thesis by (auto simp: check_eos.simps eos_body_def settled_at_def eos_due_def)
    qed
    then show "calm {} e (snd (check_eos H (Suc (Suc m)) i ctx e))" "settled_at (snd (check_eos H (Suc (Suc m)) i ctx e)) i" by auto
  qed
qed

interpretation bounded_check: eos_handler "check_eos H (Suc m)" m for H m
  by (rule check_eos_handler)

interpretation node_check: eos_handler "checkNodeEndOfStream H" m for H m
proof
  fix i ctx and e :: "('a, 'b) Engine"
  assume "i < nodes_of e"
  then show "calm {} e (snd (checkNodeEndOfStream H i ctx e))" "settled_at (snd (checkNodeEndOfStream H i ctx e)) i"
    unfolding checkNodeEndOfStream_def using bounded_check.eos_calm bounded_check.eos_settles unflushed_bound by blast+
qed

section \<open>The fuel of the check\<close>

text \<open>Two checks that agree while at most \<open>m\<close> nodes are left give the same scheduling, routing and cascade.\<close>

lemma foldl_agree:
  assumes "\<And>e x. unflushed e \<le> m \<Longrightarrow> f' e x = f e x" and "\<And>e x. unflushed e \<le> m \<Longrightarrow> calm {} e (f e x)" and "unflushed e \<le> m"
  shows "foldl f' e xs = foldl f e xs"
  using assms(3)
proof (induction xs arbitrary: e)
  case (Cons x xs)
  have "unflushed (f e x) \<le> m" using assms(2) [OF Cons.prems] Cons.prems steady_unflushed [of "{}" e "f e x"] by (simp add: calm_def)
  then show ?case using Cons.IH assms(1) [OF Cons.prems] by simp
qed simp

context eos_handler
begin

lemma try_agree:
  assumes "\<And>i ctx e. i < nodes_of e \<Longrightarrow> unflushed e \<le> m \<Longrightarrow> eos' i ctx e = eos i ctx e" and "unflushed e \<le> m"
  shows "tryScheduleNode H eos' i e = tryScheduleNode H eos i e"
proof -
  obtain b e1 where stop: "isStopRequested e = (b, e1)" by fastforce
  then show ?thesis
    using isStopRequested_cases [OF stop] assms by (cases b) (auto simp: tryScheduleNode_def stateByIndex_def)
qed

lemma propagate_agree:
  assumes "\<And>i ctx e. i < nodes_of e \<Longrightarrow> unflushed e \<le> m \<Longrightarrow> eos' i ctx e = eos i ctx e" and "unflushed e \<le> m"
  shows "propagateOutputs H eos' i outputs e = propagateOutputs H eos i outputs e"
proof -
  have "route_output H eos' outputs edge e = route_output H eos outputs edge e" if "unflushed e \<le> m" for edge e
  proof -
    have "tryScheduleNode H eos' j e1 = tryScheduleNode H eos j e1" if "push_queue j k data e = (ok, e1)" for j k data ok e1
      using try_agree [OF assms(1)] calm_push_queue [OF that] steady_unflushed [of "{}" e e1] \<open>unflushed e \<le> m\<close> by (simp add: calm_def)
    then show ?thesis by (auto simp: route_output_def split: option.splits prod.splits bool.splits)
  qed
  then have "foldl (\<lambda>e edge. route_output H eos' outputs edge e) e edges = foldl (\<lambda>e edge. route_output H eos outputs edge e) e edges" for edges
    by (rule foldl_agree [OF _ route_calm assms(2)])
  then show ?thesis by (simp add: propagateOutputs_def)
qed

lemma cascade_agree:
  assumes "\<And>i ctx e. i < nodes_of e \<Longrightarrow> unflushed e \<le> m \<Longrightarrow> eos' i ctx e = eos i ctx e" and "unflushed e \<le> m"
  shows "foldl (latch_edge eos' ctx) e edges = foldl (latch_edge eos ctx) e edges"
proof (rule foldl_agree [OF _ latch_edge_calm(1) assms(2)])
  fix e :: "('v, 'w) Engine" and edge
  assume u: "unflushed e \<le> m"
  have "latchPortEos eos' i k ctx e = latchPortEos eos i k ctx e" if "i < nodes_of e" for i k
  proof -
    let ?e = "upd_node i (\<lambda>st. st \<lparr> nd_eos_mask := nd_eos_mask st OR push_bit k 1 \<rparr>) e"
    have "unflushed ?e \<le> m" using calm_latch [of i e "push_bit k 1"] steady_unflushed [of "{i}" e ?e] u by (simp add: calm_def)
    then have "eos' i ctx ?e = eos i ctx ?e" using assms(1) that by simp
    then show ?thesis by (simp add: latchPortEos_def)
  qed
  then show "latch_edge eos' ctx e edge = latch_edge eos ctx e edge" by (simp add: latch_edge_def)
qed

end

lemma body_agree:
  assumes "eos_handler eos m" and "\<And>i ctx e. i < nodes_of e \<Longrightarrow> unflushed e \<le> m \<Longrightarrow> eos' i ctx e = eos i ctx e"
    and "i < nodes_of e" and "unflushed e \<le> Suc m"
  shows "eos_body H eos' i ctx e = eos_body H eos i ctx e"
proof (cases "eos_due i e")
  case True
  then have exec: "exec_of e i \<in> {WAITING, COMPLETED}" and new: "\<not> flushed e i" by (auto simp: eos_due_def)
  note mark = mark_flushed [OF assms(3) new exec]
  define e1 where "e1 = mark_flushed i e"
  obtain outputs e2 where flush: "flush_node H i ctx e1 = (outputs, e2)" by fastforce
  have u1: "unflushed e1 \<le> m" using mark(3) assms(4) by (simp add: e1_def)
  let ?e2 = "collect_sink H i outputs e2"
  have c2: "calm {} e1 e2" "calm {} e1 ?e2"
    using quiet_calm [OF quiet_flush_node [OF flush]] quiet_calm [OF quiet_trans [OF quiet_flush_node [OF flush] quiet_collect_sink]] by auto
  then have u2: "unflushed ?e2 \<le> m" using u1 steady_unflushed [of "{}" e1] by (meson calm_def le_trans)
  define e3 where "e3 = (if outputs = [] then e2 else propagateOutputs H eos i outputs ?e2)"
  have e3: "(if outputs = [] then e2 else propagateOutputs H eos' i outputs ?e2) = e3"
    using eos_handler.propagate_agree [OF assms(1,2) u2] by (simp add: e3_def)
  have c3: "calm {} e1 e3" unfolding e3_def using c2 calm_trans_empty [OF c2(2) eos_handler.propagate_calm [OF assms(1) u2]] by simp
  then have u3: "unflushed e3 \<le> m" using u1 steady_unflushed [of "{}" e1 e3] by (simp add: calm_def)
  have x3: "exec_of e3 i \<noteq> READY"
    using c3 steadyD(5) [of "{}" e1 e3 i] mark(4) steady_nodes [OF mark(1)] assms(3) by (simp add: calm_def e1_def)
  let ?e4 = "set_exec_state i COMPLETED e3"
  have u4: "unflushed ?e4 \<le> m" using calm_set_exec [OF x3, of COMPLETED] steady_unflushed [of "{i}" e3 ?e4] u3 by (simp add: calm_def)
  have cascade: "foldl (latch_edge eos' ctx) ?e4 edges = foldl (latch_edge eos ctx) ?e4 edges" for edges
    by (rule eos_handler.cascade_agree [OF assms(1,2) u4])
  show ?thesis
    using True flush e3 cascade by (simp add: eos_body_def mark_flushed_def [symmetric] e1_def [symmetric] e3_def [symmetric] Let_def)
qed (simp add: eos_body_def)

lemma check_eos_fuel:
  assumes "i < nodes_of e" and "unflushed e \<le> m"
  shows "check_eos H (Suc (m + k)) i ctx e = check_eos H (Suc m) i ctx e"
  using assms
proof (induction m arbitrary: i ctx e)
  case 0
  then have "\<not> eos_due i e" by (auto simp: unflushed_def eos_due_def card_eq_0_iff)
  then show ?case by (simp add: check_eos.simps eos_body_def)
next
  case (Suc m)
  show ?case using body_agree [OF check_eos_handler Suc.IH Suc.prems] by (simp add: check_eos.simps(2) [of H "Suc (m + k)"] check_eos.simps(2) [of H "Suc m"])
qed

section \<open>Termination\<close>

text \<open>
  C33. The recursion of \<open>checkNodeEndOfStream\<close> through routing, scheduling and latching
  ends.  The function of the model satisfies the equation of the source, in which every
  nested check is the same function again, and any larger bound on the depth gives the
  same result: a nested check that does anything has one node less to flush.
\<close>

theorem eos_recursion:
  assumes "i < length (en_states e)"
  shows "checkNodeEndOfStream H i ctx e = eos_body H (checkNodeEndOfStream H) i ctx e \<and>
     check_eos H (Suc (length (en_states e) + extra)) i ctx e = checkNodeEndOfStream H i ctx e"
proof -
  have same: "checkNodeEndOfStream H j c e' = check_eos H (Suc m) j c e'" if "j < nodes_of e'" "unflushed e' \<le> m" for j c m and e' :: "('a, 'b) Engine"
  proof (cases "m \<le> nodes_of e'")
    case True
    then show ?thesis using check_eos_fuel [OF that, of H "nodes_of e' - m" c] by (simp add: checkNodeEndOfStream_def)
  next
    case False
    then show ?thesis using check_eos_fuel [OF that(1) unflushed_bound, of H "m - nodes_of e'" c] by (simp add: checkNodeEndOfStream_def)
  qed
  obtain m where m: "nodes_of e = Suc m" using assms by (cases "nodes_of e") auto
  have "eos_body H (checkNodeEndOfStream H) i ctx e = eos_body H (check_eos H (Suc m)) i ctx e"
    by (rule body_agree [OF check_eos_handler same assms]) (use unflushed_bound [of e] m in simp_all)
  then show ?thesis
    using check_eos_fuel [OF assms unflushed_bound, of H extra ctx] m by (simp add: checkNodeEndOfStream_def check_eos.simps(2) [of H "Suc m"])
qed

theorem eos_recursion_witness:
  "length (en_states demo_join) = 1 \<and>
   checkNodeEndOfStream demo_hooks 0 None demo_join = eos_body demo_hooks (checkNodeEndOfStream demo_hooks) 0 None demo_join"
proof -
  have "length (en_states demo_join) = 1" by (simp add: demo_join_def)
  then show ?thesis using eos_recursion [of 0 demo_join demo_hooks None 0] by simp
qed

end
