(* ===== verification/Engine_Runs.thy ===== *)
theory Engine_Runs
  imports Engine_Api Engine_Streams
begin

unbundle bit_operations_syntax

text \<open>
  Runs of an engine: the tasks of the workers, the calls of the application, the timers and
  requests to stop, in any order.  \<open>engine_inv\<close> is the invariant of such runs.
\<close>

section \<open>The task of a node\<close>

lemma calm_exec: "calm X e e' \<Longrightarrow> i < nodes_of e \<Longrightarrow> i \<notin> X \<Longrightarrow> exec_step (exec_of e i) (exec_of e' i)"
  unfolding calm_def using steadyD(5) by blast

lemma calm_stopped: "calm X e e' \<Longrightarrow> en_stopFlag e \<Longrightarrow> en_stopFlag e'"
  unfolding calm_def using steadyD(2) by blast

lemma calm_frame: "calm X e e' \<Longrightarrow> same_frame e e'"
  unfolding calm_def using steadyD(1) by blast

lemma try_node: "calm {} e (tryScheduleNode H (checkNodeEndOfStream H) i e)"
  by (rule node_check.try_calm) (rule order_refl)

text \<open>A node that is settled stays so under steps that do not exempt it.\<close>

lemma settled_at_calm:
  assumes "calm {} e e'" and "static_ok e" and "settled_at e i" and "i < nodes_of e"
  shows "settled_at e' i"
proof -
  have "settled (- {i}) e" using assms(3) by (simp add: settled_def)
  then have "settled (- {i} \<union> {}) e'" using assms(1,2) steadyD(9) unfolding calm_def by blast
  then show ?thesis using assms(4) calm_nodes [OF assms(1)] by (simp add: settled_def)
qed

lemma idle_settled: "\<not> (en_streamingMode e \<and> \<not> en_stopFlag e) \<Longrightarrow> settled_at e i"
  by (auto simp: settled_at_def)

lemma check_node:
  assumes "i < nodes_of e" and "checkNodeEndOfStream H i ctx e = (b, e')"
  shows "calm {} e e'" and "settled_at e' i"
  using node_check.eos_calm [OF assms(1) order_refl, of H ctx] node_check.eos_settles [OF assms(1) order_refl, of H ctx] assms(2) by simp_all

lemma check_idle: "\<not> (en_streamingMode e \<and> \<not> en_stopFlag e) \<Longrightarrow> checkNodeEndOfStream H i ctx e = (False, e)"
  by (simp add: checkNodeEndOfStream_def check_eos.simps eos_body_def eos_due_def)

text \<open>How the node of a task is left: in a batch it is finished for good, unless the run was stopped.\<close>

definition ended :: "('v, 'w) Engine \<Rightarrow> nat \<Rightarrow> bool" where
  "ended e i \<longleftrightarrow> exec_of e i \<noteq> EXECUTING \<and> (en_streamingMode e \<longrightarrow> exec_of e i \<noteq> FAILED) \<and>
     (en_scheduler e = BatchSchedulerStrategy \<and> \<not> en_streamingMode e \<longrightarrow> exec_of e i \<in> {COMPLETED, FAILED} \<or> en_stopFlag e \<and> exec_of e i \<noteq> READY)"

lemma ended_calm:
  assumes "calm {} e e'" and "i < nodes_of e" and "ended e i" and "en_streamingMode e \<or> en_scheduler e \<noteq> BatchSchedulerStrategy \<or> e' = e"
  shows "ended e' i"
proof -
  have "exec_step (exec_of e i) (exec_of e' i)" by (rule calm_exec [OF assms(1,2)]) simp
  then show ?thesis
    using assms(3,4) calm_stopped [OF assms(1)] calm_frame [OF assms(1)] by (cases "exec_of e i") (auto simp: ended_def same_frame_def)
qed

lemma success_calm:
  assumes "i < nodes_of e" and "exec_of e i = EXECUTING"
  shows "calm {i} e (handleNodeSuccess H i outputs e)" and "ended (handleNodeSuccess H i outputs e) i"
proof -
  obtain now e1 where clock: "read_clock H (upd_node i (\<lambda>st. st \<lparr> nd_execution_count := nd_execution_count st + 1 \<rparr>) e) = (now, e1)" by fastforce
  define e2 where "e2 = collect_sink H i outputs (upd_stats (\<lambda>s. s \<lparr> successful_executions := successful_executions s + 1 \<rparr>)
      (upd_node i (\<lambda>st. st \<lparr> nd_last_execution_ticks := now \<rparr>) e1))"
  define e3 where "e3 = propagateOutputs H (checkNodeEndOfStream H) i outputs e2"
  have "quiet e e1" by (rule quiet_trans [OF quiet_node_field(1) quiet_clock [OF clock]])
  then have "quiet e e2"
    unfolding e2_def by (rule quiet_trans [OF quiet_trans [OF quiet_trans [OF _ quiet_node_field(2)] quiet_field(2)] quiet_collect_sink])
  then have c3: "calm {} e e3" unfolding e3_def by (rule calm_trans_empty [OF quiet_calm node_check.propagate_calm [OF order_refl]])
  have x3: "exec_of e3 i = EXECUTING" using calm_exec [OF c3 assms(1)] assms(2) by simp
  have set: "calm {i} e (set_exec_state i s e3)" if "s \<noteq> READY" for s
    using calm_trans [OF c3 calm_set_exec [of e3 i s]] x3 that by simp
  have run: "handleNodeSuccess H i outputs e = (if onNodeComplete (en_scheduler e3) True
      then tryScheduleNode H (checkNodeEndOfStream H) i (set_exec_state i WAITING e3) else set_exec_state i COMPLETED e3)"
    using clock by (simp add: handleNodeSuccess_def e2_def e3_def Let_def)
  show "calm {i} e (handleNodeSuccess H i outputs e)"
    unfolding run using set [of COMPLETED] calm_trans [OF set [of WAITING] try_node] by simp
  have n: "i < nodes_of (set_exec_state i s e3)" "exec_of (set_exec_state i s e3) i = s" "en_scheduler (set_exec_state i s e3) = en_scheduler e3" for s
    using assms(1) calm_nodes [OF c3] by (simp_all add: set_exec_state_def upd_node_nth)
  have not_batch: "en_scheduler e3 \<noteq> BatchSchedulerStrategy" if "onNodeComplete (en_scheduler e3) True"
    using that by (auto simp: batch_onNodeComplete_def)
  have "ended (set_exec_state i WAITING e3) i" if "onNodeComplete (en_scheduler e3) True"
    using that n by (auto simp: ended_def batch_onNodeComplete_def)
  moreover have "ended (set_exec_state i COMPLETED e3) i" using n by (simp add: ended_def)
  ultimately show "ended (handleNodeSuccess H i outputs e) i"
    unfolding run using ended_calm [OF try_node [of "set_exec_state i WAITING e3" H i] n(1)] n(3) not_batch by auto
qed

lemma failure_calm:
  assumes "i < nodes_of e" and "exec_of e i = EXECUTING"
  shows "calm {i} e (handleNodeFailure H i e)" and "ended (handleNodeFailure H i e) i"
proof -
  define e1 where "e1 = upd_stats (\<lambda>s. s \<lparr> failed_executions := failed_executions s + 1 \<rparr>) e"
  have c1: "calm {} e e1" and x1: "exec_of e1 i = EXECUTING" using assms(2) by (simp_all add: e1_def quiet_calm)
  have set: "calm {i} e (set_exec_state i s e1)" if "s \<noteq> READY" for s
    using calm_trans [OF c1 calm_set_exec [of e1 i s]] x1 that by simp
  show "calm {i} e (handleNodeFailure H i e)"
    unfolding handleNodeFailure_def Let_def e1_def [symmetric]
    using calm_trans [OF set [of FAILED] calm_stop] calm_trans [OF set [of WAITING] try_node] by simp
  have n: "i < nodes_of (set_exec_state i s e1)" "exec_of (set_exec_state i s e1) i = s" "en_streamingMode (set_exec_state i s e1) = en_streamingMode e1" for s
    using assms(1) calm_nodes [OF c1] by (simp_all add: set_exec_state_def upd_node_nth)
  have stop: "en_stopFlag (stopExecutionAsync e')" "en_states (stopExecutionAsync e') = en_states e'" "en_streamingMode (stopExecutionAsync e') = en_streamingMode e'" for e' :: "('a, 'b) Engine"
    by (simp_all add: stopExecutionAsync_def)
  show "ended (handleNodeFailure H i e) i"
    unfolding handleNodeFailure_def Let_def e1_def [symmetric]
    using ended_calm [OF try_node n(1) [of WAITING]] n stop by (auto simp: ended_def)
qed

lemma complete_calm:
  assumes "i < nodes_of e" and "exec_of e i = EXECUTING"
  shows "calm {i} e (complete_execution H i t inputs r e) \<and> ended (complete_execution H i t inputs r e) i"
proof (cases "en_stopFlag e")
  case True
  then show ?thesis
    using calm_set_exec [of e i WAITING] assms by (simp add: complete_execution_def ended_def set_exec_state_def upd_node_nth)
next
  case False
  show ?thesis
  proof (cases r)
    case (ResOk outputs)
    define e1 where "e1 = mark_processed i inputs (if ec_enable_statistics (en_config e) \<and> isSink (the_graph e) i then record_latency t inputs e else e)"
    have "quiet e e1" unfolding e1_def by (auto intro: quiet_trans [OF quiet_record_latency quiet_mark_processed])
    then have c1: "calm {} e e1" by (rule quiet_calm)
    have "i < nodes_of e1" "exec_of e1 i = EXECUTING" using calm_nodes [OF c1] calm_exec [OF c1 assms(1)] assms by simp_all
    note success = success_calm [OF this, of H "inheritFrameIdentity inputs outputs"]
    have "calm {i} e (handleNodeSuccess H i (inheritFrameIdentity inputs outputs) e1)" using calm_trans [OF c1 success(1)] by simp
    then show ?thesis using success(2) ResOk False by (simp add: complete_execution_def e1_def Let_def)
  next
    case (ResErr err)
    then show ?thesis using failure_calm [OF assms] False by (simp add: complete_execution_def)
  qed
qed

text \<open>A task that was claimed and is not stopped: from the moment its node executes.\<close>

lemma task_calm:
  assumes "static_ok e" and "i < nodes_of e" and "exec_of e i = READY" and "isStopRequested e = (False, e)"
  shows "\<exists>e'. executeNodeTask H i ctx e = finish_one e' \<and> calm {i} (set_exec_state i EXECUTING e) e' \<and> settled_at e' i \<and> ended e' i"
proof -
  define e1 where "e1 = set_exec_state i EXECUTING e"
  have x1: "exec_of e1 i = EXECUTING" and n1: "nodes_of e1 = nodes_of e" using assms(2) by (simp_all add: e1_def set_exec_state_def upd_node_nth)
  have "same_frame e e1" unfolding e1_def set_exec_state_def by (rule upd_node_frame) (simp add: node_frame_def)
  then have s1: "static_ok e1" using static_frame assms(1) by blast
  obtain started e2 where clock: "read_clock H e1 = (started, e2)" by fastforce
  have c2: "calm {} e1 e2" by (rule quiet_calm [OF quiet_clock [OF clock]])
  obtain ok inputs e3 where gather: "gatherNodeInputs H i e2 = (ok, inputs, e3)" by (metis prod.exhaust)
  have x2: "i < nodes_of e2" "exec_of e2 i = EXECUTING" using calm_nodes [OF c2] calm_exec [OF c2, of i] x1 n1 assms(2) by simp_all
  have c3: "calm {} e1 e3" by (rule calm_trans_empty [OF c2 calm_gather [OF gather calm_static [OF c2 s1] x2]])
  have x3: "i < nodes_of e3" "exec_of e3 i = EXECUTING" using calm_nodes [OF c3] calm_exec [OF c3, of i] x1 n1 assms(2) by simp_all
  have run: "executeNodeTask H i ctx e = (case (ok, inputs, e3) of
       (False, inputs, e) \<Rightarrow>
         if en_streamingMode e \<and> \<not> en_stopFlag e
         then (case checkNodeEndOfStream H i ctx (set_exec_state i WAITING e) of
                 (True, e) \<Rightarrow> finish_one e
               | (False, e) \<Rightarrow> finish_one (tryScheduleNode H (checkNodeEndOfStream H) i e))
         else finish_one (handleNodeFailure H i e)
     | (True, inputs, e) \<Rightarrow>
         (let e = upd_stats (\<lambda>s. s \<lparr> total_executions := total_executions s + 1 \<rparr>) e
          in case processNode H (nd_node (en_states e ! i)) inputs ctx e of
               (r, e) \<Rightarrow> (case read_clock H e of
                  (end_time, e) \<Rightarrow> (let e = record_node_execution i (duration_cast 1000 (end_time - started)) inputs r e;
                       e = complete_execution H i end_time inputs r e;
                       e = snd (checkNodeEndOfStream H i ctx e) in finish_one e))))"
    using assms clock gather by (simp add: executeNodeTask_def e1_def [symmetric])
  show ?thesis
  proof (cases ok)
    case False
    show ?thesis
    proof (cases "en_streamingMode e3 \<and> \<not> en_stopFlag e3")
      case True
      let ?w = "set_exec_state i WAITING e3"
      have cw: "calm {i} e1 ?w" using calm_trans [OF c3 calm_set_exec [of e3 i WAITING]] x3 by simp
      have nw: "i < nodes_of ?w" using x3(1) by (simp add: set_exec_state_def)
      obtain b e5 where check: "checkNodeEndOfStream H i ctx ?w = (b, e5)" by fastforce
      note ch = check_node [OF nw check]
      have c5: "calm {i} e1 e5" using calm_trans [OF cw ch(1)] by simp
      have n5: "i < nodes_of e5" using calm_nodes [OF ch(1)] nw by simp
      have "ended ?w i" using x3(1) True by (simp add: ended_def set_exec_state_def upd_node_nth)
      moreover have sw: "en_streamingMode ?w" using True by (simp add: set_exec_state_def)
      ultimately have d5: "ended e5 i" using ended_calm [OF ch(1) nw] by simp
      have s5: "en_streamingMode e5" using sw calm_frame [OF ch(1)] by (simp add: same_frame_def)
      have "calm {i} e1 (tryScheduleNode H (checkNodeEndOfStream H) i e5)" "settled_at (tryScheduleNode H (checkNodeEndOfStream H) i e5) i"
        using calm_trans [OF c5 try_node] settled_at_calm [OF try_node calm_static [OF c5 s1] ch(2) n5] by simp_all
      then show ?thesis using run False True check c5 ch(2) d5 ended_calm [OF try_node n5 d5] s5 by (cases b) (auto simp: e1_def [symmetric])
    next
      case idle: False
      note f = failure_calm [OF x3, of H]
      note c = f(1)
      have "\<not> (en_streamingMode (handleNodeFailure H i e3) \<and> \<not> en_stopFlag (handleNodeFailure H i e3))"
        using idle calm_stopped [OF c] calm_frame [OF c] by (auto simp: same_frame_def)
      then show ?thesis using run False idle calm_trans [OF c3 c] f(2) idle_settled by (auto simp: e1_def [symmetric])
    qed
  next
    case True
    define e4 where "e4 = upd_stats (\<lambda>s. s \<lparr> total_executions := total_executions s + 1 \<rparr>) e3"
    obtain r e5 where process: "processNode H (nd_node (en_states e4 ! i)) inputs ctx e4 = (r, e5)" by fastforce
    obtain end_time e6 where clock2: "read_clock H e5 = (end_time, e6)" by fastforce
    define e7 where "e7 = record_node_execution i (duration_cast 1000 (end_time - started)) inputs r e6"
    have "quiet e3 e7"
      unfolding e7_def by (rule quiet_trans [OF quiet_trans [OF quiet_trans [OF _ quiet_processNode [OF process]] quiet_clock [OF clock2]] quiet_record_node_execution])
        (simp add: e4_def)
    then have c7: "calm {} e1 e7" by (rule calm_trans_empty [OF c3 quiet_calm])
    have x7: "i < nodes_of e7" "exec_of e7 i = EXECUTING" using calm_nodes [OF c7] calm_exec [OF c7, of i] x1 n1 assms(2) by simp_all
    let ?c = "complete_execution H i end_time inputs r e7"
    note complete = complete_calm [OF x7, of H end_time inputs r]
    have c8: "calm {i} e1 ?c" using calm_trans [OF c7 conjunct1 [OF complete]] by simp
    obtain b e9 where check: "checkNodeEndOfStream H i ctx ?c = (b, e9)" by fastforce
    have n8: "i < nodes_of ?c" using calm_nodes [OF c8] n1 assms(2) by simp
    note ch = check_node [OF n8 check]
    have idle: "en_streamingMode ?c \<or> e9 = ?c" using check check_idle [of ?c H i ctx] by auto
    have "executeNodeTask H i ctx e = finish_one e9" using run True process clock2 check by (simp add: e4_def e7_def Let_def)
    then show ?thesis using calm_trans [OF c8 ch(1)] ch(2) ended_calm [OF ch(1) n8 conjunct2 [OF complete]] idle by (auto simp: e1_def [symmetric])
  qed
qed


section \<open>The invariant of a run\<close>

definition no_running :: "('v, 'w) Engine \<Rightarrow> bool" where
  "no_running e \<longleftrightarrow> (\<forall>i<nodes_of e. exec_of e i \<noteq> EXECUTING \<and> (en_streamingMode e \<longrightarrow> exec_of e i \<noteq> FAILED))"

definition engine_inv :: "('v, 'w) Engine \<Rightarrow> bool" where
  "engine_inv e \<longleftrightarrow> static_ok e \<and> tasks_ok 0 e \<and> settled {} e \<and> eos_ok {} e \<and> no_running e"

text \<open>What a run never takes back.\<close>

definition progress :: "('v, 'w) Engine \<Rightarrow> ('v, 'w) Engine \<Rightarrow> bool" where
  "progress e e' \<longleftrightarrow> en_compiled e' = en_compiled e \<and> en_config e' = en_config e \<and> en_scheduler e' = en_scheduler e \<and>
     en_streamingMode e' = en_streamingMode e \<and> en_sinkCount e' = en_sinkCount e \<and> en_callbacks e' = en_callbacks e \<and>
     map node_frame (en_states e') = map node_frame (en_states e) \<and> (en_stopFlag e \<longrightarrow> en_stopFlag e') \<and>
     (\<forall>i<nodes_of e. (flushed e i \<longrightarrow> flushed e' i) \<and> (\<forall>k. latched e i k \<longrightarrow> latched e' i k)) \<and>
     (en_endOfStreamReached e \<longrightarrow> en_endOfStreamReached e') \<and>
     eos_calls e' = eos_calls e + of_bool (cb_endOfStream (en_callbacks e) \<and> en_endOfStreamReached e' \<and> \<not> en_endOfStreamReached e)"

lemma progress_refl [simp]: "progress e e"
  by (simp add: progress_def)

lemma progress_nodes: "progress e e' \<Longrightarrow> nodes_of e' = nodes_of e"
  unfolding progress_def by (metis length_map)

lemma progress_trans:
  assumes "progress e1 e2" and "progress e2 e3"
  shows "progress e1 e3"
  using assms progress_nodes [OF assms(1)] by (auto simp: progress_def)

lemma calm_progress: "calm X e e' \<Longrightarrow> progress e e'"
  by (simp add: calm_def steady_def progress_def same_frame_def)

lemma inv_calm:
  assumes "calm {} e e'" and "engine_inv e"
  shows "engine_inv e'"
proof -
  have st: "steady {} e e'" "flows e e'" using assms(1) by (simp_all add: calm_def)
  have "no_running e'"
    unfolding no_running_def
  proof (intro allI impI)
    fix i assume "i < nodes_of e'"
    then have i: "i < nodes_of e" using calm_nodes [OF assms(1)] by simp
    have "exec_of e i \<noteq> EXECUTING \<and> (en_streamingMode e \<longrightarrow> exec_of e i \<noteq> FAILED)" using assms(2) i by (simp add: engine_inv_def no_running_def)
    then show "exec_of e' i \<noteq> EXECUTING \<and> (en_streamingMode e' \<longrightarrow> exec_of e' i \<noteq> FAILED)"
      using calm_exec [OF assms(1) i] calm_frame [OF assms(1)] by (cases "exec_of e i") (auto simp: same_frame_def)
  qed
  then show ?thesis
    using assms(2) calm_static [OF assms(1)] steadyD(8,9) [OF st(1)] st(2) by (auto simp: engine_inv_def flows_def)
qed

section \<open>Running a task\<close>

text \<open>The task of node \<open>j\<close> was taken from the pool and has not begun.\<close>

definition claimed :: "nat \<Rightarrow> ('v, 'w) Engine \<Rightarrow> bool" where
  "claimed j e \<longleftrightarrow> j \<in> ready_nodes e \<and> en_pool e \<noteq> None \<and> own_thread (en_worker e) (the (en_pool e)) \<and>
     en_activeTasks e = int (length (pool_tasks (the (en_pool e)))) + 1 \<and>
     mset (map fst (pool_tasks (the (en_pool e)))) = mset_set (ready_nodes e - {j})"

lemma claimed_node: "claimed j e \<Longrightarrow> j < nodes_of e \<and> exec_of e j = READY"
  by (simp add: claimed_def ready_nodes_def)

lemma claimed_start:
  assumes "tasks_ok 0 e" and "en_pool e = Some p" and "w < length (tp_queues p)" and "claim_task start w p = (Some t, p')"
  shows "claimed (fst t) (e \<lparr> en_pool := Some p', en_worker := Some w \<rparr>)"
proof -
  note claim = claim_outcome [OF assms(3,4)]
  have tasks: "mset (pool_tasks p) = add_mset t (mset (pool_tasks p'))" using claim by simp
  then have "length (pool_tasks p) = Suc (length (pool_tasks p'))" by (metis size_add_mset size_mset)
  moreover have ready: "add_mset (fst t) (mset (map fst (pool_tasks p'))) = mset_set (ready_nodes e)"
    using assms(1,2) tasks by (simp add: tasks_ok_def mset_map)
  moreover have fin: "finite (ready_nodes e)" by (simp add: ready_nodes_def)
  moreover have j: "fst t \<in> ready_nodes e" using ready fin by (metis elem_mset_set union_single_eq_member)
  moreover have "mset (map fst (pool_tasks p')) = mset_set (ready_nodes e - {fst t})"
    using ready mset_set.remove [OF fin j] by simp
  moreover have "ready_nodes (e \<lparr> en_pool := Some p', en_worker := Some w \<rparr>) = ready_nodes e" by (simp add: ready_nodes_def)
  moreover have "own_thread (Some w) p'" using claim assms(3) by (auto simp: own_thread_def)
  ultimately show ?thesis using assms(1,2) by (simp add: claimed_def tasks_ok_def)
qed

lemma claimed_quiet:
  assumes "quiet e e'" and "claimed j e"
  shows "claimed j e'"
proof -
  have "ready_nodes e' = ready_nodes e" using quiet_node(1) [OF assms(1)] quiet_nodes [OF assms(1)] by (auto simp: ready_nodes_def)
  then show ?thesis using assms by (simp add: claimed_def quiet_def same_frame_def)
qed

lemma claimed_exec:
  assumes "claimed j e" and "s \<noteq> READY"
  shows "tasks_ok 1 (set_exec_state j s e)"
proof -
  have "j < nodes_of e" using claimed_node [OF assms(1)] by simp
  then have "ready_nodes (set_exec_state j s e) = ready_nodes e - {j}"
    using assms(2) by (auto simp: ready_nodes_def set_exec_state_def upd_node_nth split: if_splits)
  then show ?thesis using assms(1) by (simp add: claimed_def tasks_ok_def set_exec_state_def)
qed


text \<open>The end of a task: the counters of the engine and of the pool.\<close>

definition task_end :: "('v, 'w) Engine \<Rightarrow> ('v, 'w) Engine" where
  "task_end e = (let e = finish_one e in e \<lparr> en_pool := map_option (\<lambda>p. snd (finish_task p)) (en_pool e), en_worker := None \<rparr>)"

lemma finish_task_tasks [simp]: "pool_tasks (snd (finish_task p)) = pool_tasks p" "tp_queues (snd (finish_task p)) = tp_queues p"
  by (simp_all add: finish_task_def pool_tasks_def Let_def)

lemma task_end_states: "nodes_of (task_end e) = nodes_of e" "i < nodes_of e \<Longrightarrow> exec_of (task_end e) i = exec_of e i"
  "progress e (task_end e)" "pool_tasks (the (en_pool (task_end e))) = pool_tasks (the (en_pool e)) \<or> en_pool e = None"
  "tp_queues (the (en_pool (task_end e))) = tp_queues (the (en_pool e)) \<or> en_pool e = None"
proof -
  let ?e = "e \<lparr> en_activeTasks := en_activeTasks e - 1 \<rparr>"
  have q: "quiet ?e (finish_one e)" by (simp add: finish_one_def)
  have e: "en_states (task_end e) = en_states (finish_one e)" "en_pool (task_end e) = map_option (\<lambda>p. snd (finish_task p)) (en_pool (finish_one e))"
    by (simp_all add: task_end_def Let_def)
  show "nodes_of (task_end e) = nodes_of e" using quiet_nodes [OF q] e by simp
  show "i < nodes_of e \<Longrightarrow> exec_of (task_end e) i = exec_of e i" using quiet_node(1) [OF q, of i] e by simp
  have "progress e ?e" by (simp add: progress_def eos_calls_def)
  moreover have "progress ?e (finish_one e)" by (rule calm_progress [OF quiet_calm [OF q]])
  moreover have "progress (finish_one e) (task_end e)" by (simp add: task_end_def progress_def eos_calls_def Let_def)
  ultimately show "progress e (task_end e)" using progress_trans by blast
  have "en_pool (finish_one e) = en_pool e" using q by (simp add: quiet_def)
  then show "pool_tasks (the (en_pool (task_end e))) = pool_tasks (the (en_pool e)) \<or> en_pool e = None"
    "tp_queues (the (en_pool (task_end e))) = tp_queues (the (en_pool e)) \<or> en_pool e = None" using e by (cases "en_pool e"; simp)+
qed

lemma task_end_inv:
  assumes "static_ok e" and "tasks_ok 1 e" and "settled {} e" and "eos_ok {} e" and "no_running e"
  shows "engine_inv (task_end e)"
proof -
  define e1 where "e1 = e \<lparr> en_activeTasks := en_activeTasks e - 1 \<rparr>"
  define e2 where "e2 = finish_one e"
  have q: "quiet e1 e2" by (simp add: e1_def e2_def finish_one_def)
  have same: "same_frame e e1" "en_states e1 = en_states e" "en_stopFlag e1 = en_stopFlag e" by (simp_all add: e1_def same_frame_def)
  have "tasks_ok 0 e1" using assms(2) by (simp add: e1_def tasks_ok_def ready_nodes_def)
  moreover have "settled {} e1" "eos_ok {} e1"
    using assms(3,4) by (simp_all add: e1_def settled_def settled_at_def eos_ok_def flushed_sinks_def closed_behind_def the_graph_def outEdges_def)
  moreover have "no_running e1" using assms(5) by (simp add: e1_def no_running_def)
  ultimately have inv: "engine_inv e2" using inv_calm [OF quiet_calm [OF q]] static_frame [OF same(1) assms(1)] by (simp add: engine_inv_def)
  have end_eq: "task_end e = e2 \<lparr> en_pool := map_option (\<lambda>p. snd (finish_task p)) (en_pool e2), en_worker := None \<rparr>" by (simp add: task_end_def e2_def Let_def)
  obtain p where p: "en_pool e2 = Some p" "own_thread (en_worker e2) p" using inv by (auto simp: engine_inv_def tasks_ok_def)
  have "tasks_ok 0 (task_end e)"
    using inv p by (simp add: end_eq engine_inv_def tasks_ok_def ready_nodes_def own_thread_def)
  moreover have "static_ok (task_end e)" "settled {} (task_end e)" "eos_ok {} (task_end e)" "no_running (task_end e)"
    using inv by (simp_all add: end_eq engine_inv_def static_ok_def settled_def settled_at_def eos_ok_def flushed_sinks_def closed_behind_def
        the_graph_def outEdges_def no_running_def)
  ultimately show ?thesis by (simp add: engine_inv_def)
qed

text \<open>Setting the node of a claimed task: nothing else changes.\<close>

lemma claimed_set:
  assumes "claimed j e" and "s = EXECUTING \<or> s = WAITING \<and> en_stopFlag e" and "static_ok e" and "settled {} e" and "eos_ok {} e"
  shows "static_ok (set_exec_state j s e) \<and> tasks_ok 1 (set_exec_state j s e) \<and> settled {} (set_exec_state j s e) \<and> eos_ok {} (set_exec_state j s e) \<and>
     progress e (set_exec_state j s e)"
proof -
  let ?e = "set_exec_state j s e"
  have j: "j < nodes_of e" using claimed_node [OF assms(1)] by simp
  have node: "en_states ?e ! i = (if i = j then (en_states e ! j) \<lparr> nd_exec_state := s \<rparr> else en_states e ! i)" if "i < nodes_of e" for i
    using that by (simp add: set_exec_state_def upd_node_nth)
  have fields: "nodes_of ?e = nodes_of e" "the_graph ?e = the_graph e" "outEdges k ?e = outEdges k e" "en_stopFlag ?e = en_stopFlag e"
    "en_sinksAtEos ?e = en_sinksAtEos e" "en_endOfStreamReached ?e = en_endOfStreamReached e" "en_sinkCount ?e = en_sinkCount e"
    "en_streamingMode ?e = en_streamingMode e" for k
    by (simp_all add: set_exec_state_def)
  have frame: "same_frame e ?e" unfolding set_exec_state_def by (rule upd_node_frame) (simp add: node_frame_def)
  have kept: "flushed ?e i = flushed e i" "latched ?e i k = latched e i k" if "i < nodes_of e" for i k
    using node [OF that] by (auto simp: portEosLatched_def)
  have "settled {} ?e" using assms(2,4) node fields by (auto simp: settled_def settled_at_def)
  moreover have "flushed_sinks ?e = flushed_sinks e" "closed_behind ?e i = closed_behind e i" for i
    using kept fields by (auto simp: flushed_sinks_def closed_behind_def)
  then have "eos_ok {} ?e" using assms(5) kept fields by (auto simp: eos_ok_def)
  moreover have "progress e ?e"
    using frame kept fields by (auto simp: progress_def same_frame_def eos_calls_def set_exec_state_def)
  ultimately show ?thesis using static_frame [OF frame assms(3)] claimed_exec [OF assms(1)] assms(2) by blast
qed


lemma stop_requested_claimed:
  assumes "isStopRequested e = (True, e')" and "claimed j e"
  shows "claimed j e'"
  using assms by (auto simp: isStopRequested_def stopExecutionAsync_def claimed_def ready_nodes_def split: if_splits)

abbreviation queued :: "('v, 'w) Engine \<Rightarrow> nat" where
  "queued e \<equiv> length (pool_tasks (the (en_pool e)))"

abbreviation workers :: "('v, 'w) Engine \<Rightarrow> nat" where
  "workers e \<equiv> length (tp_queues (the (en_pool e)))"

lemma worker_step:
  assumes "engine_inv e" and "run_worker H start w e = Some e'"
  shows "engine_inv e'" and "progress e e'"
    and "\<exists>j\<in>ready_nodes e. ended e' j \<and> (\<forall>i<nodes_of e. i \<noteq> j \<longrightarrow> exec_step (exec_of e i) (exec_of e' i))"
    and "en_stopFlag e \<Longrightarrow> Suc (queued e') = queued e" and "en_stopFlag e \<Longrightarrow> workers e' = workers e"
proof -
  have inv: "static_ok e" "tasks_ok 0 e" "settled {} e" "eos_ok {} e" "no_running e" using assms(1) by (simp_all add: engine_inv_def)
  obtain p where p: "en_pool e = Some p" "w < length (tp_queues p)"
    using assms(2) by (auto simp: run_worker_def split: option.splits if_splits prod.splits)
  obtain t p' where claim: "claim_task start w p = (Some t, p')"
    using assms(2) p by (auto simp: run_worker_def split: option.splits prod.splits)
  obtain j ctx at0 where t: "t = (j, ctx, at0)" by (metis prod.exhaust)
  define e0 where "e0 = e \<lparr> en_pool := Some p', en_worker := Some w \<rparr>"
  obtain now e1 where clock: "read_clock H e0 = (now, e1)" by fastforce
  define e2 where "e2 = (if ec_enable_statistics (en_config e1) \<and> duration_cast 1000 (now - at0) > 0
      then upd_stats (\<lambda>s. s \<lparr> total_schedule_time_us := total_schedule_time_us s + nat (duration_cast 1000 (now - at0)) \<rparr>) e1 else e1)"
  have run: "e' = (let e = executeNodeTask H j ctx e2 in e \<lparr> en_pool := map_option (\<lambda>p. snd (finish_task p)) (en_pool e), en_worker := None \<rparr>)"
    using assms(2) p claim clock by (auto simp: run_worker_def run_task_def t e0_def [symmetric] e2_def Let_def)
  have q: "quiet e0 e2" unfolding e2_def by (auto intro: quiet_trans [OF quiet_clock [OF clock]] quiet_clock [OF clock])
  have c0: "claimed j e0" using claimed_start [OF inv(2) p claim] by (simp add: e0_def t)
  have prog0: "progress e e0" by (simp add: e0_def progress_def eos_calls_def)
  have inv0: "static_ok e0" "settled {} e0" "eos_ok {} e0"
    using inv by (simp_all add: e0_def static_ok_def settled_def settled_at_def eos_ok_def flushed_sinks_def closed_behind_def the_graph_def outEdges_def)
  have c2: "claimed j e2" by (rule claimed_quiet [OF q c0])
  have inv2: "static_ok e2" "settled {} e2" "eos_ok {} e2" "progress e e2"
    using calm_static [OF quiet_calm [OF q] inv0(1)] quiet_settled [OF q] quiet_eos_ok [OF q] inv0
      progress_trans [OF prog0 calm_progress [OF quiet_calm [OF q]]] by simp_all
  have n2: "nodes_of e2 = nodes_of e" and x2: "exec_of e2 i = exec_of e i" if "i < nodes_of e" for i
    using quiet_nodes [OF q] quiet_node(1) [OF q] that by (simp_all add: e0_def)
  have nodes: "nodes_of e2 = nodes_of e" using quiet_nodes [OF q] by (simp add: e0_def)
  have j: "j < nodes_of e" "exec_of e j = READY" using claimed_node [OF c0] by (simp_all add: e0_def)
  have pool2: "en_pool e2 = Some p'" using q by (simp add: quiet_def e0_def)
  have len: "queued e = Suc (length (pool_tasks p'))" 
  proof -
    have "size (mset (pool_tasks p)) = size (add_mset t (mset (pool_tasks p')))" using claim_outcome [OF p(2) claim] by simp
    then show ?thesis using p(1) by simp
  qed
  obtain b e3 where stop: "isStopRequested e2 = (b, e3)" by fastforce
  note sc = isStopRequested_cases [OF stop]
  have "\<exists>e4. e' = task_end e4 \<and> static_ok e4 \<and> tasks_ok 1 e4 \<and> settled {} e4 \<and> eos_ok {} e4 \<and> progress e e4 \<and> ended e4 j \<and>
      (\<forall>i<nodes_of e. i \<noteq> j \<longrightarrow> exec_step (exec_of e i) (exec_of e4 i)) \<and> (en_stopFlag e \<longrightarrow> en_pool e4 = Some p')"
  proof (cases b)
    case True
    let ?e4 = "set_exec_state j WAITING e3"
    have c3: "claimed j e3" using stop_requested_claimed [of e2 e3 j] stop c2 True by simp
    have calm3: "calm {} e2 e3" "en_stopFlag e3" using sc True by simp_all
    have inv3: "static_ok e3" "settled {} e3" "eos_ok {} e3" "progress e e3"
      using calm3(1) inv2 calm_static [OF calm3(1)] steadyD(9) [of "{}" e2 e3 "{}"] progress_trans [OF inv2(4) calm_progress [OF calm3(1)]]
      by (simp_all add: calm_def flows_def)
    have pool3: "en_pool e3 = Some p'"
      using pool2 stop by (auto simp: isStopRequested_def stopExecutionAsync_def split: if_splits)
    have s3: "exec_of e3 i = exec_of e i" if "i < nodes_of e" for i using sc x2 [OF that] by simp
    have "executeNodeTask H j ctx e2 = finish_one ?e4" using True stop j nodes by (simp add: executeNodeTask_def)
    then have "e' = task_end ?e4" using run by (simp add: task_end_def)
    moreover have "ended ?e4 j"
      using j(1) nodes sc calm3(2) by (simp add: ended_def set_exec_state_def upd_node_nth)
    moreover have "\<forall>i<nodes_of e. i \<noteq> j \<longrightarrow> exec_step (exec_of e i) (exec_of ?e4 i)"
      using s3 nodes sc by (simp add: set_exec_state_def upd_node_nth)
    ultimately show ?thesis
      using claimed_set [OF c3 _ inv3(1-3), of WAITING] calm3(2) pool3 progress_trans [OF inv3(4), of ?e4] by (auto simp: set_exec_state_def)
  next
    case False
    then have e3: "e3 = e2" "\<not> en_stopFlag e2" using sc by auto
    have "\<not> en_stopFlag e" using e3 inv2(4) by (auto simp: progress_def)
    obtain e4 where e4: "executeNodeTask H j ctx e2 = finish_one e4" "calm {j} (set_exec_state j EXECUTING e2) e4" "settled_at e4 j" "ended e4 j"
      using task_calm [OF inv2(1), of j H ctx] claimed_node [OF c2] stop False e3 by auto
    let ?f = "set_exec_state j EXECUTING e2"
    have f: "static_ok ?f" "tasks_ok 1 ?f" "settled {} ?f" "eos_ok {} ?f" "progress e2 ?f" using claimed_set [OF c2 _ inv2(1-3), of EXECUTING] by auto
    have nf: "nodes_of ?f = nodes_of e" by (simp add: set_exec_state_def nodes)
    have n4: "nodes_of e4 = nodes_of e" using calm_nodes [OF e4(2)] nf by simp
    have "settled ({} \<union> {j}) e4" using steadyD(9) [OF _ f(1,3)] e4(2) by (auto simp: calm_def)
    then have "settled {} e4" using e4(3) by (auto simp: settled_def)
    moreover have "exec_step (exec_of e i) (exec_of e4 i)" if "i < nodes_of e" "i \<noteq> j" for i
    proof -
      have "exec_of ?f i = exec_of e i" using that x2 nodes by (simp add: set_exec_state_def upd_node_nth)
      then show ?thesis using calm_exec [OF e4(2), of i] that nf by simp
    qed
    moreover have "tasks_ok 1 e4" "eos_ok {} e4" using e4(2) f steadyD(8) by (auto simp: calm_def flows_def)
    moreover have "progress e e4" using progress_trans [OF inv2(4) progress_trans [OF f(5) calm_progress [OF e4(2)]]] .
    moreover have "e' = task_end e4" using run e4(1) by (simp add: task_end_def)
    ultimately show ?thesis using calm_static [OF e4(2) f(1)] e4(4) \<open>\<not> en_stopFlag e\<close> by blast
  qed
  then obtain e4 where e4: "e' = task_end e4" "static_ok e4" "tasks_ok 1 e4" "settled {} e4" "eos_ok {} e4" "progress e e4" "ended e4 j"
      "\<forall>i<nodes_of e. i \<noteq> j \<longrightarrow> exec_step (exec_of e i) (exec_of e4 i)" "en_stopFlag e \<longrightarrow> en_pool e4 = Some p'"
    by blast
  have n4: "nodes_of e4 = nodes_of e" by (rule progress_nodes [OF e4(6)])
  have "no_running e4"
    unfolding no_running_def n4
  proof (intro allI impI)
    fix i assume i: "i < nodes_of e"
    show "exec_of e4 i \<noteq> EXECUTING \<and> (en_streamingMode e4 \<longrightarrow> exec_of e4 i \<noteq> FAILED)"
    proof (cases "i = j")
      case True
      then show ?thesis using e4(7) by (simp add: ended_def)
    next
      case False
      then have "exec_step (exec_of e i) (exec_of e4 i)" using e4(8) i by simp
      then show ?thesis using inv(5) i e4(6) by (cases "exec_of e i") (auto simp: no_running_def progress_def)
    qed
  qed
  then show "engine_inv e'" unfolding e4(1) by (rule task_end_inv [OF e4(2-5)])
  note te = task_end_states [where e = e4]
  show prog: "progress e e'" unfolding e4(1) by (rule progress_trans [OF e4(6) te(3)])
  have "ended e' j" using e4(7) te(1,2,3) j(1) n4 unfolding e4(1) by (auto simp: ended_def progress_def)
  moreover have "\<forall>i<nodes_of e. i \<noteq> j \<longrightarrow> exec_step (exec_of e i) (exec_of e' i)" using e4(8) te(2) n4 unfolding e4(1) by simp
  ultimately show "\<exists>j\<in>ready_nodes e. ended e' j \<and> (\<forall>i<nodes_of e. i \<noteq> j \<longrightarrow> exec_step (exec_of e i) (exec_of e' i))"
    using j by (auto simp: ready_nodes_def)
  show "en_stopFlag e \<Longrightarrow> Suc (queued e') = queued e" using e4(9) te(4) len unfolding e4(1) by auto
  show "en_stopFlag e \<Longrightarrow> workers e' = workers e" using e4(9) te(5) claim_outcome [OF p(2) claim] p(1) unfolding e4(1) by auto
qed


section \<open>Calls from outside\<close>

lemma stamp_quiet: "stampIncomingFrame H data e = (data', e') \<Longrightarrow> quiet e e'"
  by (auto simp: stampIncomingFrame_def Let_def read_clock_def quiet_def same_frame_def eos_calls_def split: option.splits if_splits prod.splits)

lemma push_calm:
  assumes "pushToQueue i port data e = (ok, e1)"
  shows "calm {} e (tryScheduleNode H (checkNodeEndOfStream H) j (upd_stats f e1))"
  by (rule calm_trans_empty [OF calm_trans_empty [OF calm_pushToQueue [OF assms] quiet_calm [OF quiet_field(2)]] try_node])

lemma route_branch_calm: "route_branch H port data edge (r, j, d, e) = (r', j', d', e') \<Longrightarrow> calm {} e e'"
  by (auto simp: route_branch_def Let_def split: if_splits prod.splits bool.splits dest: calm_pushToQueue push_calm)

lemma route_branches_calm: "foldl (\<lambda>s edge. route_branch H port data edge s) (r, j, d, e) es = (r', j', d', e') \<Longrightarrow> calm {} e e'"
proof (induction es arbitrary: r j d e)
  case (Cons edge es)
  obtain r1 j1 d1 e1 where step: "route_branch H port data edge (r, j, d, e) = (r1, j1, d1, e1)" using prod_cases4 by blast
  have "calm {} e1 e'" using Cons step by simp
  then show ?case by (rule calm_trans_empty [OF route_branch_calm [OF step]])
qed simp

lemma routeToDownstream_calm: "routeToDownstream H source port data e = (r, e') \<Longrightarrow> calm {} e e'"
  by (auto simp: routeToDownstream_def Let_def split: if_splits prod.splits dest: route_branches_calm)

lemma pushInput_calm: "pushInput H source port data e = (r, e') \<Longrightarrow> calm {} e e'"
  by (auto simp: pushInput_def Let_def split: if_splits option.splits prod.splits bool.splits
      dest: routeToDownstream_calm dest!: stamp_quiet [THEN quiet_calm]
      intro: calm_trans_empty [OF _ push_calm] calm_trans_empty [OF _ calm_pushToQueue])

lemma stateByName_node:
  assumes "stateByName name e = Some st" and "static_ok e"
  shows "nd_index st < nodes_of e" and "st = en_states e ! nd_index st"
proof -
  obtain i where "i < nodes_of e" "st = en_states e ! i"
    using assms(1) by (auto simp: stateByName_def stateByIndex_def split: option.splits if_splits)
  moreover then have "nd_index st = i" using assms(2) by (simp add: static_ok_def node_static_def)
  ultimately show "nd_index st < nodes_of e" "st = en_states e ! nd_index st" by simp_all
qed

lemma mask_again: "m AND push_bit k 1 \<noteq> 0 \<Longrightarrow> m OR push_bit k 1 = m" for m :: "64 word"
  by (rule bit_eqI) (auto simp: bit_or_iff bit_and_iff bit_push_bit_iff bit_1_iff bit_iff_and_push_bit_not_eq_0 [symmetric] simp del: push_bit_of_1)

lemma upd_node_same: "f (en_states e ! i) = en_states e ! i \<Longrightarrow> upd_node i f e = e"
  by (simp add: upd_node_def)

lemma signal_calm:
  assumes "signalEndOfStream H source port e = (r, e')" and "static_ok e"
  shows "calm {} e e'"
proof (cases "e' = e")
  case False
  obtain st k where st: "stateByName source e = Some st" and k: "port_position st (if port = '''' then hd (nd_input_ports st) else port) = Some k"
    using assms(1) False by (auto simp: signalEndOfStream_def Let_def split: if_splits option.splits)
  define i where "i = nd_index st"
  have i: "i < nodes_of e" "st = en_states e ! i" using stateByName_node [OF st assms(2)] by (simp_all add: i_def)
  define e1 where "e1 = upd_node i (\<lambda>st. st \<lparr> nd_eos_mask := nd_eos_mask st OR push_bit k 1 \<rparr>) e"
  obtain b e2 where check: "checkNodeEndOfStream H i (en_context e1) e1 = (b, e2)" by fastforce
  have same: "e1 = e" if "nd_eos_mask st AND push_bit k 1 \<noteq> 0"
    using mask_again [OF that] i(2) by (simp add: e1_def upd_node_same del: push_bit_of_1)
  have c1: "calm {i} e e1" unfolding e1_def by (rule calm_latch)
  have i1: "i < nodes_of e1" using calm_nodes [OF c1] i(1) by simp
  note c2 = check_node [OF i1 check]
  have "calm ({i} \<union> {}) e e2" by (rule calm_trans [OF c1 c2(1)])
  moreover have "exec_step (exec_of e i) (exec_of e2 i)"
    using calm_exec [OF c2(1) i1] i(1) by (simp add: e1_def upd_node_nth)
  ultimately have "calm {} e e2" using steady_close [of "{i}" e e2] c2(2) unfolding calm_def by simp
  moreover have "e' = e2 \<or> e' = tryScheduleNode H (checkNodeEndOfStream H) i e2"
    using assms(1) st k check same False
    by (auto simp: signalEndOfStream_def Let_def i_def [symmetric] e1_def [symmetric] simp del: push_bit_of_1 split: if_splits bool.splits)
  ultimately show ?thesis using calm_trans_empty [OF _ try_node] by auto
qed simp

lemma defer_timer_calm: "calm {} e (defer_timer H e)"
proof (cases "en_deferRunning e \<and> earliest (en_deferQueue e) \<noteq> None")
  case True
  then obtain due i now e1 where due: "earliest (en_deferQueue e) = Some (due, i)" "read_clock H e = (now, e1)" by fastforce
  define e2 where "e2 = e1 \<lparr> en_deferQueue := remove1 (due, i) (en_deferQueue e1) \<rparr>"
  have q1: "quiet e e1" by (rule quiet_clock [OF due(2)])
  have q2: "quiet e e2" unfolding e2_def by (rule quiet_trans [OF q1 quiet_field(15)])
  have "calm {} e (tryScheduleNode H (checkNodeEndOfStream H) i (upd_node i (\<lambda>st. st \<lparr> nd_defer_pending := False \<rparr>) e2))"
    by (rule calm_trans_empty [OF quiet_calm [OF quiet_trans [OF q2 quiet_node_field(3)]] try_node])
  then show ?thesis using True due quiet_calm [OF q1] quiet_calm [OF q2] by (simp add: defer_timer_def e2_def [symmetric])
qed (auto simp: defer_timer_def split: option.splits)

lemma watch_node_calm: "calm {} e (watch_node H now i e)"
proof (cases "i < nodes_of e")
  case True
  define e1 where "e1 = upd_node i (\<lambda>st. st \<lparr> nd_degrade_pending := True \<rparr>) (upd_node i (\<lambda>st. st \<lparr> nd_join_wait_since_ticks := now \<rparr>) e)"
  have q: "quiet e e1" unfolding e1_def by (rule quiet_trans [OF quiet_node_field(4,5)])
  have "calm {} e (scheduleNodeExecution H i e1)"
    using calm_trans_empty [OF quiet_calm [OF q] calm_schedule] quiet_nodes [OF q] True by simp
  then show ?thesis by (auto simp: watch_node_def Let_def stateByIndex_def e1_def quiet_calm)
qed (simp add: watch_node_def stateByIndex_def)

lemma watchdog_calm: "calm {} e (watchdog_tick H e)"
proof -
  have "calm {} e (foldl (\<lambda>e i. watch_node H now i e) e is)" for now "is" e
    by (induction "is" arbitrary: e) (auto intro: calm_trans_empty watch_node_calm)
  then show ?thesis
    by (auto simp: watchdog_tick_def split: prod.splits dest!: quiet_clock intro: calm_trans_empty [OF quiet_calm])
qed

end
