(* ===== verification/Engine_Liveness.thy ===== *)
theory Engine_Liveness
  imports Engine_Runs
begin

text \<open>
  What a run of the engine leads to.  A run is a sequence of events: a worker claims and finishes
  a task, the application pushes a packet or closes a port, a timer fires, a stop is requested,
  the world outside changes.  The tasks of one engine run one at a time here; the order is arbitrary.

  The invariant \<open>engine_inv\<close> holds after every event.  From it follow the end of a stream, the end of
  a stopped run and the bound on the tasks of a batch.
\<close>

section \<open>Events\<close>

datatype ('v, 'w) event =
    Work nat nat
  | Push string string "'v PortDataPtr"
  | Signal string string
  | Retry
  | Watch
  | Stop
  | Outside "'w world"

fun engine_event :: "('v, 'w) hooks \<Rightarrow> ('v, 'w) event \<Rightarrow> ('v, 'w) Engine \<Rightarrow> ('v, 'w) Engine option" where
  "engine_event H (Work start w) e = run_worker H start w e"
| "engine_event H (Push source port data) e = Some (snd (pushInput H source port data e))"
| "engine_event H (Signal source port) e = Some (snd (signalEndOfStream H source port e))"
| "engine_event H Retry e = Some (defer_timer H e)"
| "engine_event H Watch e = Some (watchdog_tick H e)"
| "engine_event H Stop e = Some (stopExecutionAsync e)"
| "engine_event H (Outside w) e = Some (e \<lparr> en_world := w \<rparr>)"

fun run_events :: "('v, 'w) hooks \<Rightarrow> ('v, 'w) event list \<Rightarrow> ('v, 'w) Engine \<Rightarrow> ('v, 'w) Engine option" where
  "run_events H [] e = Some e"
| "run_events H (ev # evs) e = (case engine_event H ev e of None \<Rightarrow> None | Some e' \<Rightarrow> run_events H evs e')"

fun is_work :: "('v, 'w) event \<Rightarrow> bool" where
  "is_work (Work start w) = True"
| "is_work _ = False"

abbreviation works :: "('v, 'w) event list \<Rightarrow> nat" where
  "works evs \<equiv> length (filter is_work evs)"

lemma event_calm:
  assumes "engine_event H ev e = Some e'" and "\<not> is_work ev" and "static_ok e"
  shows "calm {} e e'"
  using assms
  by (cases ev) (auto simp: defer_timer_calm watchdog_calm quiet_calm intro: pushInput_calm signal_calm [OF _ assms(3)] prod.collapse [symmetric])

lemma event_inv:
  assumes "engine_inv e" and "engine_event H ev e = Some e'"
  shows "engine_inv e'" and "progress e e'"
proof -
  have "engine_inv e' \<and> progress e e'"
  proof (cases "is_work ev")
    case True
    then obtain start w where "ev = Work start w" by (cases ev) auto
    then show ?thesis using worker_step(1,2) [OF assms(1)] assms(2) by simp
  next
    case False
    have "static_ok e" using assms(1) by (simp add: engine_inv_def)
    from event_calm [OF assms(2) False this] show ?thesis using inv_calm assms(1) calm_progress by blast
  qed
  then show "engine_inv e'" "progress e e'" by simp_all
qed

lemma run_inv:
  assumes "run_events H evs e = Some e'" and "engine_inv e"
  shows "engine_inv e' \<and> progress e e'"
  using assms
proof (induction evs arbitrary: e)
  case (Cons ev evs)
  then obtain e1 where e1: "engine_event H ev e = Some e1" "run_events H evs e1 = Some e'" by (auto split: option.splits)
  note step = event_inv [OF Cons.prems(2) e1(1)]
  show ?case using Cons.IH [OF e1(2) step(1)] progress_trans [OF step(2)] by blast
qed simp

section \<open>A stopped run\<close>

lemma try_stopped: "en_stopFlag e \<Longrightarrow> tryScheduleNode H eos i e = e"
  by (simp add: tryScheduleNode_def isStopRequested_def)

lemma quiet_pool: "quiet e e' \<Longrightarrow> en_pool e' = en_pool e \<and> en_stopFlag e' = en_stopFlag e"
  by (simp add: quiet_def)

lemma push_queue_stopped:
  assumes "push_queue i k data e = (ok, e')"
  shows "en_pool e' = en_pool e \<and> en_stopFlag e' = en_stopFlag e"
proof -
  obtain gone q where p: "pq_push (queue_at i k e) data = (ok, gone, q)"
    using assms by (auto simp: push_queue_def Let_def split: prod.splits)
  have "quiet (upd_queue i k q e) e'" using assms p by (auto simp: push_queue_def Let_def intro!: quiet_foldl)
  from quiet_pool [OF this] show ?thesis by (simp add: upd_queue_def)
qed

lemma push_stopped: "pushToQueue i port data e = (ok, e') \<Longrightarrow> en_pool e' = en_pool e \<and> en_stopFlag e' = en_stopFlag e"
  using quiet_pool [OF quiet_field(8)]
  by (auto simp: pushToQueue_def split: option.splits prod.splits bool.splits dest!: push_queue_stopped)

lemma branch_stopped:
  assumes "route_branch H port data edge (r, j, d, e) = (r', j', d', e')" and "en_stopFlag e"
  shows "en_pool e' = en_pool e \<and> en_stopFlag e'"
  using assms by (auto simp: route_branch_def Let_def try_stopped upd_stats_def dest!: push_stopped split: if_splits prod.splits bool.splits)

lemma branches_stopped:
  assumes "foldl (\<lambda>s edge. route_branch H port data edge s) (r, j, d, e) es = (r', j', d', e')" and "en_stopFlag e"
  shows "en_pool e' = en_pool e"
  using assms
proof (induction es arbitrary: r j d e)
  case (Cons edge es)
  obtain r1 j1 d1 e1 where step: "route_branch H port data edge (r, j, d, e) = (r1, j1, d1, e1)" using prod_cases4 by blast
  show ?case using Cons.IH [of r1 j1 d1 e1] Cons.prems step branch_stopped [OF step] by simp
qed simp

lemma pushInput_stopped:
  assumes "pushInput H source port data e = (r, e')" and "en_stopFlag e"
  shows "en_pool e' = en_pool e"
proof -
  have stamp: "en_pool e1 = en_pool e \<and> en_stopFlag e1" if "stampIncomingFrame H d e = (d', e1)" for d d' e1
    using quiet_def stamp_quiet [OF that] assms(2) by metis
  show ?thesis
    using assms by (auto simp: pushInput_def routeToDownstream_def Let_def try_stopped upd_stats_def dest!: push_stopped stamp branches_stopped
        split: if_splits option.splits prod.splits bool.splits)
qed

lemma signal_stopped:
  assumes "signalEndOfStream H source port e = (r, e')" and "en_stopFlag e"
  shows "en_pool e' = en_pool e"
  using assms by (auto simp: signalEndOfStream_def Let_def try_stopped check_idle split: if_splits option.splits prod.splits bool.splits)

lemma timer_stopped: "en_stopFlag e \<Longrightarrow> en_pool (defer_timer H e) = en_pool e"
  by (auto simp: defer_timer_def Let_def try_stopped read_clock_def split: option.splits prod.splits)

lemma event_stopped:
  assumes "engine_event H ev e = Some e'" and "\<not> is_work ev" and "en_stopFlag e"
  shows "en_pool e' = en_pool e"
  using assms
  by (cases ev) (auto simp: timer_stopped watchdog_tick_def stopExecutionAsync_def
      intro: pushInput_stopped [OF prod.collapse [symmetric]] signal_stopped [OF prod.collapse [symmetric]])


fun on_worker :: "nat \<Rightarrow> ('v, 'w) event \<Rightarrow> bool" where
  "on_worker n (Work start w) = (w < n)"
| "on_worker n _ = True"

lemma worker_enabled:
  assumes "engine_inv e" and "w < workers e"
  shows "run_worker H start w e = None \<longleftrightarrow> queued e = 0"
proof -
  obtain p where p: "en_pool e = Some p" "w < length (tp_queues p)" using assms by (auto simp: engine_inv_def tasks_ok_def)
  obtain r p' where claim: "claim_task start w p = (r, p')" by fastforce
  show ?thesis
    using claim_outcome [OF p(2) claim] p claim by (cases r) (auto simp: run_worker_def)
qed

lemma active_queued: "engine_inv e \<Longrightarrow> en_activeTasks e = int (queued e)"
  by (simp add: engine_inv_def tasks_ok_def)

lemma event_total: "\<not> is_work ev \<Longrightarrow> \<exists>e'. engine_event H ev e = Some e'"
  by (cases ev) auto

lemma stopped_step:
  assumes "engine_inv e" and "en_stopFlag e" and "engine_event H ev e = Some e'"
  shows "engine_inv e' \<and> en_stopFlag e' \<and> workers e' = workers e \<and> queued e' + (if is_work ev then 1 else 0) = queued e"
proof (cases "is_work ev")
  case True
  then obtain start w where "ev = Work start w" by (cases ev) auto
  then have run: "run_worker H start w e = Some e'" using assms(3) by simp
  then show ?thesis
    using worker_step(4,5) [OF assms(1) run assms(2)] event_inv [OF assms(1,3)] assms(2) True by (simp add: progress_def)
next
  case False
  then show ?thesis using event_stopped [OF assms(3) False assms(2)] event_inv [OF assms(1,3)] assms(2) by (simp add: progress_def)
qed

lemma stopped_run:
  assumes "engine_inv e" and "en_stopFlag e" and "\<forall>ev\<in>set evs. on_worker (workers e) ev"
  shows "if works evs \<le> queued e then \<exists>e'. run_events H evs e = Some e' \<and> queued e' = queued e - works evs \<and> engine_inv e'
     else run_events H evs e = None"
  using assms
proof (induction evs arbitrary: e)
  case (Cons ev evs)
  show ?case
  proof (cases "engine_event H ev e")
    case None
    then obtain start w where "ev = Work start w" using event_total [of ev H e] by (cases ev) auto
    then have "queued e = 0" "is_work ev" using None Cons.prems worker_enabled [of e w H start] by auto
    then show ?thesis using None by simp
  next
    case (Some e1)
    note step = stopped_step [OF Cons.prems(1,2) Some]
    show ?thesis using Cons.IH [of e1] step Cons.prems(3) Some by (auto split: if_splits)
  qed
qed simp

section \<open>The tasks of a batch\<close>









section \<open>Starting\<close>

text \<open>An initialized engine without tasks, and one whose nodes have not been touched.\<close>

definition idle_ok :: "('v, 'w) Engine \<Rightarrow> bool" where
  "idle_ok e \<longleftrightarrow> static_ok e \<and> en_pool e \<noteq> None \<and> own_thread (en_worker e) (the (en_pool e)) \<and> queued e = 0"

definition untouched :: "('v, 'w) Engine \<Rightarrow> bool" where
  "untouched e \<longleftrightarrow> (\<forall>st\<in>set (en_states e). nd_exec_state st = WAITING \<and> nd_eos_mask st = 0 \<and> \<not> nd_eos_propagated st) \<and>
     en_activeTasks e = 0 \<and> en_sinksAtEos e = 0 \<and> \<not> en_endOfStreamReached e"

lemma untouched_inv:
  assumes "idle_ok e" and "untouched e"
  shows "engine_inv e"
proof -
  have node: "exec_of e i = WAITING" "nd_eos_mask (en_states e ! i) = 0" "\<not> flushed e i" if "i < nodes_of e" for i
    using assms(2) that by (simp_all add: untouched_def)
  have "\<not> allInputPortsDrained (en_states e ! i)" if "i < nodes_of e" for i
    using node(2) [OF that] by (auto simp: allInputPortsDrained_def portDrained_def portEosLatched_def list_all_iff)
  then have "settled {} e" by (simp add: settled_def settled_at_def)
  moreover have "ready_nodes e = {}" using node(1) by (auto simp: ready_nodes_def)
  then have "tasks_ok 0 e" using assms by (auto simp: tasks_ok_def idle_ok_def untouched_def)
  moreover have "flushed_sinks e = {}" using node(3) by (auto simp: flushed_sinks_def)
  then have "eos_ok {} e" using assms(2) node(3) by (auto simp: eos_ok_def untouched_def)
  moreover have "no_running e" using node(1) by (simp add: no_running_def)
  ultimately show ?thesis using assms(1) by (simp add: engine_inv_def idle_ok_def)
qed

lemma inv_idle: "engine_inv e \<Longrightarrow> en_activeTasks e = 0 \<Longrightarrow> idle_ok e"
  by (simp add: engine_inv_def tasks_ok_def idle_ok_def)

lemma setup_loop_only: "setup_loop H ctx is e = (r, e') \<Longrightarrow> \<exists>w ns. e' = e \<lparr> en_world := w, en_setUpNodes := ns \<rparr>"
proof (induction "is" arbitrary: e)
  case Nil
  then have "e' = e \<lparr> en_world := en_world e, en_setUpNodes := en_setUpNodes e \<rparr>" by simp
  then show ?case by blast
next
  case (Cons i "is")
  define node where "node = cg_nodes (the_graph e) ! i"
  obtain res w where run: "hk_setup H node ctx (en_world e) = (res, w)" by fastforce
  show ?case
  proof (cases "void_isOk (setup_result (getName (hk_env H node)) res)")
    case True
    then have "setup_loop H ctx is (e \<lparr> en_world := w, en_setUpNodes := en_setUpNodes e @ [node] \<rparr>) = (r, e')"
      using Cons.prems run by (simp add: node_def Let_def)
    from Cons.IH [OF this] show ?thesis by simp
  next
    case False
    then have "e' = teardownNodes H (e \<lparr> en_world := w \<rparr>)" using Cons.prems run by (simp add: node_def Let_def)
    then show ?thesis by (auto simp: teardownNodes_def)
  qed
qed

lemma setupNodes_only:
  assumes "setupNodes H ctx e = (r, e')"
  shows "\<exists>w ns. e' = e \<lparr> en_world := w, en_setUpNodes := ns \<rparr>"
proof (cases "en_setUpNodes e = []")
  case True
  then show ?thesis using assms by (simp add: setupNodes_def setup_loop_only)
next
  case False
  then have "e' = e \<lparr> en_world := en_world e, en_setUpNodes := en_setUpNodes e \<rparr>" using assms by (simp add: setupNodes_def)
  then show ?thesis by blast
qed

lemma reset_statistics_fields:
  "en_states (reset_statistics H e) = en_states e" "en_pool (reset_statistics H e) = en_pool e" "en_worker (reset_statistics H e) = en_worker e"
  "en_activeTasks (reset_statistics H e) = en_activeTasks e" "en_sinksAtEos (reset_statistics H e) = en_sinksAtEos e" "en_endOfStreamReached (reset_statistics H e) = en_endOfStreamReached e"
  "en_streamingMode (reset_statistics H e) = en_streamingMode e" "en_stopFlag (reset_statistics H e) = en_stopFlag e" "en_compiled (reset_statistics H e) = en_compiled e"
  "en_sinkCount (reset_statistics H e) = en_sinkCount e" "en_callbacks (reset_statistics H e) = en_callbacks e" "en_calls (reset_statistics H e) = en_calls e"
  by (simp_all add: reset_statistics_def upd_stats_def read_clock_def split: prod.split)

lemma reset_cancellation_fields:
  "en_states (reset_cancellation ctx e) = en_states e" "en_pool (reset_cancellation ctx e) = en_pool e" "en_worker (reset_cancellation ctx e) = en_worker e"
  "en_activeTasks (reset_cancellation ctx e) = en_activeTasks e" "en_sinksAtEos (reset_cancellation ctx e) = en_sinksAtEos e" "en_endOfStreamReached (reset_cancellation ctx e) = en_endOfStreamReached e"
  "en_streamingMode (reset_cancellation ctx e) = en_streamingMode e" "en_stopFlag (reset_cancellation ctx e) = en_stopFlag e" "en_compiled (reset_cancellation ctx e) = en_compiled e"
  "en_sinkCount (reset_cancellation ctx e) = en_sinkCount e" "en_callbacks (reset_cancellation ctx e) = en_callbacks e" "en_calls (reset_cancellation ctx e) = en_calls e"
  by (simp_all add: reset_cancellation_def split: option.split)

lemma startStreaming_inv:
  assumes "idle_ok e" and "untouched e" and "startStreaming H ctx e = (r, e')" and "void_isOk r"
  shows "engine_inv e'" and "en_streamingMode e'" and "\<not> en_stopFlag e'" and "en_states e' = en_states e" and "en_compiled e' = en_compiled e"
    and "en_sinkCount e' = en_sinkCount e" and "en_callbacks e' = en_callbacks e" and "en_calls e' = en_calls e"
    and "\<not> en_endOfStreamReached e'" and "untouched e'"
proof -
  obtain r1 e1 where ready: "setupNodes H ctx e = (r1, e1)" by fastforce
  obtain w ns where e1: "e1 = e \<lparr> en_world := w, en_setUpNodes := ns \<rparr>" using setupNodes_only [OF ready] by blast
  define e2 where "e2 = reset_statistics H ((reset_cancellation ctx e1) \<lparr> en_context := ctx, en_completionReported := False, en_streamingMode := True,
      en_stopFlag := False, en_state := EngineRUNNING \<rparr>)"
  have "e' = e2 \<or> e' = e2 \<lparr> en_watchdog := True \<rparr>"
    using assms(3,4) ready by (auto simp: startStreaming_def e2_def Let_def startJoinTimeoutWatchdog_def stopJoinTimeoutWatchdog_def split: if_splits)
  then have e': "en_states e' = en_states e" "en_pool e' = en_pool e" "en_worker e' = en_worker e" "en_activeTasks e' = en_activeTasks e"
    "en_sinksAtEos e' = en_sinksAtEos e" "en_endOfStreamReached e' = en_endOfStreamReached e" "en_streamingMode e'" "\<not> en_stopFlag e'"
    "en_compiled e' = en_compiled e" "en_sinkCount e' = en_sinkCount e" "en_callbacks e' = en_callbacks e" "en_calls e' = en_calls e"
    by (elim disjE; simp add: e2_def e1 reset_statistics_fields reset_cancellation_fields)+
  have "idle_ok e'" using assms(1) e' by (simp add: idle_ok_def static_ok_def)
  moreover show "untouched e'" using assms(2) e' by (simp add: untouched_def)
  ultimately show "engine_inv e'" by (rule untouched_inv)
  show "en_streamingMode e'" "\<not> en_stopFlag e'" "en_states e' = en_states e" "en_compiled e' = en_compiled e"
    "en_sinkCount e' = en_sinkCount e" "en_callbacks e' = en_callbacks e" "en_calls e' = en_calls e" "\<not> en_endOfStreamReached e'"
    using e' assms(2) by (simp_all add: untouched_def)
qed





text \<open>What \<open>initialize\<close> leaves behind.\<close>

lemma new_port_queue_cap:
  assumes "queue_capacity config (nd_queue_config st) \<le> 2 ^ 63"
  shows "0 < pq_cap (new_port_queue config st port)"
proof -
  define c :: "64 word" where "c = of_nat (queue_capacity config (nd_queue_config st))"
  have "unat c = queue_capacity config (nd_queue_config st)" using assms by (simp add: c_def unsigned_of_nat take_bit_nat_eq_self_iff)
  then have "unat (if c < 2 then 2 else c) \<le> 2 ^ 63" using assms by simp
  then obtain k where k: "k \<le> 63" "roundUpPowerOf2 (if c < 2 then 2 else c) = 2 ^ k" using roundUpPowerOf2_power by metis
  have "pq_cap (new_port_queue config st port) = unat (roundUpPowerOf2 (if c < 2 then 2 else c))"
    by (simp add: new_port_queue_def pq_new_def c_def)
  then show ?thesis using k unat_pow2 [OF k(1)] by simp
qed

definition ready_graph :: "('v, 'w) hooks \<Rightarrow> Graph \<Rightarrow> ('v, 'w) Engine \<Rightarrow> bool" where
  "ready_graph H G e \<longleftrightarrow> wf_graph (hk_env H) G \<and> compile_fits (hk_env H) G \<and>
     (\<forall>p\<in>set (m_nodes G). distinct (getExpectedInputPorts (hk_env H p)) \<and>
        queue_capacity (en_config e) (getNodeQueueConfig (getName (hk_env H p)) e) \<le> 2 ^ 63) \<and>
     0 < ec_num_workers (en_config e)"

lemma initialize_okD:
  assumes "initialize H (Some G) n e0 = (r, e1)" and "void_isOk r" and "wf_graph (hk_env H) G" and "compile_fits (hk_env H) G"
  obtains cg e2 where "compile (hk_env H) G = Some (ResOk cg)" and "en_compiled e2 = Some cg"
    and "en_pool e2 = Some (new_pool (ec_num_workers (en_config e2)) 256)" and "en_worker e2 = en_worker e0"
    and "en_sinksAtEos e2 = en_sinksAtEos e0" and "en_endOfStreamReached e2 = en_endOfStreamReached e0"
    and "en_callbacks e2 = en_callbacks e0" and "en_calls e2 = en_calls e0" and "en_scheduler e2 = en_scheduler e0" and "en_setUpNodes e2 = []"
    and "en_config e2 = (if n > 0 then (en_config e0) \<lparr> ec_num_workers := n \<rparr> else en_config e0)" and "en_nodeQueueConfigs e2 = en_nodeQueueConfigs e0"
    and "e1 = reset_statistics H ((track_nodes (initializeQueues H (initializeNodeStates H e2)))
       \<lparr> en_activeTasks := 0, en_completionReported := False, en_stopFlag := False, en_streamingMode := False, en_state := EngineIDLE \<rparr>)"
proof -
  define ea where "ea = teardownNodes H (stopDeferTimer (stopJoinTimeoutWatchdog e0))"
  obtain cg where cg: "compile (hk_env H) G = Some (ResOk cg)"
    using assms(1,2) compile_errorCode [OF assms(3,4)]
    by (auto simp: initialize_def Let_def ea_def void_isOk_def Error_isOk_def split: option.splits result.splits)
  define eb where "eb = ea \<lparr> en_compiled := Some cg, en_config := (if n > 0 then (en_config ea) \<lparr> ec_num_workers := n \<rparr> else en_config ea) \<rparr>"
  define e2 where "e2 = eb \<lparr> en_pool := Some (new_pool (ec_num_workers (en_config eb)) 256), en_sync := sync_initialize (hk_order H) (hk_env H) cg (en_sync eb) \<rparr>"
  have ea: "en_worker ea = en_worker e0" "en_sinksAtEos ea = en_sinksAtEos e0" "en_endOfStreamReached ea = en_endOfStreamReached e0"
    "en_callbacks ea = en_callbacks e0" "en_calls ea = en_calls e0" "en_scheduler ea = en_scheduler e0" "en_setUpNodes ea = []"
    "en_config ea = en_config e0" "en_nodeQueueConfigs ea = en_nodeQueueConfigs e0"
    by (simp_all add: ea_def teardownNodes_def stopDeferTimer_def stopJoinTimeoutWatchdog_def)
  have "e1 = reset_statistics H ((track_nodes (initializeQueues H (initializeNodeStates H e2)))
       \<lparr> en_activeTasks := 0, en_completionReported := False, en_stopFlag := False, en_streamingMode := False, en_state := EngineIDLE \<rparr>)"
    using assms(1) cg by (simp add: initialize_def Let_def ea_def [symmetric] eb_def e2_def)
  then show thesis using that [OF cg, of e2] ea by (simp add: e2_def eb_def)
qed

lemma initialized_states:
  fixes e2 :: "('v, 'w) Engine" and H :: "('v, 'w) hooks"
  defines "e3 \<equiv> track_nodes (initializeQueues H (initializeNodeStates H e2))"
  assumes "i < nodeCount (the_graph e2)"
  shows "nd_index (en_states e3 ! i) = i" and "nd_input_ports (en_states e3 ! i) = getExpectedInputPorts (hk_env H (cg_nodes (the_graph e2) ! i))"
    and "nd_exec_state (en_states e3 ! i) = WAITING" and "nd_eos_mask (en_states e3 ! i) = 0" and "\<not> nd_eos_propagated (en_states e3 ! i)"
    and "nd_node (en_states e3 ! i) = cg_nodes (the_graph e2) ! i"
    and "\<exists>st. nd_queue_config st = getNodeQueueConfig (getName (hk_env H (cg_nodes (the_graph e2) ! i))) e2 \<and>
       nd_queues (en_states e3 ! i) = map (new_port_queue (en_config e2) st) (nd_input_ports (en_states e3 ! i))"
proof -
  define name where "name = getName (hk_env H (cg_nodes (the_graph e2) ! i))"
  define st :: "'v NodeState" where "st = new_node_state (cg_nodes (the_graph e2) ! i) name i (getNodeQueueConfig name e2)"
  define ports where "ports = getExpectedInputPorts (hk_env H (cg_nodes (the_graph e2) ! i))"
  have eq: "\<exists>b. en_states e3 ! i = st \<lparr> nd_input_ports := ports, nd_queues := map (new_port_queue (en_config e2) st) ports, nd_sync_tracked := b \<rparr>"
    using assms(2) by (auto simp: e3_def track_nodes_def initializeQueues_def initializeNodeStates_def Let_def st_def ports_def name_def new_node_state_def)
  then show "nd_index (en_states e3 ! i) = i" "nd_exec_state (en_states e3 ! i) = WAITING" "nd_eos_mask (en_states e3 ! i) = 0"
    "nd_input_ports (en_states e3 ! i) = getExpectedInputPorts (hk_env H (cg_nodes (the_graph e2) ! i))"
    "\<not> nd_eos_propagated (en_states e3 ! i)" "nd_node (en_states e3 ! i) = cg_nodes (the_graph e2) ! i"
    by (auto simp: st_def new_node_state_def ports_def)
  have "nd_queue_config st = getNodeQueueConfig name e2" by (simp add: st_def new_node_state_def)
  then show "\<exists>st. nd_queue_config st = getNodeQueueConfig (getName (hk_env H (cg_nodes (the_graph e2) ! i))) e2 \<and>
       nd_queues (en_states e3 ! i) = map (new_port_queue (en_config e2) st) (nd_input_ports (en_states e3 ! i))"
    using eq unfolding name_def by auto
qed


lemma initialized:
  assumes "initialize H (Some G) n e0 = (r, e1)" and "void_isOk r" and "ready_graph H G e1" and "en_worker e0 = None"
  shows "idle_ok e1" and "\<exists>order. en_compiled e1 = Some (compiled_with (hk_env H) G order)" and "nodes_of e1 = length (m_nodes G)"
    and "i < length (m_nodes G) \<Longrightarrow> nd_input_ports (en_states e1 ! i) = getExpectedInputPorts (hk_env H (m_nodes G ! i))"
    and "en_sinkCount e1 = card {i. i < nodes_of e1 \<and> isSink (the_graph e1) i}"
    and "en_sinksAtEos e0 = 0 \<Longrightarrow> \<not> en_endOfStreamReached e0 \<Longrightarrow> untouched e1"
    and "en_callbacks e1 = en_callbacks e0" and "en_calls e1 = en_calls e0" and "en_scheduler e1 = en_scheduler e0"
    and "en_setUpNodes e1 = []" and "en_state e1 = EngineIDLE" and "i < length (m_nodes G) \<Longrightarrow> \<forall>q\<in>set (nd_queues (en_states e1 ! i)). pq_items q = []"
proof -
  have g: "wf_graph (hk_env H) G" "compile_fits (hk_env H) G"
    and ports: "\<And>p. p \<in> set (m_nodes G) \<Longrightarrow> distinct (getExpectedInputPorts (hk_env H p))"
    and caps: "\<And>p. p \<in> set (m_nodes G) \<Longrightarrow> queue_capacity (en_config e1) (getNodeQueueConfig (getName (hk_env H p)) e1) \<le> 2 ^ 63"
    and workers: "0 < ec_num_workers (en_config e1)"
    using assms(3) by (simp_all add: ready_graph_def)
  obtain cg e2 where cg: "compile (hk_env H) G = Some (ResOk cg)" "en_compiled e2 = Some cg"
    and e2: "en_pool e2 = Some (new_pool (ec_num_workers (en_config e2)) 256)" "en_worker e2 = en_worker e0"
      "en_sinksAtEos e2 = en_sinksAtEos e0" "en_endOfStreamReached e2 = en_endOfStreamReached e0" "en_callbacks e2 = en_callbacks e0" "en_calls e2 = en_calls e0" "en_scheduler e2 = en_scheduler e0" "en_setUpNodes e2 = []"
    and e1: "e1 = reset_statistics H ((track_nodes (initializeQueues H (initializeNodeStates H e2)))
       \<lparr> en_activeTasks := 0, en_completionReported := False, en_stopFlag := False, en_streamingMode := False, en_state := EngineIDLE \<rparr>)"
    using initialize_okD [OF assms(1,2) g] by metis
  define e3 where "e3 = track_nodes (initializeQueues H (initializeNodeStates H e2))"
  obtain order where order: "cg = compiled_with (hk_env H) G order" using compile_okD [OF g cg(1)] by metis
  have nodes: "cg_nodes cg = m_nodes G" by (simp add: order compiled_with_simps)
  have graph: "the_graph e2 = cg" "nodeCount (the_graph e2) = length (m_nodes G)" using cg(2) nodes by (simp_all add: the_graph_def nodeCount_def)
  have f3: "en_pool e3 = en_pool e2" "en_worker e3 = en_worker e2" "en_sinksAtEos e3 = en_sinksAtEos e2" "en_compiled e3 = en_compiled e2"
    "en_endOfStreamReached e3 = en_endOfStreamReached e2" "en_callbacks e3 = en_callbacks e2" "en_calls e3 = en_calls e2"
    "en_scheduler e3 = en_scheduler e2" "en_setUpNodes e3 = en_setUpNodes e2"
    "en_config e3 = en_config e2" "en_nodeQueueConfigs e3 = en_nodeQueueConfigs e2" "nodes_of e3 = nodeCount (the_graph e2)"
    "en_sinkCount e3 = length (filter (isSink (the_graph e2)) [0..<nodeCount (the_graph e2)])"
    by (simp_all add: e3_def track_nodes_def initializeQueues_def initializeNodeStates_def Let_def)
  have f1: "en_states e1 = en_states e3" "en_pool e1 = en_pool e2" "en_worker e1 = en_worker e0" "en_sinksAtEos e1 = en_sinksAtEos e0" "en_compiled e1 = Some cg"
    "en_endOfStreamReached e1 = en_endOfStreamReached e0" "en_callbacks e1 = en_callbacks e0" "en_calls e1 = en_calls e0" "en_activeTasks e1 = 0"
    "en_sinkCount e1 = en_sinkCount e3"
    unfolding e1 e3_def [symmetric] using f3 e2 cg(2) by (simp_all add: reset_statistics_fields)
  have c1: "en_config e1 = en_config e2" "en_nodeQueueConfigs e1 = en_nodeQueueConfigs e2" "en_scheduler e1 = en_scheduler e2" "en_setUpNodes e1 = en_setUpNodes e2"
    "en_state e1 = EngineIDLE"
    unfolding e1 e3_def [symmetric] using f3 by (simp_all add: reset_statistics_def upd_stats_def read_clock_def split: prod.split)
  show n: "nodes_of e1 = length (m_nodes G)" using f1(1) f3(12) graph(2) by simp
  note state = initialized_states [where ?e2.0 = e2 and H = H, folded e3_def]
  have node: "nd_index (en_states e1 ! i) = i" "exec_of e1 i = WAITING" "nd_eos_mask (en_states e1 ! i) = 0" "\<not> flushed e1 i"
      "nd_input_ports (en_states e1 ! i) = getExpectedInputPorts (hk_env H (m_nodes G ! i))" if "i < length (m_nodes G)" for i
    using state [of i] that graph nodes f1(1) by simp_all
  then show "i < length (m_nodes G) \<Longrightarrow> nd_input_ports (en_states e1 ! i) = getExpectedInputPorts (hk_env H (m_nodes G ! i))" by simp
  have "node_static i (en_states e1 ! i)" if i: "i < length (m_nodes G)" for i
  proof -
    obtain st where st: "nd_queue_config st = getNodeQueueConfig (getName (hk_env H (m_nodes G ! i))) e2"
        "nd_queues (en_states e3 ! i) = map (new_port_queue (en_config e2) st) (nd_input_ports (en_states e3 ! i))"
      using state(7) [of i] i graph nodes by auto
    have "getNodeQueueConfig name e1 = getNodeQueueConfig name e2" for name unfolding getNodeQueueConfig_def c1 by (rule refl)
    then have "queue_capacity (en_config e2) (nd_queue_config st) \<le> 2 ^ 63" using caps [OF nth_mem [OF i]] st(1) c1(1) by simp
    then show ?thesis using node [OF i] ports [OF nth_mem [OF i]] st(2) f1(1) by (auto simp: node_static_def new_port_queue_cap)
  qed
  then have "static_ok e1" using n by (simp add: static_ok_def)
  moreover have "own_thread None (new_pool (ec_num_workers (en_config e2)) 256)" "pool_tasks (new_pool (ec_num_workers (en_config e2)) 256 :: task ThreadPool) = []"
    using workers c1 by (simp_all add: own_thread_def new_pool_def new_pool_config_def pool_tasks_def)
  ultimately show "idle_ok e1" using f1 e2 assms(4) by (simp add: idle_ok_def)
  show "\<exists>order. en_compiled e1 = Some (compiled_with (hk_env H) G order)" using f1(5) order by blast
  show "en_sinkCount e1 = card {i. i < nodes_of e1 \<and> isSink (the_graph e1) i}"
  proof -
    have "en_sinkCount e1 = length (filter (isSink cg) [0..<nodes_of e1])" using f1(10) f3(12,13) graph f1(1) by simp
    also have "\<dots> = card (set (filter (isSink cg) [0..<nodes_of e1]))" by (rule distinct_card [symmetric]) simp
    also have "set (filter (isSink cg) [0..<nodes_of e1]) = {i. i < nodes_of e1 \<and> isSink (the_graph e1) i}" using f1(5) by (auto simp: the_graph_def)
    finally show ?thesis .
  qed
  show "en_sinksAtEos e0 = 0 \<Longrightarrow> \<not> en_endOfStreamReached e0 \<Longrightarrow> untouched e1"
    using node n f1 by (auto simp: untouched_def in_set_conv_nth)
  show "en_callbacks e1 = en_callbacks e0" "en_calls e1 = en_calls e0" "en_scheduler e1 = en_scheduler e0" "en_setUpNodes e1 = []" "en_state e1 = EngineIDLE"
    using f1 c1 e2 by simp_all
  show "i < length (m_nodes G) \<Longrightarrow> \<forall>q\<in>set (nd_queues (en_states e1 ! i)). pq_items q = []"
    using state(7) [of i] graph nodes f1(1) by (auto simp: new_port_queue_def pq_new_def)
qed


section \<open>The end of a stream\<close>

text \<open>Every port of a node with predecessors is fed by an edge; the predecessor comes earlier.\<close>

lemma compiled_graph_facts:
  assumes "wf_graph ni G" and "compile_fits ni G" and "compile ni G = Some (ResOk cg)"
  shows "acyclic (index_rel G)" and "\<not> starved_port ni G p k"
proof -
  have "acyclic (graph_rel G) \<and> (\<nexists>p k. starved_port ni G p k)"
    using compile_errorCode [OF assms(1,2)] assms(3) by (auto split: if_splits)
  then show "acyclic (index_rel G)" "\<not> starved_port ni G p k" using index_rel_acyclic [OF assms(1)] by auto
qed





lemma sink_exists:
  assumes "wf_graph ni G" and "acyclic (index_rel G)" and "m_nodes G \<noteq> []"
  shows "\<exists>i<length (m_nodes G). isSink (compiled_with ni G order) i"
proof -
  have "finite (index_rel G)" by (simp add: index_rel_def)
  then have "wf ((index_rel G)\<inverse>)" using assms(2) by (rule finite_acyclic_wf_converse)
  moreover have "0 \<in> {..<length (m_nodes G)}" using assms(3) by simp
  ultimately obtain i where i: "i < length (m_nodes G)" "\<And>j. (i, j) \<in> index_rel G \<Longrightarrow> \<not> j < length (m_nodes G)"
    by (rule wfE_min) auto
  have "isSink (compiled_with ni G order) i"
  proof (rule ccontr)
    assume "\<not> isSink (compiled_with ni G order) i"
    then obtain e where e: "e \<in> set (m_edges G)" "source_node e = m_nodes G ! i"
      using i(1) by (auto simp: isSink_def compiled_with_simps filter_empty_conv)
    have "dest_node e \<in> set (m_nodes G)" using assms(1) e(1) by (simp add: wf_graph_def)
    then have "node_index G (dest_node e) < length (m_nodes G)" by (rule node_index [OF assms(1)])
    moreover have "(i, node_index G (dest_node e)) \<in> index_rel G"
      using e node_index_nth [OF assms(1) i(1)] by (force simp: index_rel_def)
    ultimately show False using i(2) by blast
  qed
  then show ?thesis using i(1) by blast
qed

text \<open>The fields of a new engine the run starts from.\<close>

lemma new_engine_fields:
  "en_worker (new_engine config world now) = None" "en_sinksAtEos (new_engine config world now) = 0"
  "\<not> en_endOfStreamReached (new_engine config world now)" "en_calls (new_engine config world now) = []"
  by (simp_all add: new_engine_def configureForMode_def split: ExecutionMode.split)

text \<open>Everything a started stream comes with.\<close>

lemma started_stream:
  assumes "initialize H (Some G) n (setEndOfStreamCallback cb (new_engine config world now)) = (r0, e1)" and "void_isOk r0" and "ready_graph H G e1"
    and "startStreaming H ctx e1 = (r1, e2)" and "void_isOk r1"
  shows "engine_inv e2" and "en_streamingMode e2" and "\<not> en_endOfStreamReached e2" and "en_calls e2 = []" and "cb_endOfStream (en_callbacks e2) = cb"
    and "\<exists>order. en_compiled e2 = Some (compiled_with (hk_env H) G order)" and "nodes_of e2 = length (m_nodes G)"
    and "i < length (m_nodes G) \<Longrightarrow> nd_input_ports (en_states e2 ! i) = getExpectedInputPorts (hk_env H (m_nodes G ! i))"
    and "en_sinkCount e2 = card {i. i < nodes_of e2 \<and> isSink (the_graph e2) i}"
proof -
  let ?e0 = "setEndOfStreamCallback cb (new_engine config world now) :: ('a, 'b) Engine"
  have e0: "en_worker ?e0 = None" "en_sinksAtEos ?e0 = 0" "\<not> en_endOfStreamReached ?e0" "en_calls ?e0 = []" "cb_endOfStream (en_callbacks ?e0) = cb"
    by (simp_all add: setEndOfStreamCallback_def new_engine_fields)
  note init = initialized [OF assms(1-3) e0(1)]
  have un: "untouched e1" by (rule init(6) [OF e0(2,3)])
  note start = startStreaming_inv [OF init(1) un assms(4,5)]
  show "engine_inv e2" "en_streamingMode e2" "\<not> en_endOfStreamReached e2" by (rule start)+
  show "en_calls e2 = []" "cb_endOfStream (en_callbacks e2) = cb" using start(7,8) init(7,8) e0(4,5) by simp_all
  show "\<exists>order. en_compiled e2 = Some (compiled_with (hk_env H) G order)" "nodes_of e2 = length (m_nodes G)"
    "i < length (m_nodes G) \<Longrightarrow> nd_input_ports (en_states e2 ! i) = getExpectedInputPorts (hk_env H (m_nodes G ! i))"
    "en_sinkCount e2 = card {i. i < nodes_of e2 \<and> isSink (the_graph e2) i}"
    using init(2-5) start(4,5,6) by (simp_all add: the_graph_def)
qed


text \<open>The one-node pipeline used to evaluate the results.\<close>

definition solo_env :: node_env where
  "solo_env p = \<lparr> getName = ''a'', getExpectedInputPorts = [''i''], getExpectedOutputPorts = [], portPayloadType = \<lambda>_. TypeVoid \<rparr>"

definition solo_graph :: Graph where
  "solo_graph = build_graph solo_env [AddNode (Some 0)]"

definition solo_hooks :: "(nat, nat) hooks" where
  "solo_hooks = demo_hooks \<lparr> hk_env := solo_env \<rparr>"

definition solo_config :: EngineConfig where
  "solo_config = default_EngineConfig \<lparr> ec_mode := STREAM, ec_enable_statistics := False \<rparr>"

definition solo_world :: "nat world" where
  "solo_world = \<lparr> wd_cancelled = (\<lambda>_. False), wd_ext = 10 \<rparr>"

lemma solo_graph_wf: "wf_graph solo_env solo_graph"
  by (simp add: solo_graph_def)

lemma solo_graph_parts: "m_nodes solo_graph = [0]" "m_edges solo_graph = []"
  by (simp_all add: solo_graph_def build_graph_def addNode_def emptyGraph_def solo_env_def)

lemma solo_graph_fits: "compile_fits solo_env solo_graph"
  by (simp add: compile_fits_def solo_graph_parts solo_env_def)

lemma solo_compiles: "\<exists>cg. compile solo_env solo_graph = Some (ResOk cg)"
proof -
  have "acyclic (graph_rel solo_graph)" by (simp add: graph_rel_def solo_graph_parts acyclic_def)
  moreover have "\<not> starved_port solo_env solo_graph p pi" for p pi by (auto simp: starved_port_def solo_graph_parts)
  moreover obtain r where "compile solo_env solo_graph = Some r"
    and "errorCode r = (if m_nodes solo_graph = [] then GraphEmpty
                    else if \<not> acyclic (graph_rel solo_graph) then GraphCycleDetected
                    else if \<exists>p pi. starved_port solo_env solo_graph p pi then InvalidConfiguration
                    else Ok)" and "errorCode r = Ok \<longrightarrow> isOk r"
    using compile_errorCode [OF solo_graph_wf solo_graph_fits] by blast
  ultimately have "compile solo_env solo_graph = Some r" "isOk r" by (simp_all add: solo_graph_parts)
  then show ?thesis by (cases r) auto
qed

lemma initialize_config:
  assumes "initialize H (Some G) n e0 = (r, e1)" and "void_isOk r" and "wf_graph (hk_env H) G" and "compile_fits (hk_env H) G"
  shows "en_config e1 = (if n > 0 then (en_config e0) \<lparr> ec_num_workers := n \<rparr> else en_config e0)" and "en_nodeQueueConfigs e1 = en_nodeQueueConfigs e0"
proof -
  obtain e2 where e2: "en_config e2 = (if n > 0 then (en_config e0) \<lparr> ec_num_workers := n \<rparr> else en_config e0)" "en_nodeQueueConfigs e2 = en_nodeQueueConfigs e0"
    and e1: "e1 = reset_statistics H ((track_nodes (initializeQueues H (initializeNodeStates H e2)))
       \<lparr> en_activeTasks := 0, en_completionReported := False, en_stopFlag := False, en_streamingMode := False, en_state := EngineIDLE \<rparr>)"
    using initialize_okD [OF assms] by metis
  have "en_config (reset_statistics H e) = en_config e" "en_nodeQueueConfigs (reset_statistics H e) = en_nodeQueueConfigs e" for e
    by (simp_all add: reset_statistics_def upd_stats_def read_clock_def split: prod.split)
  then have "en_config e1 = en_config e2" "en_nodeQueueConfigs e1 = en_nodeQueueConfigs e2"
    by (simp_all add: e1 track_nodes_def initializeQueues_def initializeNodeStates_def Let_def)
  then show "en_config e1 = (if n > 0 then (en_config e0) \<lparr> ec_num_workers := n \<rparr> else en_config e0)" "en_nodeQueueConfigs e1 = en_nodeQueueConfigs e0"
    using e2 by simp_all
qed

lemma solo_setup: "\<exists>e'. setup_loop solo_hooks ctx is e = (void_ok, e')"
  by (induction "is" arbitrary: e) (simp_all add: solo_hooks_def demo_hooks_def setup_result_def Let_def)

lemma solo_started:
  obtains e1 e2 where "initialize solo_hooks (Some solo_graph) 1 (setEndOfStreamCallback True (new_engine solo_config solo_world 0)) = (void_ok, e1)"
    and "ready_graph solo_hooks solo_graph e1" and "startStreaming solo_hooks None e1 = (void_ok, e2)"
    and "untouched e2" and "\<not> en_stopFlag e2" and "\<forall>q\<in>set (nd_queues (en_states e2 ! 0)). pq_items q = []"
proof -
  let ?e0 = "setEndOfStreamCallback True (new_engine solo_config solo_world 0) :: (nat, nat) Engine"
  have env: "hk_env solo_hooks = solo_env" by (simp add: solo_hooks_def)
  note g = solo_graph_wf [folded env] solo_graph_fits [folded env]
  obtain cg where cg: "compile solo_env solo_graph = Some (ResOk cg)" using solo_compiles by blast
  obtain e1 where init: "initialize solo_hooks (Some solo_graph) 1 ?e0 = (void_ok, e1)"
    using cg env by (simp add: initialize_def Let_def)
  have e0: "en_scheduler ?e0 = StreamSchedulerStrategy (default_StreamSchedulerConfig \<lparr> ss_auto_reschedule := True, ss_allow_partial_inputs := False, ss_min_interval := 0 \<rparr>)"
    "en_config ?e0 = solo_config" "en_nodeQueueConfigs ?e0 = Map.empty"
    by (simp_all add: setEndOfStreamCallback_def new_engine_def configureForMode_def solo_config_def default_EngineConfig_def)
  have "queue_capacity (en_config e1) (getNodeQueueConfig name e1) \<le> 2 ^ 63" "ec_num_workers (en_config e1) = 1" for name
    using initialize_config [OF init void_isOk_simps(1) g] e0(2,3)
    by (simp_all add: queue_capacity_def getNodeQueueConfig_def solo_config_def default_EngineConfig_def default_QueueConfig_def)
  then have ready: "ready_graph solo_hooks solo_graph e1"
    using g by (simp add: ready_graph_def env solo_graph_parts solo_env_def)
  have "en_worker ?e0 = None" by (simp add: setEndOfStreamCallback_def new_engine_fields)
  note i1 = initialized [OF init void_isOk_simps(1) ready this]
  obtain e' where "setupNodes solo_hooks None e1 = (void_ok, e')" using solo_setup i1(10) by (metis setupNodes_def)
  then obtain e2 where start: "startStreaming solo_hooks None e1 = (void_ok, e2)"
    using i1(9,11) e0(1) by (simp add: startStreaming_def Let_def)
  have un: "untouched e1" using i1(6) by (simp add: setEndOfStreamCallback_def new_engine_fields)
  note s = startStreaming_inv [OF i1(1) un start void_isOk_simps(1)]
  show thesis using that [OF init ready start s(10,3)] s(4) i1(12) [of 0] by (simp add: solo_graph_parts)
qed

section \<open>Properties\<close>




text \<open>
  C35. The bookkeeping of a running stream.  After any sequence of events since the start: the
  active-task counter is the number of tasks in the pool; there is exactly one task for every node that is
  ready and none for the others; no node is left executing or failed; the
  end of stream is reported if and only if all sinks were flushed, and the callback was
  called once if it was reported and not at all before.
\<close>

theorem stream_bookkeeping:
  assumes "initialize H (Some G) n (setEndOfStreamCallback cb (new_engine config world now)) = (r0, e1)" and "void_isOk r0" and "ready_graph H G e1"
    and "startStreaming H ctx e1 = (r1, e2)" and "void_isOk r1" and "run_events H evs e2 = Some e3"
  shows "en_activeTasks e3 = int (length (pool_tasks (the (en_pool e3)))) \<and>
     mset (map fst (pool_tasks (the (en_pool e3)))) = mset_set {i. i < length (en_states e3) \<and> nd_exec_state (en_states e3 ! i) = READY} \<and>
     (\<forall>st\<in>set (en_states e3). nd_exec_state st \<in> {WAITING, READY, COMPLETED}) \<and>
     (en_endOfStreamReached e3 \<longleftrightarrow> (\<forall>i<length (en_states e3). isSink (the_graph e3) i \<longrightarrow> nd_eos_propagated (en_states e3 ! i))) \<and>
     length (filter (\<lambda>c. c = EndOfStreamCall) (en_calls e3)) = of_bool (cb \<and> en_endOfStreamReached e3)"
proof -
  note start = started_stream [OF assms(1-5)]
  have g: "wf_graph (hk_env H) G" "compile_fits (hk_env H) G" using assms(3) by (simp_all add: ready_graph_def)
  obtain cg where cg: "compile (hk_env H) G = Some (ResOk cg)" using initialize_okD [OF assms(1,2) g] by metis
  have run: "engine_inv e3" "progress e2 e3" using run_inv [OF assms(6) start(1)] by simp_all
  have n: "nodes_of e3 = length (m_nodes G)" using progress_nodes [OF run(2)] start(7) by simp
  obtain order where order: "en_compiled e3 = Some (compiled_with (hk_env H) G order)" using start(6) run(2) by (auto simp: progress_def)
  let ?sinks = "{i. i < nodes_of e3 \<and> isSink (the_graph e3) i}"
  have sinks: "en_sinkCount e3 = card ?sinks"
    using start(9) run(2) progress_nodes [OF run(2)] by (simp add: progress_def the_graph_def)
  have "m_nodes G \<noteq> []" using cg compile_empty [of G "hk_env H"] by (auto simp: err_def)
  then obtain i where "i \<in> ?sinks"
    using sink_exists [OF g(1) compiled_graph_facts(1) [OF g cg], of order] n order by (auto simp: the_graph_def)
  then have "en_sinkCount e3 \<noteq> 0" unfolding sinks using card_0_eq [of ?sinks] by auto
  then have "en_endOfStreamReached e3 \<longleftrightarrow> card ?sinks \<le> card (flushed_sinks e3)"
    using run(1) sinks by (simp add: engine_inv_def eos_ok_def)
  also have "\<dots> \<longleftrightarrow> flushed_sinks e3 = ?sinks"
  proof -
    have "flushed_sinks e3 \<subseteq> ?sinks" "finite ?sinks" by (auto simp: flushed_sinks_def)
    then show ?thesis using card_seteq by (metis order_refl)
  qed
  also have "\<dots> \<longleftrightarrow> (\<forall>i<nodes_of e3. isSink (the_graph e3) i \<longrightarrow> flushed e3 i)" by (auto simp: flushed_sinks_def)
  finally have reached: "en_endOfStreamReached e3 \<longleftrightarrow> (\<forall>i<nodes_of e3. isSink (the_graph e3) i \<longrightarrow> flushed e3 i)" .
  have st: "en_streamingMode e3" using start(2) run(2) by (simp add: progress_def)
  have "nd_exec_state st \<in> {WAITING, READY, COMPLETED}" if "st \<in> set (en_states e3)" for st
    using that run(1) st by (cases "nd_exec_state st") (auto simp: engine_inv_def no_running_def in_set_conv_nth)
  moreover have "eos_calls e3 = of_bool (cb \<and> en_endOfStreamReached e3)" using run(2) start(3-5) by (auto simp: progress_def eos_calls_def)
  ultimately show ?thesis
    using reached run(1) active_queued [OF run(1)] by (simp add: eos_calls_def engine_inv_def tasks_ok_def ready_nodes_def)
qed

theorem stream_bookkeeping_witness:
  "\<exists>e1 e2 e3. initialize solo_hooks (Some solo_graph) 1 (setEndOfStreamCallback True (new_engine solo_config solo_world 0)) = (void_ok, e1) \<and>
     startStreaming solo_hooks None e1 = (void_ok, e2) \<and>
     run_events solo_hooks [Push ''a'' ''i'' (demo_frame 1), Retry, Signal ''a'' ''i'', Stop] e2 = Some e3 \<and>
     en_activeTasks e3 = int (length (pool_tasks (the (en_pool e3))))"
proof -
  obtain e1 e2 where init: "initialize solo_hooks (Some solo_graph) 1 (setEndOfStreamCallback True (new_engine solo_config solo_world 0)) = (void_ok, e1)"
    and ready: "ready_graph solo_hooks solo_graph e1" and start: "startStreaming solo_hooks None e1 = (void_ok, e2)"
    by (rule solo_started)
  obtain e3 where run: "run_events solo_hooks [Push ''a'' ''i'' (demo_frame 1), Retry, Signal ''a'' ''i'', Stop] e2 = Some e3" by simp
  show ?thesis
    using stream_bookkeeping [OF init void_isOk_simps(1) ready start void_isOk_simps(1) run] init start run by blast
qed

text \<open>
  C36. A stopped engine comes to rest.  From the moment the stop flag is set, whatever else
  happens, no task is added: every task a worker runs removes one, a worker finds
  a task exactly as long as there is one, and after as many tasks as were queued none is active, which is
  what stopping a stream and resetting the engine wait for.
\<close>

theorem stopped_engine_drains:
  assumes "engine_inv e" and "en_stopFlag e" and "\<forall>ev\<in>set evs. on_worker (length (tp_queues (the (en_pool e)))) ev"
  shows "if works evs \<le> length (pool_tasks (the (en_pool e)))
     then \<exists>e'. run_events H evs e = Some e' \<and> en_activeTasks e' = int (length (pool_tasks (the (en_pool e))) - works evs) \<and>
        (no_active_tasks e' \<longleftrightarrow> works evs = length (pool_tasks (the (en_pool e))))
     else run_events H evs e = None"
proof (cases "works evs \<le> queued e")
  case True
  then obtain e' where "run_events H evs e = Some e'" "queued e' = queued e - works evs" "engine_inv e'"
    using stopped_run [OF assms, of H] by auto
  then show ?thesis using True active_queued [of e'] by (auto simp: no_active_tasks_def)
next
  case False
  then show ?thesis using stopped_run [OF assms, of H] by simp
qed

text \<open>An engine with one node whose task is in the pool.\<close>

definition stopped_solo :: "(nat, nat) Engine" where
  "stopped_solo = (new_engine solo_config solo_world 0) \<lparr> en_pool := Some ((new_pool 1 256) \<lparr> tp_queues := [[(0, None, 0)]] \<rparr>),
     en_states := [(new_node_state 0 ''a'' 0 default_QueueConfig) \<lparr> nd_exec_state := READY \<rparr>],
     en_activeTasks := 1, en_streamingMode := True, en_stopFlag := True \<rparr>"

lemma stopped_solo_fields:
  "en_stopFlag stopped_solo" "en_pool stopped_solo = Some ((new_pool 1 256) \<lparr> tp_queues := [[(0, None, 0)]] \<rparr>)" "en_activeTasks stopped_solo = 1"
  "en_states stopped_solo = [(new_node_state 0 ''a'' 0 default_QueueConfig) \<lparr> nd_exec_state := READY \<rparr>]" "en_worker stopped_solo = None"
  "en_sinksAtEos stopped_solo = 0" "\<not> en_endOfStreamReached stopped_solo" "en_sinkCount stopped_solo = 0"
  by (simp_all add: stopped_solo_def new_engine_def configureForMode_def split: ExecutionMode.split)

lemma stopped_solo_inv: "engine_inv stopped_solo"
proof -
  have "ready_nodes stopped_solo = {0}" by (auto simp: ready_nodes_def stopped_solo_fields)
  then have "tasks_ok 0 stopped_solo" by (simp add: tasks_ok_def stopped_solo_fields own_thread_def pool_tasks_def)
  moreover have "flushed_sinks stopped_solo = {}" by (auto simp: flushed_sinks_def stopped_solo_fields new_node_state_def)
  ultimately show ?thesis
    by (simp add: engine_inv_def static_ok_def node_static_def stopped_solo_fields new_node_state_def settled_def settled_at_def eos_ok_def no_running_def)
qed

theorem stopped_engine_drains_witness:
  "length (pool_tasks (the (en_pool stopped_solo))) = 1 \<and> (\<exists>e'. run_events solo_hooks [Work 0 0] stopped_solo = Some e' \<and> en_activeTasks e' = 0) \<and>
   run_events solo_hooks [Work 0 0, Work 0 0] stopped_solo = None"
  using stopped_engine_drains [OF stopped_solo_inv stopped_solo_fields(1), of "[Work 0 0]" solo_hooks]
    stopped_engine_drains [OF stopped_solo_inv stopped_solo_fields(1), of "[Work 0 0, Work 0 0]" solo_hooks]
  by (auto simp: stopped_solo_fields pool_tasks_def simp del: run_events.simps)








end
