(* ===== verification/Pipelines.thy ===== *)
theory Pipelines
  imports Engine_Api
begin

text \<open>
  The facade of the library (\<open>pipeline.hpp\<close>, \<open>pipeline_impl.cpp\<close>): a pipeline owns a graph and an
  engine, guards every call by its own state and passes the callbacks of the engine on to
  observers and futures; the builder collects the configuration.

  The engine records its callbacks in the order in which it makes them.  \<open>upd_engine\<close> installs
  the engine after a call or a background step and runs the handlers for the callbacks that are
  new.  A handler sees whether the engine was streaming when the call began.  Control calls are serialized, as the header asks;
  what the workers do while a call waits is the argument \<open>others\<close>.
\<close>

section \<open>Data\<close>

datatype PipelineState = PipelineUNINITIALIZED | PipelineIDLE | PipelineRUNNING | PipelineSTOPPING | PipelineERROR

record PipelineOptions =
  po_mode :: ExecutionMode
  po_num_workers :: "8 word"
  po_execution_timeout :: int
  po_queue_capacity :: nat
  po_drop_strategy :: string
  po_enable_sync_coordination :: bool
  po_enable_statistics :: bool
  po_alignment_policy :: AlignmentPolicy
  po_alignment_tolerance :: int
  po_join_wait_timeout :: int
  po_join_timeout_policy :: JoinTimeoutPolicy

definition default_PipelineOptions :: PipelineOptions where
  "default_PipelineOptions = \<lparr> po_mode = BATCH, po_num_workers = 4, po_execution_timeout = 0, po_queue_capacity = 0,
     po_drop_strategy = ''DropHead'', po_enable_sync_coordination = False, po_enable_statistics = True,
     po_alignment_policy = AlignFrameId, po_alignment_tolerance = 33000, po_join_wait_timeout = 0,
     po_join_timeout_policy = PartialInputs \<rparr>"

definition batch_options :: "8 word \<Rightarrow> PipelineOptions" where
  "batch_options workers = default_PipelineOptions \<lparr> po_mode := BATCH, po_num_workers := workers, po_queue_capacity := 0,
     po_enable_sync_coordination := False \<rparr>"

definition stream_options :: "8 word \<Rightarrow> nat \<Rightarrow> PipelineOptions" where
  "stream_options workers queue_cap = default_PipelineOptions \<lparr> po_mode := STREAM, po_num_workers := workers,
     po_queue_capacity := queue_cap, po_enable_sync_coordination := True \<rparr>"

record 'v ExecutionOutput =
  eo_outputs :: "'v PortDataMap"
  eo_elapsed :: int

text \<open>What an observer is told.  A callback observer reacts to the events it has a function for.\<close>

datatype 'v notice =
    ExecutionStarted
  | ExecutionCompleted "'v PortDataMap"
  | ExecutionFailure error_t
  | FrameDropped string FrameId string
  | EndOfStream

record CallbackObserver =
  co_start :: bool
  co_result :: bool
  co_error :: bool
  co_drop :: bool

definition new_CallbackObserver :: CallbackObserver where
  "new_CallbackObserver = \<lparr> co_start = False, co_result = False, co_error = False, co_drop = False \<rparr>"

datatype observer = UserObserver ptr | BuilderObserver CallbackObserver

definition observer_reacts :: "observer \<Rightarrow> 'v notice \<Rightarrow> bool" where
  "observer_reacts ob n =
     (case ob of
        UserObserver _ \<Rightarrow> True
      | BuilderObserver co \<Rightarrow>
          (case n of ExecutionStarted \<Rightarrow> co_start co | ExecutionCompleted _ \<Rightarrow> co_result co | ExecutionFailure _ \<Rightarrow> co_error co
           | FrameDropped _ _ _ \<Rightarrow> co_drop co | EndOfStream \<Rightarrow> False))"

text \<open>The engine's result and error callbacks: the resident ones, or the pair that fulfils the promise \<open>k\<close> of \<open>runAsync\<close>.\<close>

datatype handler = Resident | OneShot nat Timestamp

record ('v, 'w) Pipeline =
  pl_graph :: "Graph option"
  pl_engine :: "('v, 'w) Engine option"
  pl_context :: "ptr option"
  pl_options :: PipelineOptions
  pl_customScheduler :: "ISchedulerStrategy option"
  pl_customSync :: "ISyncStrategy option"
  pl_state :: PipelineState
  pl_observers :: "observer option list"
  pl_lastResults :: "'v PortDataMap"
  pl_lastError :: "error_t option"
  pl_executionStart :: Timestamp
  pl_handler :: handler
  pl_promises :: "'v ExecutionOutput result option list"
  pl_notes :: "(observer \<times> 'v notice) list"

definition new_pipeline :: "('v, 'w) Pipeline" where
  "new_pipeline = \<lparr> pl_graph = None, pl_engine = None, pl_context = None, pl_options = default_PipelineOptions, pl_customScheduler = None,
     pl_customSync = None, pl_state = PipelineUNINITIALIZED, pl_observers = [], pl_lastResults = [], pl_lastError = None,
     pl_executionStart = 0, pl_handler = Resident, pl_promises = [], pl_notes = [] \<rparr>"

section \<open>Helpers\<close>

definition transitionTo :: "PipelineState \<Rightarrow> ('v, 'w) Pipeline \<Rightarrow> ('v, 'w) Pipeline" where
  "transitionTo new_state p = p \<lparr> pl_state := new_state \<rparr>"

definition notify :: "'v notice \<Rightarrow> ('v, 'w) Pipeline \<Rightarrow> ('v, 'w) Pipeline" where
  "notify n p = p \<lparr> pl_notes := pl_notes p @
     map (\<lambda>ob. (ob, n)) (filter (\<lambda>ob. observer_reacts ob n) (List.map_filter id (pl_observers p))) \<rparr>"

definition addObserver :: "observer option \<Rightarrow> ('v, 'w) Pipeline \<Rightarrow> ('v, 'w) Pipeline" where
  "addObserver ob p = p \<lparr> pl_observers := pl_observers p @ [ob] \<rparr>"

definition removeObserver :: "observer option \<Rightarrow> ('v, 'w) Pipeline \<Rightarrow> ('v, 'w) Pipeline" where
  "removeObserver ob p = p \<lparr> pl_observers := removeAll ob (pl_observers p) \<rparr>"

definition pipeline_isStreaming :: "('v, 'w) Pipeline \<Rightarrow> bool" where
  "pipeline_isStreaming p = (case pl_engine p of None \<Rightarrow> False | Some e \<Rightarrow> en_streamingMode e)"

definition isReady :: "('v, 'w) Pipeline \<Rightarrow> bool" where
  "isReady p \<longleftrightarrow> pl_state p = PipelineIDLE \<and> pl_engine p \<noteq> None \<and> pl_graph p \<noteq> None"

definition isRunning :: "('v, 'w) Pipeline \<Rightarrow> bool" where
  "isRunning p \<longleftrightarrow> pl_state p = PipelineRUNNING \<or> pl_state p = PipelineSTOPPING"

definition hasError :: "('v, 'w) Pipeline \<Rightarrow> bool" where
  "hasError p \<longleftrightarrow> pl_state p = PipelineERROR"

definition validateState :: "string \<Rightarrow> ('v, 'w) Pipeline \<Rightarrow> void_result" where
  "validateState operation p =
     (if pl_state p = PipelineUNINITIALIZED
      then void_err NotInitialized (''Cannot '' @ operation @ '' - pipeline not initialized'')
      else if pl_state p = PipelineERROR
      then void_err InvalidState (''Cannot '' @ operation @ '' - pipeline in error state. Call reset() first'')
      else if pl_state p = PipelineRUNNING \<or> pl_state p = PipelineSTOPPING
      then void_err AlreadyRunning (''Cannot '' @ operation @ '' - pipeline already running'')
      else if pl_engine p = None \<or> pl_graph p = None
      then void_err NotInitialized (''Cannot '' @ operation @ '' - missing engine or graph'')
      else void_ok)"

definition setupEngineCallbacks :: "('v, 'w) Pipeline \<Rightarrow> ('v, 'w) Pipeline" where
  "setupEngineCallbacks p = p \<lparr> pl_handler := Resident, pl_engine := map_option (\<lambda>e. setEndOfStreamCallback True (setEngineDropCallback True
     (setPipelineErrorCallback True (setPipelineResultCallback True e)))) (pl_engine p) \<rparr>"

definition fulfil :: "nat \<Rightarrow> 'v ExecutionOutput result \<Rightarrow> ('v, 'w) Pipeline \<Rightarrow> ('v, 'w) Pipeline" where
  "fulfil k r p = p \<lparr> pl_promises := (pl_promises p)[k := Some r] \<rparr>"

section \<open>Handlers of the engine's callbacks\<close>

definition result_handler :: "('v, 'w) hooks \<Rightarrow> bool \<Rightarrow> 'v PortDataMap \<Rightarrow> ('v, 'w) Pipeline \<Rightarrow> ('v, 'w) Pipeline" where
  "result_handler H streaming results p =
     (case pl_handler p of
        Resident \<Rightarrow>
          (let p = p \<lparr> pl_lastResults := results, pl_lastError := None \<rparr>;
               p = (if \<not> streaming \<and> pl_state p = PipelineRUNNING then transitionTo PipelineIDLE p else p)
           in notify (ExecutionCompleted results) p)
      | OneShot k started \<Rightarrow>
          (case read_clock H (the (pl_engine p)) of
             (now, e) \<Rightarrow>
               (let elapsed = duration_cast 1000000 (now - started);
                    p = transitionTo PipelineIDLE (p \<lparr> pl_engine := Some e \<rparr>);
                    p = setupEngineCallbacks (p \<lparr> pl_lastResults := results \<rparr>)
                in fulfil k (ResOk \<lparr> eo_outputs = results, eo_elapsed = elapsed \<rparr>) (notify (ExecutionCompleted results) p))))"

definition error_handler :: "bool \<Rightarrow> string \<Rightarrow> string \<Rightarrow> ('v, 'w) Pipeline \<Rightarrow> ('v, 'w) Pipeline" where
  "error_handler streaming message name p =
     (let er = Error_nodeException message name
      in case pl_handler p of
           Resident \<Rightarrow>
             (let p = p \<lparr> pl_lastError := Some er \<rparr>;
                  p = (if \<not> streaming then p \<lparr> pl_state := PipelineERROR \<rparr> else p)
              in notify (ExecutionFailure er) p)
         | OneShot k started \<Rightarrow>
             (let p = setupEngineCallbacks ((transitionTo PipelineERROR p) \<lparr> pl_lastError := Some er \<rparr>)
              in fulfil k (ResErr er) (notify (ExecutionFailure er) p)))"

definition deliver_call :: "('v, 'w) hooks \<Rightarrow> bool \<Rightarrow> 'v callback_call \<Rightarrow> ('v, 'w) Pipeline \<Rightarrow> ('v, 'w) Pipeline" where
  "deliver_call H streaming c p =
     (case c of
        ResultCall results \<Rightarrow> result_handler H streaming results p
      | ErrorCall message name \<Rightarrow> error_handler streaming message name p
      | DropCall name frame_id reason \<Rightarrow> notify (FrameDropped name frame_id reason) p
      | EndOfStreamCall \<Rightarrow> notify EndOfStream p)"

definition upd_engine :: "('v, 'w) hooks \<Rightarrow> ('v, 'w) Engine \<Rightarrow> ('v, 'w) Pipeline \<Rightarrow> ('v, 'w) Pipeline" where
  "upd_engine H e p =
     (let streaming = pipeline_isStreaming p; old = (case pl_engine p of None \<Rightarrow> 0 | Some e0 \<Rightarrow> length (en_calls e0))
      in foldl (\<lambda>p c. deliver_call H streaming c p) (p \<lparr> pl_engine := Some e \<rparr>) (drop old (en_calls e)))"

text \<open>A step of the workers or of a timer in the background.\<close>

definition background :: "('v, 'w) hooks \<Rightarrow> (('v, 'w) Engine \<Rightarrow> ('v, 'w) Engine option) \<Rightarrow> ('v, 'w) Pipeline \<Rightarrow> ('v, 'w) Pipeline option" where
  "background H step p = (case pl_engine p of None \<Rightarrow> None | Some e \<Rightarrow> map_option (\<lambda>e. upd_engine H e p) (step e))"


section \<open>Initialization\<close>

definition buildEngineConfig :: "PipelineOptions \<Rightarrow> EngineConfig" where
  "buildEngineConfig opts = default_EngineConfig \<lparr> ec_mode := po_mode opts, ec_num_workers := unat (po_num_workers opts),
     ec_default_queue_capacity := po_queue_capacity opts, ec_default_drop_strategy := po_drop_strategy opts,
     ec_enable_sync_coordination := po_enable_sync_coordination opts, ec_enable_statistics := po_enable_statistics opts,
     ec_alignment_policy := po_alignment_policy opts, ec_alignment_tolerance := po_alignment_tolerance opts,
     ec_join_wait_timeout := po_join_wait_timeout opts, ec_join_timeout_policy := po_join_timeout_policy opts \<rparr>"

text \<open>
  The engine is created in the world \<open>world\<close> at time \<open>now\<close>, and \<open>fresh\<close> is the address of the context that
  is made when none is given.  \<open>None\<close> stands for a cycle search that does not end; it always ends.
\<close>

definition install_scheduler :: "ISchedulerStrategy option \<Rightarrow> ('v, 'w) Engine \<Rightarrow> void_result \<times> ('v, 'w) Engine" where
  "install_scheduler strategy e = (if strategy = None then (void_ok, e) else setSchedulerStrategy strategy e)"

definition install_sync :: "('v, 'w) hooks \<Rightarrow> ISyncStrategy option \<Rightarrow> ('v, 'w) Engine \<Rightarrow> void_result \<times> ('v, 'w) Engine" where
  "install_sync H strategy e = (if strategy = None then (void_ok, e) else setSyncStrategy H (map_option sync_clone strategy) e)"

definition pipeline_initialize :: "('v, 'w) hooks \<Rightarrow> 'w world \<Rightarrow> Timestamp \<Rightarrow> ptr \<Rightarrow> Graph \<Rightarrow> ptr option \<Rightarrow> PipelineOptions \<Rightarrow>
    ISchedulerStrategy option \<Rightarrow> ISyncStrategy option \<Rightarrow> ('v, 'w) Pipeline \<Rightarrow> (void_result \<times> ('v, 'w) Pipeline) option" where
  "pipeline_initialize H world now fresh graph context opts scheduler sync p =
     (let p = p \<lparr> pl_options := opts, pl_graph := Some graph \<rparr>; failed = (\<lambda>r p. Some (r, p \<lparr> pl_state := PipelineERROR \<rparr>))
      in case hasCycle graph of
           None \<Rightarrow> None
         | Some True \<Rightarrow> failed (void_err GraphCycleDetected ''Pipeline graph contains a cycle'') p
         | Some False \<Rightarrow>
             (let p = p \<lparr> pl_customScheduler := scheduler, pl_customSync := sync \<rparr>
              in case install_scheduler scheduler (new_engine (buildEngineConfig opts) world now) of
                   (r, e) \<Rightarrow>
                     if \<not> void_isOk r then failed r (p \<lparr> pl_engine := Some e \<rparr>)
                     else case install_sync H sync e of
                       (r, e) \<Rightarrow>
                         if \<not> void_isOk r then failed r (p \<lparr> pl_engine := Some e \<rparr>)
                         else case initialize H (Some graph) (unat (po_num_workers opts)) e of
                           (r, e) \<Rightarrow>
                             if \<not> void_isOk r then failed r (p \<lparr> pl_engine := Some e \<rparr>)
                             else Some (void_ok, (setupEngineCallbacks (p \<lparr> pl_engine := Some e,
                                    pl_context := Some (case context of Some c \<Rightarrow> c | None \<Rightarrow> fresh) \<rparr>)) \<lparr> pl_state := PipelineIDLE \<rparr>)))"

section \<open>Batch execution\<close>

text \<open>The start of an execution: the state, the start time and the observers.\<close>

definition claim_running :: "('v, 'w) hooks \<Rightarrow> ('v, 'w) Pipeline \<Rightarrow> ('v, 'w) Pipeline" where
  "claim_running H p =
     (case read_clock H (the (pl_engine p)) of
        (now, e) \<Rightarrow> notify ExecutionStarted ((transitionTo PipelineRUNNING p) \<lparr> pl_engine := Some e, pl_executionStart := now \<rparr>))"

definition pipeline_run :: "('v, 'w) hooks \<Rightarrow> ('v, 'w) others \<Rightarrow> 'v PortDataMap \<Rightarrow> int option \<Rightarrow> ('v, 'w) Pipeline \<Rightarrow> 'v ExecutionOutput result \<times> ('v, 'w) Pipeline" where
  "pipeline_run H others inputs timeout p =
     (if \<not> void_isOk (validateState ''run'' p) then (ResErr (void_error (validateState ''run'' p)), p)
      else let actual_timeout = (case timeout of Some t \<Rightarrow> t | None \<Rightarrow> po_execution_timeout (pl_options p));
               p = claim_running H p;
               engine_timeout = (if actual_timeout > 0 then Some (nat actual_timeout) else None)
           in case execute H others inputs True (pl_context p) engine_timeout (the (pl_engine p)) of
                (exec_result, e) \<Rightarrow>
                  (let p = upd_engine H e p
                   in case read_clock H (the (pl_engine p)) of
                        (now, e) \<Rightarrow>
                          (let p = p \<lparr> pl_engine := Some e \<rparr>; elapsed = duration_cast 1000000 (now - pl_executionStart p)
                           in if \<not> void_isOk exec_result \<and> err_code (void_error exec_result) = ExecutionTimeout
                              then (err ExecutionTimeout (''Execution timed out after '' @ to_string (nat elapsed) @ ''ms''), transitionTo PipelineERROR p)
                              else if void_isOk exec_result
                              then (ResOk \<lparr> eo_outputs = pl_lastResults p, eo_elapsed = elapsed \<rparr>, transitionTo PipelineIDLE p)
                              else (ResErr (case pl_lastError p of Some er \<Rightarrow> er | None \<Rightarrow> void_error exec_result), transitionTo PipelineERROR p))))"

text \<open>A call that does not wait.\<close>

abbreviation no_wait :: "('v, 'w) others" where
  "no_wait \<equiv> \<lambda>e. (False, e)"



section \<open>Streaming\<close>


definition pipeline_stop :: "('v, 'w) hooks \<Rightarrow> ('v, 'w) others \<Rightarrow> ('v, 'w) others \<Rightarrow> bool \<Rightarrow> ('v, 'w) Pipeline \<Rightarrow> ('v, 'w) Pipeline" where
  "pipeline_stop H draining others wait_for_drain p =
     (if \<not> pipeline_isStreaming p then p
      else transitionTo PipelineIDLE (upd_engine H (stopStreaming draining others wait_for_drain (the (pl_engine p))) p))"

definition pipeline_pushInput :: "('v, 'w) hooks \<Rightarrow> string \<Rightarrow> string \<Rightarrow> 'v PortDataPtr \<Rightarrow> ('v, 'w) Pipeline \<Rightarrow> PushStatus result \<times> ('v, 'w) Pipeline" where
  "pipeline_pushInput H source port_name data p =
     (case pl_engine p of
        None \<Rightarrow> (err NotInitialized ''Engine not initialized'', p)
      | Some e \<Rightarrow> (case pushInput H source port_name data e of (r, e) \<Rightarrow> (r, upd_engine H e p)))"

definition pipeline_signalEndOfStream :: "('v, 'w) hooks \<Rightarrow> string \<Rightarrow> string \<Rightarrow> ('v, 'w) Pipeline \<Rightarrow> void_result \<times> ('v, 'w) Pipeline" where
  "pipeline_signalEndOfStream H name port_name p =
     (case pl_engine p of
        None \<Rightarrow> (void_err NotInitialized ''Engine not initialized'', p)
      | Some e \<Rightarrow> (case signalEndOfStream H name port_name e of (r, e) \<Rightarrow> (r, upd_engine H e p)))"

definition pipeline_waitForEndOfStream :: "('v, 'w) hooks \<Rightarrow> ('v, 'w) others \<Rightarrow> int \<Rightarrow> ('v, 'w) Pipeline \<Rightarrow> void_result \<times> ('v, 'w) Pipeline" where
  "pipeline_waitForEndOfStream H others timeout p =
     (case pl_engine p of
        None \<Rightarrow> (void_err NotInitialized ''Engine not initialized'', p)
      | Some e \<Rightarrow> (case waitForEndOfStream others timeout e of (r, e) \<Rightarrow> (r, upd_engine H e p)))"

definition isEndOfStreamReached :: "('v, 'w) Pipeline \<Rightarrow> bool" where
  "isEndOfStreamReached p = (case pl_engine p of None \<Rightarrow> False | Some e \<Rightarrow> en_endOfStreamReached e)"

definition pipeline_queueDepth :: "('v, 'w) hooks \<Rightarrow> string \<Rightarrow> ('v, 'w) Pipeline \<Rightarrow> nat" where
  "pipeline_queueDepth H name p = (case pl_engine p of None \<Rightarrow> 0 | Some e \<Rightarrow> queueDepth H name '''' e)"

definition pipeline_hasQueueCapacity :: "('v, 'w) hooks \<Rightarrow> string \<Rightarrow> ('v, 'w) Pipeline \<Rightarrow> bool" where
  "pipeline_hasQueueCapacity H name p = (case pl_engine p of None \<Rightarrow> False | Some e \<Rightarrow> hasQueueCapacity H name '''' e)"

definition pipeline_waitForDrain :: "('v, 'w) hooks \<Rightarrow> ('v, 'w) others \<Rightarrow> nat \<Rightarrow> nat \<Rightarrow> ('v, 'w) Pipeline \<Rightarrow> void_result \<times> ('v, 'w) Pipeline" where
  "pipeline_waitForDrain H others max_depth timeout p =
     (case pl_engine p of
        None \<Rightarrow> (void_ok, p)
      | Some e \<Rightarrow> (case waitForDrain others max_depth timeout e of (r, e) \<Rightarrow> (r, upd_engine H e p)))"


section \<open>Control\<close>

definition cancel :: "('v, 'w) hooks \<Rightarrow> ('v, 'w) others \<Rightarrow> ('v, 'w) Pipeline \<Rightarrow> ('v, 'w) Pipeline" where
  "cancel H others p =
     (if \<not> isRunning p \<and> \<not> pipeline_isStreaming p then p
      else transitionTo PipelineSTOPPING
        (case pl_engine p of
           None \<Rightarrow> p
         | Some e \<Rightarrow>
             let e = requestCancellation (pl_context p) e
             in upd_engine H (if pipeline_isStreaming p then stopStreaming no_wait others False e else stopExecutionAsync e) p))"

definition pipeline_wait :: "('v, 'w) hooks \<Rightarrow> ('v, 'w) others \<Rightarrow> ('v, 'w) Pipeline \<Rightarrow> ('v, 'w) Pipeline" where
  "pipeline_wait H others p =
     (case pl_engine p of
        None \<Rightarrow> p
      | Some e \<Rightarrow> if isRunning p then upd_engine H (waitForIdle others e) p else p)"

definition pipeline_reset :: "('v, 'w) hooks \<Rightarrow> ('v, 'w) others \<Rightarrow> ('v, 'w) others \<Rightarrow> ('v, 'w) Pipeline \<Rightarrow> ('v, 'w) Pipeline" where
  "pipeline_reset H idle others p =
     (let p = (if pipeline_isStreaming p then pipeline_stop H no_wait others False p
               else if isRunning p then pipeline_wait H idle (cancel H others p) else p);
          p = (case pl_engine p of None \<Rightarrow> p | Some e \<Rightarrow> upd_engine H (engine_reset H others e) p)
      in transitionTo PipelineIDLE (p \<lparr> pl_lastResults := [], pl_lastError := None \<rparr>))"

text \<open>The destructor: an exception in it is logged and swallowed.\<close>

definition pipeline_destroy :: "('v, 'w) hooks \<Rightarrow> ('v, 'w) others \<Rightarrow> ('v, 'w) others \<Rightarrow> ('v, 'w) Pipeline \<Rightarrow> ('v, 'w) Pipeline" where
  "pipeline_destroy H idle others p =
     (if pipeline_isStreaming p then pipeline_stop H no_wait others False p
      else if isRunning p then pipeline_wait H idle (cancel H others p) else p)"

section \<open>Status and access\<close>

definition engineState :: "('v, 'w) Pipeline \<Rightarrow> EngineState" where
  "engineState p = (case pl_engine p of None \<Rightarrow> EngineERROR | Some e \<Rightarrow> en_state e)"

definition nodeStates :: "('v, 'w) Pipeline \<Rightarrow> (string \<times> NodeExecutionState) list" where
  "nodeStates p = (case pl_engine p of None \<Rightarrow> [] | Some e \<Rightarrow> getNodeStates e)"

definition pipeline_graph :: "('v, 'w) Pipeline \<Rightarrow> string + Graph" where
  "pipeline_graph p = (case pl_graph p of None \<Rightarrow> Inl ''Pipeline: Graph not initialized'' | Some g \<Rightarrow> Inr g)"

definition pipeline_context :: "ptr \<Rightarrow> ('v, 'w) Pipeline \<Rightarrow> ptr \<times> ('v, 'w) Pipeline" where
  "pipeline_context fresh p = (case pl_context p of Some c \<Rightarrow> (c, p) | None \<Rightarrow> (fresh, p \<lparr> pl_context := Some fresh \<rparr>))"

definition pipeline_context_const :: "('v, 'w) Pipeline \<Rightarrow> string + ptr" where
  "pipeline_context_const p = (case pl_context p of None \<Rightarrow> Inl ''Pipeline: Context not initialized'' | Some c \<Rightarrow> Inr c)"

section \<open>Builder\<close>

record BuilderState =
  bs_graph :: "Graph option"
  bs_context :: "ptr option"
  bs_options :: PipelineOptions
  bs_observers :: "observer option list"
  bs_callback_observer :: "CallbackObserver option"
  bs_scheduler_strategy :: "ISchedulerStrategy option"
  bs_sync_strategy :: "ISyncStrategy option"

definition new_builder :: BuilderState where
  "new_builder = \<lparr> bs_graph = None, bs_context = None, bs_options = default_PipelineOptions, bs_observers = [],
     bs_callback_observer = None, bs_scheduler_strategy = None, bs_sync_strategy = None \<rparr>"

definition withGraph :: "Graph \<Rightarrow> BuilderState \<Rightarrow> BuilderState" where
  "withGraph graph b = b \<lparr> bs_graph := Some graph \<rparr>"

definition withContext :: "ptr option \<Rightarrow> BuilderState \<Rightarrow> BuilderState" where
  "withContext context b = b \<lparr> bs_context := context \<rparr>"

definition withMode :: "ExecutionMode \<Rightarrow> BuilderState \<Rightarrow> BuilderState" where
  "withMode mode b =
     (let b = b \<lparr> bs_options := (bs_options b) \<lparr> po_mode := mode \<rparr> \<rparr>
      in if mode = STREAM then b \<lparr> bs_options := (bs_options b) \<lparr> po_enable_sync_coordination := True \<rparr> \<rparr> else b)"

definition withWorkers :: "8 word \<Rightarrow> BuilderState \<Rightarrow> BuilderState" where
  "withWorkers n b = b \<lparr> bs_options := (bs_options b) \<lparr> po_num_workers := n \<rparr> \<rparr>"

definition withTimeout :: "int \<Rightarrow> BuilderState \<Rightarrow> BuilderState" where
  "withTimeout timeout b = b \<lparr> bs_options := (bs_options b) \<lparr> po_execution_timeout := timeout \<rparr> \<rparr>"

definition withOptions :: "PipelineOptions \<Rightarrow> BuilderState \<Rightarrow> BuilderState" where
  "withOptions opts b = b \<lparr> bs_options := opts \<rparr>"

definition withQueueCapacity :: "nat \<Rightarrow> BuilderState \<Rightarrow> BuilderState" where
  "withQueueCapacity capacity b = b \<lparr> bs_options := (bs_options b) \<lparr> po_queue_capacity := capacity \<rparr> \<rparr>"

definition withDropStrategy :: "string \<Rightarrow> BuilderState \<Rightarrow> BuilderState" where
  "withDropStrategy strategy b = b \<lparr> bs_options := (bs_options b) \<lparr> po_drop_strategy := strategy \<rparr> \<rparr>"

definition withSyncCoordination :: "bool \<Rightarrow> BuilderState \<Rightarrow> BuilderState" where
  "withSyncCoordination enable b = b \<lparr> bs_options := (bs_options b) \<lparr> po_enable_sync_coordination := enable \<rparr> \<rparr>"

definition withSchedulerStrategy :: "ISchedulerStrategy option \<Rightarrow> BuilderState \<Rightarrow> BuilderState" where
  "withSchedulerStrategy strategy b = b \<lparr> bs_scheduler_strategy := strategy \<rparr>"

definition withSyncStrategy :: "ISyncStrategy option \<Rightarrow> BuilderState \<Rightarrow> BuilderState" where
  "withSyncStrategy strategy b = b \<lparr> bs_sync_strategy := strategy \<rparr>"

text \<open>The callback observer is made by the first of the three calls.  The argument says whether the function is set.\<close>

definition upd_callback_observer :: "(CallbackObserver \<Rightarrow> CallbackObserver) \<Rightarrow> BuilderState \<Rightarrow> BuilderState" where
  "upd_callback_observer f b = b \<lparr> bs_callback_observer := Some (f (case bs_callback_observer b of None \<Rightarrow> new_CallbackObserver | Some co \<Rightarrow> co)) \<rparr>"

definition onResult :: "bool \<Rightarrow> BuilderState \<Rightarrow> BuilderState" where
  "onResult callback b = upd_callback_observer (\<lambda>co. co \<lparr> co_result := callback \<rparr>) b"

definition onError :: "bool \<Rightarrow> BuilderState \<Rightarrow> BuilderState" where
  "onError callback b = upd_callback_observer (\<lambda>co. co \<lparr> co_error := callback \<rparr>) b"

definition onDrop :: "bool \<Rightarrow> BuilderState \<Rightarrow> BuilderState" where
  "onDrop callback b = upd_callback_observer (\<lambda>co. co \<lparr> co_drop := callback \<rparr>) b"

definition withObserver :: "observer option \<Rightarrow> BuilderState \<Rightarrow> BuilderState" where
  "withObserver ob b = b \<lparr> bs_observers := bs_observers b @ [ob] \<rparr>"

definition build :: "('v, 'w) hooks \<Rightarrow> 'w world \<Rightarrow> Timestamp \<Rightarrow> ptr \<Rightarrow> BuilderState \<Rightarrow> ('v, 'w) Pipeline result option" where
  "build H world now fresh b =
     (case bs_graph b of
        None \<Rightarrow> Some (err InvalidArgument ''PipelineBuilder: No graph provided. Call withGraph() before build()'')
      | Some graph \<Rightarrow>
          (case pipeline_initialize H world now fresh graph (bs_context b) (bs_options b) (bs_scheduler_strategy b) (bs_sync_strategy b) new_pipeline of
             None \<Rightarrow> None
           | Some (r, p) \<Rightarrow>
               if \<not> void_isOk r then Some (ResErr (void_error r))
               else let p = (case bs_callback_observer b of None \<Rightarrow> p | Some co \<Rightarrow> addObserver (Some (BuilderObserver co)) p)
                    in Some (ResOk (foldl (\<lambda>p ob. addObserver ob p) p (bs_observers b)))))"

definition makeBatchPipeline :: "('v, 'w) hooks \<Rightarrow> 'w world \<Rightarrow> Timestamp \<Rightarrow> ptr \<Rightarrow> Graph \<Rightarrow> 8 word \<Rightarrow> ('v, 'w) Pipeline result option" where
  "makeBatchPipeline H world now fresh graph n = build H world now fresh (withWorkers n (withMode BATCH (withGraph graph new_builder)))"

definition makeStreamPipeline :: "('v, 'w) hooks \<Rightarrow> 'w world \<Rightarrow> Timestamp \<Rightarrow> ptr \<Rightarrow> Graph \<Rightarrow> 8 word \<Rightarrow> nat \<Rightarrow> ('v, 'w) Pipeline result option" where
  "makeStreamPipeline H world now fresh graph n queue_cap =
     build H world now fresh (withSyncCoordination True (withQueueCapacity queue_cap (withWorkers n (withMode STREAM (withGraph graph new_builder)))))"


section \<open>Promises\<close>


definition promises_kept :: "('v, 'w) Pipeline \<Rightarrow> ('v, 'w) Pipeline \<Rightarrow> bool" where
  "promises_kept p p' \<longleftrightarrow> length (pl_promises p) \<le> length (pl_promises p') \<and>
     (\<forall>k<length (pl_promises p). pl_promises p ! k \<noteq> None \<longrightarrow> pl_promises p' ! k = pl_promises p ! k)"

lemma promises_kept_refl [simp]: "promises_kept p p"
  by (simp add: promises_kept_def)





section \<open>Properties\<close>


lemma validate_iff: "void_isOk (validateState operation p) \<longleftrightarrow> isReady p"
  by (cases "pl_state p") (auto simp: validateState_def isReady_def)










text \<open>A batch that schedules nothing: every source has an input port and there are no inputs.\<close>

lemma setup_returns:
  assumes "\<And>node w. \<exists>w'. hk_setup H node ctx w = (Returned void_ok, w')"
  shows "\<exists>w ns. setup_loop H ctx is e = (void_ok, e \<lparr> en_world := w, en_setUpNodes := ns \<rparr>)"
proof (induction "is" arbitrary: e)
  case Nil
  have "setup_loop H ctx [] e = (void_ok, e \<lparr> en_world := en_world e, en_setUpNodes := en_setUpNodes e \<rparr>)" by simp
  then show ?case by blast
next
  case (Cons i "is")
  obtain w' where w': "hk_setup H (cg_nodes (the_graph e) ! i) ctx (en_world e) = (Returned void_ok, w')" using assms by blast
  obtain w ns where "setup_loop H ctx is (e \<lparr> en_world := w', en_setUpNodes := en_setUpNodes e @ [cg_nodes (the_graph e) ! i] \<rparr>) =
      (void_ok, e \<lparr> en_world := w', en_setUpNodes := en_setUpNodes e @ [cg_nodes (the_graph e) ! i], en_world := w, en_setUpNodes := ns \<rparr>)"
    using Cons.IH by blast
  then have "setup_loop H ctx (i # is) e = (void_ok, e \<lparr> en_world := w, en_setUpNodes := ns \<rparr>)"
    using w' by (simp add: setup_result_def)
  then show ?case by blast
qed

lemma setupNodes_returns:
  assumes "\<And>node w. \<exists>w'. hk_setup H node ctx w = (Returned void_ok, w')"
  shows "\<exists>w ns. setupNodes H ctx e = (void_ok, e \<lparr> en_world := w, en_setUpNodes := ns \<rparr>)"
proof (cases "en_setUpNodes e = []")
  case True
  then show ?thesis using setup_returns [OF assms] by (simp add: setupNodes_def)
next
  case False
  then have "setupNodes H ctx e = (void_ok, e \<lparr> en_world := en_world e, en_setUpNodes := en_setUpNodes e \<rparr>)" by (simp add: setupNodes_def)
  then show ?thesis by blast
qed

lemma distribute_nothing:
  assumes "\<forall>i\<in>set is. \<forall>st. stateByIndex i e = Some st \<longrightarrow> nd_input_ports st \<noteq> []"
  shows "distribute_loop H [] is b e = (True, e)"
  using assms by (induction "is" arbitrary: b) (auto simp: distribute_input_def split: option.split)

lemma empty_batch:
  assumes "\<not> en_streamingMode e" and "en_state e \<noteq> EngineRUNNING" and "en_compiled e \<noteq> None" and "en_pool e \<noteq> None"
    and "\<And>node w. \<exists>w'. hk_setup H node ctx w = (Returned void_ok, w')"
    and "\<forall>i\<in>set (cg_sourceNodes (the_graph e)). \<forall>st. stateByIndex i e = Some st \<longrightarrow> nd_input_ports st \<noteq> []"
    and "\<And>e. completion_reached e \<Longrightarrow> others e = (False, e)"
  shows "\<exists>e'. execute H others [] True ctx timeout e = (void_ok, e') \<and> en_calls e' = en_calls e"
proof -
  obtain w ns where ready: "setupNodes H ctx (e \<lparr> en_context := ctx \<rparr>) = (void_ok, e \<lparr> en_context := ctx, en_world := w, en_setUpNodes := ns \<rparr>)"
    using setupNodes_returns [OF assms(5), of "e \<lparr> en_context := ctx \<rparr>"] by auto
  define e2 where "e2 = (reset_cancellation ctx (resetInternalState (e \<lparr> en_context := ctx, en_world := w, en_setUpNodes := ns \<rparr>))) \<lparr> en_state := EngineRUNNING \<rparr>"
  have e2: "en_states e2 = map reset_batch_node (en_states e)" "the_graph e2 = the_graph e" "en_activeTasks e2 = 0" "\<not> en_stopFlag e2"
    "en_state e2 = EngineRUNNING" "en_calls e2 = en_calls e"
    by (simp_all add: e2_def reset_cancellation_def resetInternalState_def the_graph_def split: option.splits)
  have "\<forall>i\<in>set (cg_sourceNodes (the_graph e2)). \<forall>st. stateByIndex i e2 = Some st \<longrightarrow> nd_input_ports st \<noteq> []"
    using assms(6) e2(1,2) by (auto simp: stateByIndex_def reset_batch_node_def split: if_splits)
  from distribute_nothing [OF this] have "start_batch H [] ctx e = (void_ok, e2)"
    using assms(2-4) ready by (auto simp: start_batch_def Let_def distributeInitialInputs_def e2_def [symmetric])
  moreover have "others e2 = (False, e2)" using e2(3) assms(7) by (simp add: completion_reached_def)
  moreover have "completion_verdict e2 = (void_ok, e2 \<lparr> en_state := EngineIDLE, en_context := None \<rparr>)"
    using e2 by (simp add: completion_verdict_def)
  ultimately have "execute H others [] True ctx timeout e = (void_ok, e2 \<lparr> en_state := EngineIDLE, en_context := None \<rparr>)"
    using assms(1) by (simp add: execute_def waitForCompletion_def split: option.split)
  then show ?thesis using e2(6) by auto
qed

definition stale_engine :: "(nat, nat) Engine" where
  "stale_engine = (new_engine default_EngineConfig \<lparr> wd_cancelled = (\<lambda>_. False), wd_ext = 10 \<rparr> 0) \<lparr> en_pool := Some (new_pool 1 256),
     en_compiled := Some \<lparr> cg_nodes = [0], cg_nameToIndex = [''a'' \<mapsto> 0], cg_ptrToIndex = [0 \<mapsto> 0], cg_outEdges = [[]], cg_successors = [[]],
       cg_predecessors = [[]], cg_inDegree = [0], cg_topoOrder = [0], cg_sourceNodes = [0], cg_sinkNodes = [0] \<rparr>,
     en_states := [(new_node_state 0 ''a'' 0 default_QueueConfig) \<lparr> nd_input_ports := [''in''], nd_queues := [demo_queue []] \<rparr>] \<rparr>"

definition stale_pipeline :: "(nat, nat) Pipeline" where
  "stale_pipeline = new_pipeline \<lparr> pl_graph := Some emptyGraph, pl_engine := Some stale_engine, pl_context := Some 1, pl_state := PipelineIDLE,
     pl_lastResults := [(''out'', demo_frame 7)] \<rparr>"

text \<open>
  C39. A batch that executes nothing returns the results of an earlier one.  When \<open>run\<close> is called without inputs on a graph
  whose source nodes all have input ports, no node is scheduled and the engine reports success at once; no
  result callback is made, no observer hears of a completion, and the outputs returned are the last results
  the pipeline happens to hold.
\<close>

theorem run_without_inputs_is_stale:
  assumes "isReady p" and "pl_engine p = Some e" and "\<not> en_streamingMode e" and "en_state e \<noteq> EngineRUNNING" and "en_compiled e \<noteq> None" and "en_pool e \<noteq> None"
    and "\<forall>node w. \<exists>w'. hk_setup H node (pl_context p) w = (Returned void_ok, w')"
    and "\<forall>i\<in>set (cg_sourceNodes (the_graph e)). \<forall>st. stateByIndex i e = Some st \<longrightarrow> nd_input_ports st \<noteq> []"
    and "\<forall>e. completion_reached e \<longrightarrow> others e = (False, e)"
  shows "\<exists>elapsed p'. pipeline_run H others [] timeout p = (ResOk \<lparr> eo_outputs = pl_lastResults p, eo_elapsed = elapsed \<rparr>, p') \<and>
     (\<forall>ob results. (ob, ExecutionCompleted results) \<in> set (pl_notes p') \<longrightarrow> (ob, ExecutionCompleted results) \<in> set (pl_notes p))"
proof -
  obtain now e0 where clock: "read_clock H e = (now, e0)" by fastforce
  have e0: "\<not> en_streamingMode e0" "en_state e0 \<noteq> EngineRUNNING" "en_compiled e0 \<noteq> None" "en_pool e0 \<noteq> None" "the_graph e0 = the_graph e"
      "stateByIndex i e0 = stateByIndex i e" "en_calls e0 = en_calls e" for i
    using clock assms(3-6) by (auto simp: read_clock_def the_graph_def stateByIndex_def split: prod.splits)
  define p1 where "p1 = claim_running H p"
  have p1: "pl_engine p1 = Some e0" "pl_context p1 = pl_context p" "pl_lastResults p1 = pl_lastResults p"
      "\<And>ob results. (ob, ExecutionCompleted results) \<in> set (pl_notes p1) \<Longrightarrow> (ob, ExecutionCompleted results) \<in> set (pl_notes p)"
    using assms(2) clock by (auto simp: p1_def claim_running_def notify_def transitionTo_def)
  define t where "t = (let actual = (case timeout of Some t \<Rightarrow> t | None \<Rightarrow> po_execution_timeout (pl_options p)) in if actual > 0 then Some (nat actual) else None)"
  obtain e1 where run: "execute H others [] True (pl_context p1) t e0 = (void_ok, e1)" "en_calls e1 = en_calls e0"
    using empty_batch [of e0 H "pl_context p1" others t] e0 assms(7-9) p1(2) by auto
  have "upd_engine H e1 p1 = p1 \<lparr> pl_engine := Some e1 \<rparr>" using p1(1) run(2) by (simp add: upd_engine_def Let_def)
  moreover obtain end_time e2 where "read_clock H e1 = (end_time, e2)" by fastforce
  ultimately have "pipeline_run H others [] timeout p = (ResOk \<lparr> eo_outputs = pl_lastResults p, eo_elapsed = duration_cast 1000000 (end_time - pl_executionStart p1) \<rparr>,
      transitionTo PipelineIDLE (p1 \<lparr> pl_engine := Some e2 \<rparr>))"
    using assms(1) run(1) p1 by (simp add: pipeline_run_def validate_iff p1_def [symmetric] t_def Let_def)
  then show ?thesis using p1(4) by (auto simp: transitionTo_def)
qed

theorem run_without_inputs_is_stale_witness:
  "\<exists>elapsed p'. pipeline_run demo_hooks no_wait [] None stale_pipeline = (ResOk \<lparr> eo_outputs = [(''out'', demo_frame 7)], eo_elapsed = elapsed \<rparr>, p')"
proof -
  have "isReady stale_pipeline" "pl_engine stale_pipeline = Some stale_engine" "pl_lastResults stale_pipeline = [(''out'', demo_frame 7)]"
    by (simp_all add: stale_pipeline_def isReady_def new_pipeline_def)
  moreover have "\<not> en_streamingMode stale_engine" "en_state stale_engine \<noteq> EngineRUNNING" "en_compiled stale_engine \<noteq> None" "en_pool stale_engine \<noteq> None"
    "\<forall>i\<in>set (cg_sourceNodes (the_graph stale_engine)). \<forall>st. stateByIndex i stale_engine = Some st \<longrightarrow> nd_input_ports st \<noteq> []"
    by (simp_all add: stale_engine_def new_engine_def configureForMode_def default_EngineConfig_def the_graph_def stateByIndex_def)
  moreover have "\<forall>node w. \<exists>w'. hk_setup demo_hooks node (pl_context stale_pipeline) w = (Returned void_ok, w')" by (simp add: demo_hooks_def)
  ultimately show ?thesis using run_without_inputs_is_stale [of stale_pipeline stale_engine demo_hooks no_wait None] by auto
qed

end
