(* ===== verification/Node_Registry.thy ===== *)
theory Node_Registry
  imports Engine_State
begin

text \<open>
  The registry of node types (\<open>node_registry.hpp\<close>): factories under unique type names.

  A factory is code of a node library: it is a function of the name, the configuration and the state
  \<open>'h\<close> of whatever it works on, and it returns a pointer that may be null, reports an error or throws.  The unordered
  map is an association list; the order in which its iteration visits the names is an argument.
\<close>

section \<open>Operations\<close>

type_synonym ('c, 'h) Factory = "string \<Rightarrow> 'c DataPacket \<Rightarrow> 'h \<Rightarrow> ptr option result attempt \<times> 'h"

record ('c, 'h) NodeRegistry =
  nr_factories :: "(string \<times> ('c, 'h) Factory) list"

definition empty_registry :: "('c, 'h) NodeRegistry" where
  "empty_registry = \<lparr> nr_factories = [] \<rparr>"

definition registerFactory :: "string \<Rightarrow> ('c, 'h) Factory option \<Rightarrow> ('c, 'h) NodeRegistry \<Rightarrow> void_result \<times> ('c, 'h) NodeRegistry" where
  "registerFactory type_name factory r =
     (case factory of
        None \<Rightarrow> (void_err InvalidArgument ''Type name and factory must be non-empty'', r)
      | Some f \<Rightarrow>
          if type_name = [] then (void_err InvalidArgument ''Type name and factory must be non-empty'', r)
          else if map_of (nr_factories r) type_name \<noteq> None
          then (void_err InvalidArgument (''Node type already registered: '' @ type_name), r)
          else (void_ok, r \<lparr> nr_factories := nr_factories r @ [(type_name, f)] \<rparr>))"

text \<open>The constructor of the node class, which returns the address of the new object or throws.\<close>

definition constructed :: "ptr attempt \<times> 'h \<Rightarrow> ptr option result attempt \<times> 'h" where
  "constructed made =
     (case made of
        (Returned p, h) \<Rightarrow> (Returned (ResOk (Some p)), h)
      | (ThrewStd what, h) \<Rightarrow> (ThrewStd what, h)
      | (ThrewUnknown, h) \<Rightarrow> (ThrewUnknown, h))"

definition registerNode :: "(string \<Rightarrow> 'h \<Rightarrow> ptr attempt \<times> 'h) \<Rightarrow> string \<Rightarrow> ('c, 'h) NodeRegistry \<Rightarrow> void_result \<times> ('c, 'h) NodeRegistry" where
  "registerNode make_node type_name r = registerFactory type_name (Some (\<lambda>name config h. constructed (make_node name h))) r"

definition registerConfiguredNode :: "(string \<Rightarrow> 'c DataPacket \<Rightarrow> 'h \<Rightarrow> ptr attempt \<times> 'h) \<Rightarrow> string \<Rightarrow> ('c, 'h) NodeRegistry \<Rightarrow>
    void_result \<times> ('c, 'h) NodeRegistry" where
  "registerConfiguredNode make_node type_name r = registerFactory type_name (Some (\<lambda>name config h. constructed (make_node name config h))) r"

definition registry_create :: "string \<Rightarrow> string \<Rightarrow> 'c DataPacket \<Rightarrow> ('c, 'h) NodeRegistry \<Rightarrow> 'h \<Rightarrow> ptr option result attempt \<times> 'h" where
  "registry_create type_name name config r h =
     (case map_of (nr_factories r) type_name of
        None \<Rightarrow> (Returned (err InvalidArgument (''Unknown node type: '' @ type_name)), h)
      | Some factory \<Rightarrow> factory name config h)"

definition isRegistered :: "string \<Rightarrow> ('c, 'h) NodeRegistry \<Rightarrow> bool" where
  "isRegistered type_name r \<longleftrightarrow> map_of (nr_factories r) type_name \<noteq> None"

definition registeredTypes :: "(string list \<Rightarrow> string list) \<Rightarrow> ('c, 'h) NodeRegistry \<Rightarrow> string list" where
  "registeredTypes order r = order (map fst (nr_factories r))"

definition unregisterType :: "string \<Rightarrow> ('c, 'h) NodeRegistry \<Rightarrow> ('c, 'h) NodeRegistry" where
  "unregisterType type_name r = r \<lparr> nr_factories := filter (\<lambda>entry. fst entry \<noteq> type_name) (nr_factories r) \<rparr>"

definition registry_snapshot :: "('c, 'h) NodeRegistry \<Rightarrow> (string \<times> ('c, 'h) Factory) list" where
  "registry_snapshot r = nr_factories r"

definition registry_restore :: "(string \<times> ('c, 'h) Factory) list \<Rightarrow> ('c, 'h) NodeRegistry \<Rightarrow> ('c, 'h) NodeRegistry" where
  "registry_restore saved r = r \<lparr> nr_factories := saved \<rparr>"

definition newNodeRegistrar :: "string \<Rightarrow> ('c, 'h) Factory option \<Rightarrow> ('c, 'h) NodeRegistry \<Rightarrow> ('c, 'h) NodeRegistry" where
  "newNodeRegistrar type_name factory r = snd (registerFactory type_name factory r)"

section \<open>The registry as a map\<close>

abbreviation factory_of :: "('c, 'h) NodeRegistry \<Rightarrow> string \<Rightarrow> ('c, 'h) Factory option" where
  "factory_of r \<equiv> map_of (nr_factories r)"

abbreviation types_of :: "('c, 'h) NodeRegistry \<Rightarrow> string set" where
  "types_of r \<equiv> fst ` set (nr_factories r)"

definition registry_ok :: "('c, 'h) NodeRegistry \<Rightarrow> bool" where
  "registry_ok r \<longleftrightarrow> distinct (map fst (nr_factories r)) \<and> [] \<notin> types_of r"

lemma empty_registry_ok [simp]: "registry_ok empty_registry"
  by (simp add: registry_ok_def empty_registry_def)

lemma isRegistered_types: "isRegistered type_name r \<longleftrightarrow> type_name \<in> types_of r"
  by (simp add: isRegistered_def map_of_eq_None_iff)

lemma registerFactory_refines:
  assumes "registerFactory type_name factory r = (v, r')"
  shows "if type_name = [] \<or> factory = None \<or> isRegistered type_name r
    then r' = r \<and> err_code (void_error v) = InvalidArgument
    else void_isOk v \<and> factory_of r' = (factory_of r)(type_name \<mapsto> the factory) \<and> types_of r' = insert type_name (types_of r)"
  using assms
  by (auto simp: registerFactory_def isRegistered_def void_err_def mkError_def map_add_def fun_eq_iff split: option.splits if_splits)

lemma registerFactory_ok: "registry_ok r \<Longrightarrow> registry_ok (snd (registerFactory type_name factory r))"
  by (auto simp: registerFactory_def registry_ok_def map_of_eq_None_iff split: option.splits)

lemma unregister_types [simp]: "types_of (unregisterType type_name r) = types_of r - {type_name}"
  by (auto simp: unregisterType_def)

lemma map_of_without: "map_of (filter (\<lambda>entry. fst entry \<noteq> k) m) = (map_of m)(k := None)"
  by (induction m) (auto simp: fun_eq_iff)

lemma unregister_factory: "factory_of (unregisterType type_name r) = (factory_of r)(type_name := None)"
  by (simp add: unregisterType_def map_of_without)

lemma unregister_ok: "registry_ok r \<Longrightarrow> registry_ok (unregisterType type_name r)"
  by (auto simp: registry_ok_def unregisterType_def distinct_map_filter)

lemma restore_snapshot [simp]: "registry_restore (registry_snapshot r) r' = (r' :: ('c, 'h) NodeRegistry) \<lparr> nr_factories := nr_factories r \<rparr>"
  by (simp add: registry_restore_def registry_snapshot_def)

text \<open>The first registration wins: a later one under the same name changes nothing that \<open>create\<close> can see.\<close>

lemma first_registration_wins:
  "isRegistered type_name r \<Longrightarrow> registry_create t n config (newNodeRegistrar type_name factory r) h = registry_create t n config r h"
  using registerFactory_refines [of type_name factory r] by (cases "registerFactory type_name factory r") (simp add: newNodeRegistrar_def)

end
