(* ===== verification/Graph_Loader.thy ===== *)
theory Graph_Loader
  imports Pipelines Node_Registry
begin

text \<open>
  The JSON graph loader (\<open>config/graph_loader.cpp\<close>, \<open>graph_loader.hpp\<close>): a document is checked against the
  schema, its nodes are created through the registry, its edges are added, and a cycle is refused.

  A JSON value (\<open>3rdparty/nlohmann/json.hpp\<close>) is a datatype with the alternatives of the library; an
  object is the association list of its ordered map.  The functions on values below are the ones the loader calls.  The
  parser of the library, the conversion of an integer to a floating-point number (of type \<open>'d\<close>) and the
  reading of a file are arguments.  The loader catches the exceptions of the parser only, so the model keeps what
  else may be thrown.  The outer \<open>None\<close> of a result stands for a cycle search that does not end; it always ends.
\<close>

section \<open>JSON values\<close>

datatype 'd json = JNull | JObject "(string \<times> 'd json) list" | JArray "'d json list" | JString string | JBoolean bool
  | JNumberInteger "64 word" | JNumberUnsigned "64 word" | JNumberFloat 'd | JBinary "8 word list" | JDiscarded

fun js_type_name :: "'d json \<Rightarrow> string" where
  "js_type_name JNull = ''null''"
| "js_type_name (JObject _) = ''object''"
| "js_type_name (JArray _) = ''array''"
| "js_type_name (JString _) = ''string''"
| "js_type_name (JBoolean _) = ''boolean''"
| "js_type_name (JBinary _) = ''binary''"
| "js_type_name JDiscarded = ''discarded''"
| "js_type_name _ = ''number''"

definition js_is_string :: "'d json \<Rightarrow> bool" where
  "js_is_string v = (case v of JString _ \<Rightarrow> True | _ \<Rightarrow> False)"

definition js_is_object :: "'d json \<Rightarrow> bool" where
  "js_is_object v = (case v of JObject _ \<Rightarrow> True | _ \<Rightarrow> False)"

definition js_is_array :: "'d json \<Rightarrow> bool" where
  "js_is_array v = (case v of JArray _ \<Rightarrow> True | _ \<Rightarrow> False)"

definition js_is_boolean :: "'d json \<Rightarrow> bool" where
  "js_is_boolean v = (case v of JBoolean _ \<Rightarrow> True | _ \<Rightarrow> False)"

definition js_is_number_unsigned :: "'d json \<Rightarrow> bool" where
  "js_is_number_unsigned v = (case v of JNumberUnsigned _ \<Rightarrow> True | _ \<Rightarrow> False)"

definition js_is_number_integer :: "'d json \<Rightarrow> bool" where
  "js_is_number_integer v = (case v of JNumberInteger _ \<Rightarrow> True | JNumberUnsigned _ \<Rightarrow> True | _ \<Rightarrow> False)"

definition js_is_number :: "'d json \<Rightarrow> bool" where
  "js_is_number v \<longleftrightarrow> js_is_number_integer v \<or> (case v of JNumberFloat _ \<Rightarrow> True | _ \<Rightarrow> False)"

text \<open>
  The contents of a value.  \<open>get\<close> throws on a value of another type; the loader calls these after
  it has tested the type, so the value they have elsewhere plays no role.  A conversion between the two integer types keeps the bits.
\<close>

fun js_bool :: "'d json \<Rightarrow> bool" where
  "js_bool (JBoolean b) = b"
| "js_bool _ = False"

fun js_string :: "'d json \<Rightarrow> string" where
  "js_string (JString s) = s"
| "js_string _ = []"

fun js_int64 :: "'d json \<Rightarrow> int" where
  "js_int64 (JNumberInteger w) = sint w"
| "js_int64 (JNumberUnsigned w) = sint w"
| "js_int64 _ = 0"

fun js_uint64 :: "'d json \<Rightarrow> nat" where
  "js_uint64 (JNumberInteger w) = unat w"
| "js_uint64 (JNumberUnsigned w) = unat w"
| "js_uint64 _ = 0"

fun js_double :: "(int \<Rightarrow> 'd) \<Rightarrow> 'd json \<Rightarrow> 'd" where
  "js_double dbl (JNumberFloat d) = d"
| "js_double dbl (JNumberUnsigned w) = dbl (uint w)"
| "js_double dbl (JNumberInteger w) = dbl (sint w)"
| "js_double dbl _ = dbl 0"

fun js_items :: "'d json \<Rightarrow> (string \<times> 'd json) list" where
  "js_items (JObject items) = items"
| "js_items _ = []"

fun js_elements :: "'d json \<Rightarrow> 'd json list" where
  "js_elements (JArray elements) = elements"
| "js_elements _ = []"

definition js_contains :: "'d json \<Rightarrow> string \<Rightarrow> bool" where
  "js_contains v key \<longleftrightarrow> js_is_object v \<and> map_of (js_items v) key \<noteq> None"

definition js_member :: "'d json \<Rightarrow> string \<Rightarrow> 'd json" where
  "js_member v key = (case map_of (js_items v) key of Some x \<Rightarrow> x | None \<Rightarrow> JNull)"

definition js_get_string :: "'d json \<Rightarrow> string attempt" where
  "js_get_string v =
     (if js_is_string v then Returned (js_string v)
      else ThrewStd (''[json.exception.type_error.302] type must be string, but is '' @ js_type_name v))"

definition js_value_string :: "'d json \<Rightarrow> string \<Rightarrow> string \<Rightarrow> string attempt" where
  "js_value_string v key default_value =
     (if js_is_object v
      then (case map_of (js_items v) key of Some x \<Rightarrow> js_get_string x | None \<Rightarrow> Returned default_value)
      else ThrewStd (''[json.exception.type_error.306] cannot use value() with '' @ js_type_name v))"

text \<open>A value of a configuration, by the C++ type it is stored with.\<close>

datatype 'd config_value = CfgBool bool | CfgInt int | CfgDouble 'd | CfgString string | CfgStrings "string list" | CfgInts "int list" | CfgDoubles "'d list"

abbreviation quoted :: "string \<Rightarrow> string" where
  "quoted s \<equiv> [CHR 0x27] @ s @ [CHR 0x27]"

section \<open>Keys and configuration values\<close>

definition loader_err :: "string \<Rightarrow> void_result" where
  "loader_err message = void_err InvalidConfiguration message"

definition checkKnownKeys :: "'d json \<Rightarrow> string \<Rightarrow> string list \<Rightarrow> void_result" where
  "checkKnownKeys obj what allowed =
     (case find (\<lambda>item. fst item \<notin> set allowed) (js_items obj) of
        Some item \<Rightarrow> loader_err (''Unknown key '' @ quoted (fst item) @ '' in '' @ what)
      | None \<Rightarrow> void_ok)"

definition setConfigParam :: "(int \<Rightarrow> 'd) \<Rightarrow> 'd config_value DataPacket \<Rightarrow> string \<Rightarrow> string \<Rightarrow> 'd json \<Rightarrow> void_result \<times> 'd config_value DataPacket" where
  "setConfigParam dbl config name key v =
     (let fail = (\<lambda>reason. (loader_err (''Node '' @ quoted name @ '' config key '' @ quoted key @ '': '' @ reason), config));
          store = (\<lambda>T x. (void_ok, setParam T config key x))
      in case v of
           JBoolean _ \<Rightarrow> store ''bool'' (CfgBool (js_bool v))
         | JNumberInteger _ \<Rightarrow> store ''std::int64_t'' (CfgInt (js_int64 v))
         | JNumberUnsigned _ \<Rightarrow>
             if js_uint64 v > 2 ^ 63 - 1 then fail ''integer value exceeds int64 range''
             else store ''std::int64_t'' (CfgInt (js_int64 v))
         | JNumberFloat _ \<Rightarrow> store ''double'' (CfgDouble (js_double dbl v))
         | JString _ \<Rightarrow> store ''std::string'' (CfgString (js_string v))
         | JArray _ \<Rightarrow>
             (let elements = js_elements v;
                  all_string = list_all (js_is_string) elements;
                  all_number = list_all (js_is_number) elements;
                  all_int = list_all (js_is_number_integer) elements
              in if elements = [] then fail ''empty arrays are ambiguous; omit the key or use a non-empty typed array''
                 else if all_string then store ''std::vector<std::string>'' (CfgStrings (map (js_string) elements))
                 else if all_int then store ''std::vector<std::int64_t>'' (CfgInts (map (js_int64) elements))
                 else if all_number then store ''std::vector<double>'' (CfgDoubles (map (js_double dbl) elements))
                 else fail ''arrays must be homogeneous numbers or strings'')
         | _ \<Rightarrow> fail ''unsupported value type (allowed: bool, integer, float, string, flat array of numbers or strings)'')"

fun set_config_params :: "(int \<Rightarrow> 'd) \<Rightarrow> string \<Rightarrow> (string \<times> 'd json) list \<Rightarrow> 'd config_value DataPacket \<Rightarrow> 'd config_value DataPacket result" where
  "set_config_params dbl name [] config = ResOk config"
| "set_config_params dbl name ((key, v) # items) config =
     (case setConfigParam dbl config name key v of
        (r, config) \<Rightarrow> if \<not> void_isOk r then ResErr (void_error r) else set_config_params dbl name items config)"

section \<open>Endpoints\<close>

definition find_char :: "char \<Rightarrow> string \<Rightarrow> nat option" where
  "find_char c s = (if c \<in> set s then Some (length (takeWhile (\<lambda>d. d \<noteq> c) s)) else None)"

definition rfind_char :: "char \<Rightarrow> string \<Rightarrow> nat option" where
  "rfind_char c s = map_option (\<lambda>i. length s - 1 - i) (find_char c (rev s))"

definition parseEndpoint :: "'d json \<Rightarrow> string \<Rightarrow> nat \<Rightarrow> (string \<times> string) result attempt" where
  "parseEndpoint endpoint side edge_index =
     (let place = ''edge #'' @ to_string edge_index @ '' '' @ quoted side; bad = (\<lambda>message. Returned (err InvalidConfiguration (place @ message)))
      in if js_is_string endpoint
         then let text = js_string endpoint;
                  wrong = bad ('': expected '' @ [CHR 0x22] @ ''node.port'' @ [CHR 0x22] @ '' with exactly one '' @ quoted ''.'' @
                    '' (got '' @ quoted text @ ''); use the object form for dotted names'')
              in case find_char CHR ''.'' text of
                   None \<Rightarrow> wrong
                 | Some dot \<Rightarrow>
                     if Some dot \<noteq> rfind_char CHR ''.'' text \<or> dot = 0 \<or> dot + 1 = length text then wrong
                     else Returned (ResOk (take dot text, drop (dot + 1) text))
         else if js_is_object endpoint
         then if \<not> void_isOk (checkKnownKeys endpoint place [''node'', ''port''])
              then Returned (ResErr (void_error (checkKnownKeys endpoint place [''node'', ''port''])))
              else if \<not> js_contains endpoint ''node'' \<or> \<not> js_is_string (js_member endpoint ''node'')
              then bad ('': object form requires a string '' @ quoted ''node'')
              else (case js_value_string endpoint ''port'' '''' of
                      ThrewStd what \<Rightarrow> ThrewStd what
                    | ThrewUnknown \<Rightarrow> ThrewUnknown
                    | Returned port \<Rightarrow>
                        if js_contains endpoint ''port'' \<and> \<not> js_is_string (js_member endpoint ''port'')
                        then bad ('': '' @ quoted ''port'' @ '' must be a string'')
                        else Returned (ResOk (js_string (js_member endpoint ''node''), port)))
         else bad ('': expected a '' @ [CHR 0x22] @ ''node.port'' @ [CHR 0x22] @ '' string or {'' @ [CHR 0x22] @ ''node'' @ [CHR 0x22] @ '': ..., '' @
           [CHR 0x22] @ ''port'' @ [CHR 0x22] @ '': ...} object''))"


section \<open>Options\<close>

definition parseUintOption :: "'d json \<Rightarrow> string \<Rightarrow> nat \<Rightarrow> nat \<Rightarrow> nat result" where
  "parseUintOption v key min_value max_value =
     (if \<not> js_is_number_unsigned v \<and> \<not> js_is_number_integer v
      then err InvalidConfiguration (''Option '' @ quoted key @ '' must be an integer'')
      else if js_is_number_integer v \<and> js_int64 v < 0
      then err InvalidConfiguration (''Option '' @ quoted key @ '' must be non-negative'')
      else let parsed = js_uint64 v
           in if parsed < min_value \<or> parsed > max_value
              then err InvalidConfiguration (''Option '' @ quoted key @ '' out of range ['' @ to_string min_value @ '', '' @ to_string max_value @ '']'')
              else ResOk parsed)"

text \<open>One block of \<open>parseOptions\<close>: an error ends the function, a missing key leaves the options as they are.\<close>

definition on_option :: "'d json \<Rightarrow> string \<Rightarrow> ('d json \<Rightarrow> PipelineOptions \<Rightarrow> PipelineOptions result) \<Rightarrow> PipelineOptions result \<Rightarrow> PipelineOptions result" where
  "on_option opts key f r =
     (case r of ResErr e \<Rightarrow> ResErr e | ResOk options \<Rightarrow> if js_contains opts key then f (js_member opts key) options else ResOk options)"

definition uint_option :: "string \<Rightarrow> nat \<Rightarrow> nat \<Rightarrow> (nat \<Rightarrow> PipelineOptions \<Rightarrow> PipelineOptions) \<Rightarrow> 'd json \<Rightarrow> PipelineOptions \<Rightarrow> PipelineOptions result" where
  "uint_option key min_value max_value upd v options =
     (case parseUintOption v key min_value max_value of ResErr e \<Rightarrow> ResErr e | ResOk n \<Rightarrow> ResOk (upd n options))"

definition bool_option :: "string \<Rightarrow> (bool \<Rightarrow> PipelineOptions \<Rightarrow> PipelineOptions) \<Rightarrow> 'd json \<Rightarrow> PipelineOptions \<Rightarrow> PipelineOptions result" where
  "bool_option key upd v options =
     (if \<not> js_is_boolean v then err InvalidConfiguration (''Option '' @ quoted key @ '' must be a boolean'') else ResOk (upd (js_bool v) options))"

definition mode_option :: "'d json \<Rightarrow> PipelineOptions \<Rightarrow> PipelineOptions result" where
  "mode_option v options =
     (if \<not> js_is_string v then err InvalidConfiguration (''Option '' @ quoted ''mode'' @ '' must be a string'')
      else if js_string v = ''batch'' then ResOk (batch_options 4)
      else if js_string v = ''stream'' then ResOk (stream_options 4 16)
      else err InvalidConfiguration (''Option '' @ quoted ''mode'' @ '' must be '' @ [CHR 0x22] @ ''batch'' @ [CHR 0x22] @ '' or '' @
        [CHR 0x22] @ ''stream'' @ [CHR 0x22] @ '' (got '' @ quoted (js_string v) @ '')''))"

definition drop_strategy_option :: "'d json \<Rightarrow> PipelineOptions \<Rightarrow> PipelineOptions result" where
  "drop_strategy_option v options =
     (if \<not> js_is_string v then err InvalidConfiguration (''Option '' @ quoted ''drop_strategy'' @ '' must be a string'')
      else ResOk (options \<lparr> po_drop_strategy := js_string v \<rparr>))"

definition alignment_policy_option :: "'d json \<Rightarrow> PipelineOptions \<Rightarrow> PipelineOptions result" where
  "alignment_policy_option v options =
     (if \<not> js_is_string v then err InvalidConfiguration (''Option '' @ quoted ''alignment_policy'' @ '' must be a string'')
      else if js_string v = ''frame_id'' then ResOk (options \<lparr> po_alignment_policy := AlignFrameId \<rparr>)
      else if js_string v = ''stream_frame_id'' then ResOk (options \<lparr> po_alignment_policy := AlignStreamFrameId \<rparr>)
      else if js_string v = ''timestamp'' then ResOk (options \<lparr> po_alignment_policy := AlignTimestamp \<rparr>)
      else err InvalidConfiguration (''Option '' @ quoted ''alignment_policy'' @ '' must be '' @ [CHR 0x22] @ ''frame_id'' @ [CHR 0x22] @ '', '' @
        [CHR 0x22] @ ''stream_frame_id'' @ [CHR 0x22] @ '' or '' @ [CHR 0x22] @ ''timestamp'' @ [CHR 0x22] @ '' (got '' @ quoted (js_string v) @ '')''))"

definition join_timeout_policy_option :: "'d json \<Rightarrow> PipelineOptions \<Rightarrow> PipelineOptions result" where
  "join_timeout_policy_option v options =
     (if \<not> js_is_string v then err InvalidConfiguration (''Option '' @ quoted ''join_timeout_policy'' @ '' must be a string'')
      else if js_string v = ''partial_inputs'' then ResOk (options \<lparr> po_join_timeout_policy := PartialInputs \<rparr>)
      else if js_string v = ''skip_frame'' then ResOk (options \<lparr> po_join_timeout_policy := SkipFrame \<rparr>)
      else err InvalidConfiguration (''Option '' @ quoted ''join_timeout_policy'' @ '' must be '' @ [CHR 0x22] @ ''partial_inputs'' @ [CHR 0x22] @ '' or '' @
        [CHR 0x22] @ ''skip_frame'' @ [CHR 0x22] @ '' (got '' @ quoted (js_string v) @ '')''))"

text \<open>The blocks of \<open>parseOptions\<close> in their order, the first innermost.\<close>

definition read_options :: "'d json \<Rightarrow> PipelineOptions result" where
  "read_options opts =
      on_option opts ''join_timeout_policy'' join_timeout_policy_option
      (on_option opts ''join_wait_timeout_ms''
      (uint_option ''join_wait_timeout_ms'' 0 (2 ^ 63 - 1) (\<lambda>n options. options \<lparr> po_join_wait_timeout := int n \<rparr>))
      (on_option opts ''alignment_tolerance_us''
      (uint_option ''alignment_tolerance_us'' 0 (2 ^ 63 - 1) (\<lambda>n options. options \<lparr> po_alignment_tolerance := int n \<rparr>))
      (on_option opts ''alignment_policy'' alignment_policy_option
      (on_option opts ''enable_statistics''
      (bool_option ''enable_statistics'' (\<lambda>b options. options \<lparr> po_enable_statistics := b \<rparr>))
      (on_option opts ''enable_sync_coordination''
      (bool_option ''enable_sync_coordination'' (\<lambda>b options. options \<lparr> po_enable_sync_coordination := b \<rparr>))
      (on_option opts ''drop_strategy'' drop_strategy_option
      (on_option opts ''queue_capacity''
      (uint_option ''queue_capacity'' 0 (2 ^ 64 - 1) (\<lambda>n options. options \<lparr> po_queue_capacity := n \<rparr>))
      (on_option opts ''execution_timeout_ms''
      (uint_option ''execution_timeout_ms'' 0 (2 ^ 63 - 1) (\<lambda>n options. options \<lparr> po_execution_timeout := int n \<rparr>))
      (on_option opts ''num_workers''
      (uint_option ''num_workers'' 1 255 (\<lambda>n options. options \<lparr> po_num_workers := word_of_nat n \<rparr>))
      (on_option opts ''mode'' mode_option
      (ResOk default_PipelineOptions)))))))))))"

definition parseOptions :: "'d json \<Rightarrow> PipelineOptions result" where
  "parseOptions doc =
     (if \<not> js_contains doc ''options'' then ResOk default_PipelineOptions
      else let opts = js_member doc ''options'';
               known = checkKnownKeys opts (quoted ''options'') [''mode'', ''num_workers'', ''execution_timeout_ms'', ''queue_capacity'', ''drop_strategy'',
                 ''enable_sync_coordination'', ''enable_statistics'', ''alignment_policy'', ''alignment_tolerance_us'', ''join_wait_timeout_ms'', ''join_timeout_policy'']
           in if \<not> js_is_object opts then err InvalidConfiguration (quoted ''options'' @ '' must be an object'')
              else if \<not> void_isOk known then ResErr (void_error known)
              else read_options opts)"

section \<open>Assembling the graph\<close>

text \<open>An entry of \<open>nodes\<close> up to the call of the registry: type, name and configuration.\<close>

definition parse_node :: "(int \<Rightarrow> 'd) \<Rightarrow> 'd json \<Rightarrow> (string \<times> string \<times> 'd config_value DataPacket) result" where
  "parse_node dbl entry =
     (let known = checkKnownKeys entry (''a '' @ quoted ''nodes'' @ '' entry'') [''type'', ''name'', ''config'']
      in if \<not> js_is_object entry then err InvalidConfiguration (''Each '' @ quoted ''nodes'' @ '' entry must be an object'')
         else if \<not> void_isOk known then ResErr (void_error known)
         else if \<not> js_contains entry ''type'' \<or> \<not> js_is_string (js_member entry ''type'') \<or>
              \<not> js_contains entry ''name'' \<or> \<not> js_is_string (js_member entry ''name'')
         then err InvalidConfiguration (''Each '' @ quoted ''nodes'' @ '' entry requires string '' @ quoted ''type'' @ '' and '' @ quoted ''name'')
         else let type = js_string (js_member entry ''type''); name = js_string (js_member entry ''name'')
              in if name = [] then err InvalidConfiguration ''Node names must be non-empty''
                 else if js_contains entry ''config''
                 then if \<not> js_is_object (js_member entry ''config'')
                      then err InvalidConfiguration (''Node '' @ quoted name @ '': '' @ quoted ''config'' @ '' must be an object'')
                      else (case set_config_params dbl name (js_items (js_member entry ''config'')) emptyPacket of
                              ResErr e \<Rightarrow> ResErr e | ResOk config \<Rightarrow> ResOk (type, name, config))
                 else ResOk (type, name, emptyPacket))"

fun load_nodes :: "node_env \<Rightarrow> (int \<Rightarrow> 'd) \<Rightarrow> ('d config_value, 'h) NodeRegistry \<Rightarrow> 'd json list \<Rightarrow> Graph \<Rightarrow> 'h \<Rightarrow> Graph result attempt \<times> 'h" where
  "load_nodes ni dbl registry [] graph h = (Returned (ResOk graph), h)"
| "load_nodes ni dbl registry (entry # entries) graph h =
     (case parse_node dbl entry of
        ResErr e \<Rightarrow> (Returned (ResErr e), h)
      | ResOk (type, name, config) \<Rightarrow>
          (case registry_create type name config registry h of
             (ThrewStd what, h) \<Rightarrow> (ThrewStd what, h)
           | (ThrewUnknown, h) \<Rightarrow> (ThrewUnknown, h)
           | (Returned (ResErr e), h) \<Rightarrow>
               (Returned (err InvalidConfiguration (''Node '' @ quoted name @ '' (type '' @ quoted type @ '') could not be created: '' @ Error_toString e)), h)
           | (Returned (ResOk node), h) \<Rightarrow>
               (case addNode ni graph node of
                  (False, graph) \<Rightarrow> (Returned (err InvalidConfiguration (''Duplicate node name: '' @ quoted name)), h)
                | (True, graph) \<Rightarrow> load_nodes ni dbl registry entries graph h)))"

text \<open>An entry of \<open>edges\<close> up to the call of the graph: both nodes and ports.\<close>

definition parse_edge :: "nat \<Rightarrow> 'd json \<Rightarrow> (string \<times> string \<times> string \<times> string) result attempt" where
  "parse_edge index entry =
     (let place = ''edge #'' @ to_string index; known = checkKnownKeys entry place [''from'', ''to'']
      in if \<not> js_is_object entry then Returned (err InvalidConfiguration (place @ '': each entry must be an object''))
         else if \<not> void_isOk known then Returned (ResErr (void_error known))
         else if \<not> js_contains entry ''from'' \<or> \<not> js_contains entry ''to''
         then Returned (err InvalidConfiguration (place @ '': requires '' @ quoted ''from'' @ '' and '' @ quoted ''to''))
         else case parseEndpoint (js_member entry ''from'') ''from'' index of
                ThrewStd what \<Rightarrow> ThrewStd what
              | ThrewUnknown \<Rightarrow> ThrewUnknown
              | Returned (ResErr e) \<Rightarrow> Returned (ResErr e)
              | Returned (ResOk (from_node, from_port)) \<Rightarrow>
                  (case parseEndpoint (js_member entry ''to'') ''to'' index of
                     ThrewStd what \<Rightarrow> ThrewStd what
                   | ThrewUnknown \<Rightarrow> ThrewUnknown
                   | Returned (ResErr e) \<Rightarrow> Returned (ResErr e)
                   | Returned (ResOk (to_node, to_port)) \<Rightarrow> Returned (ResOk (from_node, from_port, to_node, to_port))))"

fun load_edges :: "node_env \<Rightarrow> nat \<Rightarrow> 'd json list \<Rightarrow> Graph \<Rightarrow> Graph result attempt" where
  "load_edges ni index [] graph = Returned (ResOk graph)"
| "load_edges ni index (entry # entries) graph =
     (case parse_edge index entry of
        ThrewStd what \<Rightarrow> ThrewStd what
      | ThrewUnknown \<Rightarrow> ThrewUnknown
      | Returned (ResErr e) \<Rightarrow> Returned (ResErr e)
      | Returned (ResOk (from_node, from_port, to_node, to_port)) \<Rightarrow>
          (case addEdge ni graph from_node from_port to_node to_port of
             (False, graph) \<Rightarrow> Returned (err InvalidConfiguration (''edge #'' @ to_string index @ '' ('' @ from_node @ ''.'' @ from_port @ '' -> '' @
               to_node @ ''.'' @ to_port @ '') was rejected: check node names, declared ports, payload types, and duplicates (see log for details)''))
           | (True, graph) \<Rightarrow> load_edges ni (index + 1) entries graph))"


text \<open>The entries of the document that the two loops see.\<close>

definition doc_nodes :: "'d json \<Rightarrow> 'd json list" where
  "doc_nodes doc = js_elements (js_member doc ''nodes'')"

definition doc_edges :: "'d json \<Rightarrow> 'd json list" where
  "doc_edges doc = (if js_contains doc ''edges'' then js_elements (js_member doc ''edges'') else [])"

text \<open>The second half of \<open>assembleGraph\<close>: the edges and the search for a cycle.\<close>

definition link_graph :: "node_env \<Rightarrow> 'd json \<Rightarrow> Graph \<Rightarrow> Graph result attempt option" where
  "link_graph ni doc graph =
     (if js_contains doc ''edges'' \<and> \<not> js_is_array (js_member doc ''edges'')
      then Some (Returned (err InvalidConfiguration (quoted ''edges'' @ '' must be an array'')))
      else case load_edges ni 0 (doc_edges doc) graph of
             ThrewStd what \<Rightarrow> Some (ThrewStd what)
           | ThrewUnknown \<Rightarrow> Some ThrewUnknown
           | Returned (ResErr e) \<Rightarrow> Some (Returned (ResErr e))
           | Returned (ResOk graph) \<Rightarrow>
               (case hasCycle graph of
                  None \<Rightarrow> None
                | Some True \<Rightarrow> Some (Returned (err GraphCycleDetected ''The described graph contains a cycle''))
                | Some False \<Rightarrow> Some (Returned (ResOk graph))))"

definition assembleGraph :: "node_env \<Rightarrow> (int \<Rightarrow> 'd) \<Rightarrow> ('d config_value, 'h) NodeRegistry \<Rightarrow> 'd json \<Rightarrow> 'h \<Rightarrow> (Graph result attempt \<times> 'h) option" where
  "assembleGraph ni dbl registry doc h =
     (let known = checkKnownKeys doc ''top-level document'' [''nodes'', ''edges'', ''options'']
      in if \<not> js_is_object doc then Some (Returned (err InvalidConfiguration ''Top-level JSON value must be an object''), h)
         else if \<not> void_isOk known then Some (Returned (ResErr (void_error known)), h)
         else if \<not> js_contains doc ''nodes'' \<or> \<not> js_is_array (js_member doc ''nodes'') \<or> doc_nodes doc = []
         then Some (Returned (err InvalidConfiguration (quoted ''nodes'' @ '' must be a non-empty array'')), h)
         else case load_nodes ni dbl registry (doc_nodes doc) emptyGraph h of
                (ThrewStd what, h) \<Rightarrow> Some (ThrewStd what, h)
              | (ThrewUnknown, h) \<Rightarrow> Some (ThrewUnknown, h)
              | (Returned (ResErr e), h) \<Rightarrow> Some (Returned (ResErr e), h)
              | (Returned (ResOk graph), h) \<Rightarrow> map_option (\<lambda>out. (out, h)) (link_graph ni doc graph))"

section \<open>Entry points\<close>

definition parseDocument :: "(string \<Rightarrow> string + 'd json) \<Rightarrow> string \<Rightarrow> 'd json result" where
  "parseDocument parser json_text =
     (case parser json_text of Inr doc \<Rightarrow> ResOk doc | Inl what \<Rightarrow> err InvalidConfiguration (''JSON parse error: '' @ what))"

definition readFile :: "(string \<Rightarrow> string option) \<Rightarrow> string \<Rightarrow> string result" where
  "readFile files path = (case files path of None \<Rightarrow> err InvalidArgument (''Cannot open JSON graph file: '' @ path) | Some content \<Rightarrow> ResOk content)"

definition loadGraphFromJson :: "node_env \<Rightarrow> (string \<Rightarrow> string + 'd json) \<Rightarrow> (int \<Rightarrow> 'd) \<Rightarrow> ('d config_value, 'h) NodeRegistry \<Rightarrow> string \<Rightarrow> 'h \<Rightarrow> (Graph result attempt \<times> 'h) option" where
  "loadGraphFromJson ni parser dbl registry json_text h =
     (case parseDocument parser json_text of ResErr e \<Rightarrow> Some (Returned (ResErr e), h) | ResOk doc \<Rightarrow> assembleGraph ni dbl registry doc h)"

definition loadGraphFromJsonFile :: "node_env \<Rightarrow> (string \<Rightarrow> string + 'd json) \<Rightarrow> (int \<Rightarrow> 'd) \<Rightarrow> (string \<Rightarrow> string option) \<Rightarrow> ('d config_value, 'h) NodeRegistry \<Rightarrow> string \<Rightarrow> 'h \<Rightarrow>
    (Graph result attempt \<times> 'h) option" where
  "loadGraphFromJsonFile ni parser dbl files registry path h =
     (case readFile files path of ResErr e \<Rightarrow> Some (Returned (ResErr e), h) | ResOk content \<Rightarrow> loadGraphFromJson ni parser dbl registry content h)"

record PipelineDescription =
  pd_graph :: Graph
  pd_options :: PipelineOptions

definition loadPipelineFromJson :: "node_env \<Rightarrow> (string \<Rightarrow> string + 'd json) \<Rightarrow> (int \<Rightarrow> 'd) \<Rightarrow> ('d config_value, 'h) NodeRegistry \<Rightarrow> string \<Rightarrow> 'h \<Rightarrow>
    (PipelineDescription result attempt \<times> 'h) option" where
  "loadPipelineFromJson ni parser dbl registry json_text h =
     (case parseDocument parser json_text of
        ResErr e \<Rightarrow> Some (Returned (ResErr e), h)
      | ResOk doc \<Rightarrow>
          (case assembleGraph ni dbl registry doc h of
             None \<Rightarrow> None
           | Some (ThrewStd what, h) \<Rightarrow> Some (ThrewStd what, h)
           | Some (ThrewUnknown, h) \<Rightarrow> Some (ThrewUnknown, h)
           | Some (Returned (ResErr e), h) \<Rightarrow> Some (Returned (ResErr e), h)
           | Some (Returned (ResOk graph), h) \<Rightarrow>
               (case parseOptions doc of
                  ResErr e \<Rightarrow> Some (Returned (ResErr e), h)
                | ResOk options \<Rightarrow> Some (Returned (ResOk \<lparr> pd_graph = graph, pd_options = options \<rparr>), h))))"

definition loadPipelineFromJsonFile :: "node_env \<Rightarrow> (string \<Rightarrow> string + 'd json) \<Rightarrow> (int \<Rightarrow> 'd) \<Rightarrow> (string \<Rightarrow> string option) \<Rightarrow> ('d config_value, 'h) NodeRegistry \<Rightarrow> string \<Rightarrow> 'h \<Rightarrow>
    (PipelineDescription result attempt \<times> 'h) option" where
  "loadPipelineFromJsonFile ni parser dbl files registry path h =
     (case readFile files path of ResErr e \<Rightarrow> Some (Returned (ResErr e), h) | ResOk content \<Rightarrow> loadPipelineFromJson ni parser dbl registry content h)"


section \<open>Outcomes\<close>

text \<open>The name of an edge as a document gives it, and the creation of a list of nodes in order.\<close>

definition link_of :: "node_env \<Rightarrow> Edge \<Rightarrow> string \<times> string \<times> string \<times> string" where
  "link_of ni e = (getName (ni (source_node e)), source_port e, getName (ni (dest_node e)), dest_port e)"

inductive created :: "('c, 'h) NodeRegistry \<Rightarrow> (string \<times> string \<times> 'c DataPacket) list \<Rightarrow> 'h \<Rightarrow> ptr list \<Rightarrow> 'h \<Rightarrow> bool"
  for registry where
  created_none: "created registry [] h [] h"
| created_next: "registry_create type name config registry h = (Returned (ResOk (Some p)), h1) \<Longrightarrow> created registry nodes h1 ps h' \<Longrightarrow>
     created registry ((type, name, config) # nodes) h (p # ps) h'"

definition bad_port :: "'d json \<Rightarrow> bool" where
  "bad_port endpoint \<longleftrightarrow> js_is_object endpoint \<and> js_contains endpoint ''port'' \<and> \<not> js_is_string (js_member endpoint ''port'')"

text \<open>The exception of a call: its message, or \<open>None\<close> for one that is no \<open>std::exception\<close>.\<close>

fun raised :: "'a attempt \<Rightarrow> string option option" where
  "raised (ThrewStd what) = Some (Some what)"
| "raised ThrewUnknown = Some None"
| "raised (Returned x) = None"

text \<open>The factory of one entry raised the exception, after the entries before it had been created.\<close>

definition factory_threw :: "(int \<Rightarrow> 'd) \<Rightarrow> ('d config_value, 'h) NodeRegistry \<Rightarrow> 'd json list \<Rightarrow> 'h \<Rightarrow> string option \<Rightarrow> 'h \<Rightarrow> bool" where
  "factory_threw dbl registry entries h x h' \<longleftrightarrow>
     (\<exists>before entry after nodes ps h1 type name config. entries = before @ entry # after \<and> map (parse_node dbl) before = map ResOk nodes \<and>
        created registry nodes h ps h1 \<and> parse_node dbl entry = ResOk (type, name, config) \<and>
        raised (fst (registry_create type name config registry h1)) = Some x \<and> snd (registry_create type name config registry h1) = h')"

lemma known_keys_code: "\<not> void_isOk (checkKnownKeys obj what allowed) \<Longrightarrow> err_code (void_error (checkKnownKeys obj what allowed)) = InvalidConfiguration"
  by (auto simp: checkKnownKeys_def loader_err_def void_err_def mkError_def split: option.splits)

lemma set_config_code: "set_config_params dbl name items config = ResErr e \<Longrightarrow> err_code e = InvalidConfiguration"
proof (induction items arbitrary: config)
  case (Cons item items)
  obtain key v where item: "item = (key, v)" by fastforce
  obtain r config' where set: "setConfigParam dbl config name key v = (r, config')" by fastforce
  have "\<not> void_isOk r \<Longrightarrow> err_code (void_error r) = InvalidConfiguration"
    using set by (auto simp: setConfigParam_def loader_err_def void_err_def mkError_def Let_def split: json.splits if_splits)
  then show ?case using Cons set item by (auto split: if_splits)
qed simp

lemma parse_node_code: "parse_node dbl entry = ResErr e \<Longrightarrow> err_code e = InvalidConfiguration"
  by (auto simp: parse_node_def err_def mkError_def Let_def known_keys_code set_config_code split: if_splits result.splits)

lemma parseEndpoint_code: "parseEndpoint endpoint side i = Returned (ResErr e) \<Longrightarrow> err_code e = InvalidConfiguration"
  by (auto simp: parseEndpoint_def err_def mkError_def Let_def known_keys_code split: if_splits option.splits attempt.splits)

lemma js_value_string_object:
  "js_is_object v \<Longrightarrow> js_value_string v key d = (if js_contains v key then js_get_string (js_member v key) else Returned d)"
  by (simp add: js_value_string_def js_contains_def js_member_def split: option.split)

lemma parseEndpoint_throws:
  assumes "parseEndpoint endpoint side i = ThrewStd what \<or> parseEndpoint endpoint side i = ThrewUnknown"
  shows "bad_port endpoint"
proof -
  have "js_is_object endpoint" "js_value_string endpoint ''port'' [] = ThrewStd what \<or> js_value_string endpoint ''port'' [] = ThrewUnknown"
    using assms by (auto simp: parseEndpoint_def Let_def split: if_splits option.splits attempt.splits)
  then show ?thesis by (auto simp: js_value_string_object js_get_string_def bad_port_def split: if_splits)
qed

lemma parse_edge_code: "parse_edge i entry = Returned (ResErr e) \<Longrightarrow> err_code e = InvalidConfiguration"
  by (auto simp: parse_edge_def err_def mkError_def Let_def known_keys_code parseEndpoint_code split: if_splits attempt.splits result.splits)

lemma parse_edge_throws:
  assumes "parse_edge i entry = ThrewStd what \<or> parse_edge i entry = ThrewUnknown"
  shows "bad_port (js_member entry ''from'') \<or> bad_port (js_member entry ''to'')"
  using assms parseEndpoint_throws [of "js_member entry ''from''" "''from''" i what]
    parseEndpoint_throws [of "js_member entry ''to''" "''to''" i what]
  by (auto simp: parse_edge_def Let_def split: if_splits attempt.splits result.splits)


lemma load_nodes_code: "load_nodes ni dbl registry entries g h = (Returned (ResErr e), h') \<Longrightarrow> err_code e = InvalidConfiguration"
  by (induction entries arbitrary: g h)
    (auto simp: parse_node_code err_def mkError_def split: result.splits attempt.splits prod.splits bool.splits)

lemma load_nodes_throws:
  "load_nodes ni dbl registry entries g h = (out, h') \<Longrightarrow> raised out = Some x \<Longrightarrow> factory_threw dbl registry entries h x h'"
proof (induction entries arbitrary: g h)
  case (Cons entry entries)
  then obtain type name config where d: "parse_node dbl entry = ResOk (type, name, config)"
    by (cases "parse_node dbl entry") auto
  obtain r h1 where r: "registry_create type name config registry h = (r, h1)" by fastforce
  show ?case
  proof (cases "raised r")
    case None
    then obtain node g1 where node: "r = Returned (ResOk node)" "addNode ni g node = (True, g1)" "load_nodes ni dbl registry entries g1 h1 = (out, h')"
      using Cons.prems d r by (cases r) (auto split: result.splits prod.splits bool.splits)
    obtain p where p: "node = Some p" using node(2) by (auto simp: addNode_cases split: option.splits)
    from Cons.IH [OF node(3) Cons.prems(2)] obtain before e after nodes ps h2 t n c where IH: "entries = before @ e # after"
        "map (parse_node dbl) before = map ResOk nodes" "created registry nodes h1 ps h2" "parse_node dbl e = ResOk (t, n, c)"
        "raised (fst (registry_create t n c registry h2)) = Some x" "snd (registry_create t n c registry h2) = h'"
      unfolding factory_threw_def by blast
    have "created registry ((type, name, config) # nodes) h (p # ps) h2" using r node(1) p IH(3) by (auto intro: created_next)
    moreover have "entry # entries = (entry # before) @ e # after" "map (parse_node dbl) (entry # before) = map ResOk ((type, name, config) # nodes)"
      using IH(1,2) d by simp_all
    ultimately show ?thesis unfolding factory_threw_def using IH(4-6) by blast
  next
    case (Some y)
    then have "y = x" "h1 = h'" using Cons.prems d r by (cases r; auto)+
    moreover have "entry # entries = [] @ entry # entries" "map (parse_node dbl) [] = map ResOk []" by simp_all
    ultimately show ?thesis unfolding factory_threw_def using Some d r created_none [of registry h] by (metis fst_conv snd_conv)
  qed
qed auto

lemma load_nodes_ok:
  assumes "load_nodes ni dbl registry entries g h = (Returned (ResOk g'), h')" and "wf_graph ni g"
  shows "\<exists>nodes ps. map (parse_node dbl) entries = map ResOk nodes \<and> created registry nodes h ps h' \<and> m_nodes g' = m_nodes g @ ps \<and>
    m_edges g' = m_edges g \<and> wf_graph ni g'"
  using assms
proof (induction entries arbitrary: g h)
  case Nil
  then have "map (parse_node dbl) [] = map ResOk [] \<and> created registry [] h [] h' \<and> m_nodes g' = m_nodes g @ [] \<and> m_edges g' = m_edges g \<and> wf_graph ni g'"
    by (simp add: created_none)
  then show ?case by blast
next
  case (Cons entry entries)
  from Cons.prems(1) obtain type name config where d: "parse_node dbl entry = ResOk (type, name, config)"
    by (auto split: result.splits)
  with Cons.prems(1) obtain node h1 where node: "registry_create type name config registry h = (Returned (ResOk node), h1)"
    by (auto split: attempt.splits result.splits prod.splits)
  with Cons.prems(1) d obtain g1 where g1: "addNode ni g node = (True, g1)" "load_nodes ni dbl registry entries g1 h1 = (Returned (ResOk g'), h')"
    by (auto split: prod.splits bool.splits)
  obtain p where p: "node = Some p" "m_nodes g1 = m_nodes g @ [p]" "m_edges g1 = m_edges g"
    using g1(1) by (auto simp: addNode_cases split: option.splits if_splits)
  have "wf_graph ni g1" using wf_addNode [OF Cons.prems(2), of node] g1(1) by simp
  from Cons.IH [OF g1(2) this] obtain nodes ps where IH: "map (parse_node dbl) entries = map ResOk nodes" "created registry nodes h1 ps h'"
      "m_nodes g' = m_nodes g1 @ ps" "m_edges g' = m_edges g1" "wf_graph ni g'"
    by blast
  have "created registry ((type, name, config) # nodes) h (p # ps) h'" using node p(1) IH(2) by (auto intro: created_next)
  then show ?case using d IH p(2,3) by (intro exI [of _ "(type, name, config) # nodes"] exI [of _ "p # ps"]) simp
qed

lemma load_edges_code: "load_edges ni i entries g = Returned (ResErr e) \<Longrightarrow> err_code e = InvalidConfiguration"
  by (induction entries arbitrary: i g)
    (auto simp: parse_edge_code err_def mkError_def split: attempt.splits result.splits prod.splits bool.splits)

lemma load_edges_throws:
  assumes "raised (load_edges ni i entries g) = Some x"
  shows "\<exists>before entry after. entries = before @ entry # after \<and> raised (parse_edge (i + length before) entry) = Some x \<and>
    (bad_port (js_member entry ''from'') \<or> bad_port (js_member entry ''to''))"
  using assms
proof (induction entries arbitrary: i g)
  case (Cons entry entries)
  show ?case
  proof (cases "raised (parse_edge i entry)")
    case None
    then obtain g1 where "raised (load_edges ni (Suc i) entries g1) = Some x"
      using Cons.prems by (cases "parse_edge i entry") (auto split: result.splits prod.splits bool.splits)
    from Cons.IH [OF this] obtain before e after where IH: "entries = before @ e # after" "raised (parse_edge (Suc i + length before) e) = Some x"
        "bad_port (js_member e ''from'') \<or> bad_port (js_member e ''to'')"
      by blast
    then show ?thesis by (intro exI [of _ "entry # before"] exI [of _ e] exI [of _ after]) simp
  next
    case (Some y)
    then have y: "raised (parse_edge (i + length []) entry) = Some x" using Cons.prems by (cases "parse_edge i entry") auto
    then have "bad_port (js_member entry ''from'') \<or> bad_port (js_member entry ''to'')"
      using parse_edge_throws [of i entry] by (cases "parse_edge i entry") auto
    then show ?thesis using y by (intro exI [of _ "[]"] exI [of _ entry] exI [of _ entries]) simp
  qed
qed simp

lemma load_edges_ok:
  assumes "load_edges ni i entries g = Returned (ResOk g')" and "wf_graph ni g"
  shows "\<exists>links. map2 parse_edge [i..<i + length entries] entries = map (\<lambda>l. Returned (ResOk l)) links \<and>
    map (link_of ni) (m_edges g') = map (link_of ni) (m_edges g) @ links \<and> m_nodes g' = m_nodes g \<and> wf_graph ni g'"
  using assms
proof (induction entries arbitrary: i g)
  case (Cons entry entries)
  from Cons.prems(1) obtain fn fp tn tp where l: "parse_edge i entry = Returned (ResOk (fn, fp, tn, tp))"
    by (auto split: attempt.splits result.splits)
  with Cons.prems(1) obtain g1 where g1: "addEdge ni g fn fp tn tp = (True, g1)" "load_edges ni (Suc i) entries g1 = Returned (ResOk g')"
    by (auto split: prod.splits bool.splits)
  have wf: "wf_graph ni g1" using wf_addEdge [OF Cons.prems(2), of fn fp tn tp] g1(1) by simp
  obtain s d where sd: "m_nodeMap g fn = Some s" "m_nodeMap g tn = Some d" "m_edges g1 = m_edges g @ [mkEdge s fp d tp]" "m_nodes g1 = m_nodes g"
    using g1(1) by (auto simp: addEdge_cases split: option.splits if_splits)
  then have link: "map (link_of ni) (m_edges g1) = map (link_of ni) (m_edges g) @ [(fn, fp, tn, tp)]"
    using wf_graphD(2) [OF Cons.prems(2)] by (simp add: link_of_def mkEdge_def)
  from Cons.IH [OF g1(2) wf] obtain links where IH: "map2 parse_edge [Suc i..<Suc i + length entries] entries = map (\<lambda>l. Returned (ResOk l)) links"
      "map (link_of ni) (m_edges g') = map (link_of ni) (m_edges g1) @ links" "m_nodes g' = m_nodes g1" "wf_graph ni g'"
    by blast
  have "[i..<i + length (entry # entries)] = i # [Suc i..<Suc i + length entries]" by (simp add: upt_conv_Cons del: upt_Suc)
  then show ?case using l IH link sd(4) by (intro exI [of _ "(fn, fp, tn, tp) # links"]) simp
qed auto


text \<open>The options a document can give: at least one worker, and counts of time that fit their type.\<close>

definition options_ok :: "PipelineOptions \<Rightarrow> bool" where
  "options_ok options \<longleftrightarrow> 1 \<le> unat (po_num_workers options) \<and> po_queue_capacity options < 2 ^ 64 \<and>
     po_execution_timeout options \<in> {0..<2 ^ 63} \<and> po_alignment_tolerance options \<in> {0..<2 ^ 63} \<and> po_join_wait_timeout options \<in> {0..<2 ^ 63}"

definition parsed_ok :: "PipelineOptions result \<Rightarrow> bool" where
  "parsed_ok r \<longleftrightarrow> (case r of ResOk options \<Rightarrow> options_ok options | ResErr e \<Rightarrow> err_code e = InvalidConfiguration)"

lemma on_option_ok:
  "parsed_ok r \<Longrightarrow> (\<And>v options. options_ok options \<Longrightarrow> parsed_ok (f v options)) \<Longrightarrow> parsed_ok (on_option opts key f r)"
  by (cases r) (auto simp: on_option_def parsed_ok_def)

lemma uint_option_ok:
  "(\<And>n. min_value \<le> n \<Longrightarrow> n \<le> max_value \<Longrightarrow> options_ok (upd n options)) \<Longrightarrow> parsed_ok (uint_option key min_value max_value upd v options)"
  by (auto simp: uint_option_def parseUintOption_def parsed_ok_def err_def mkError_def Let_def)

lemma options_ok_default: "options_ok default_PipelineOptions" "options_ok (batch_options 4)" "options_ok (stream_options 4 16)"
  by (simp_all add: options_ok_def default_PipelineOptions_def batch_options_def stream_options_def)

lemma workers_ok: "1 \<le> n \<Longrightarrow> n \<le> 255 \<Longrightarrow> 1 \<le> unat (word_of_nat n :: 8 word)"
  by (simp add: unat_of_nat)

lemma int64_ok: "n \<le> 2 ^ 63 - 1 \<Longrightarrow> int n \<in> {0..<2 ^ 63}"
  by simp

lemma parseOptions_ok: "parsed_ok (parseOptions doc)"
proof -
  have leaf: "parsed_ok (mode_option v options)" "parsed_ok (drop_strategy_option v options)" "parsed_ok (alignment_policy_option v options)"
    "parsed_ok (join_timeout_policy_option v options)" "parsed_ok (bool_option key (\<lambda>b options. options \<lparr> po_enable_statistics := b \<rparr>) v options)"
    "parsed_ok (bool_option key (\<lambda>b options. options \<lparr> po_enable_sync_coordination := b \<rparr>) v options)" if "options_ok options" for options v key
    using that options_ok_default
    by (auto simp: mode_option_def drop_strategy_option_def alignment_policy_option_def join_timeout_policy_option_def bool_option_def parsed_ok_def
        options_ok_def err_def mkError_def)
  have number: "parsed_ok (uint_option key 0 (2 ^ 63 - 1) (\<lambda>n options. options \<lparr> po_join_wait_timeout := int n \<rparr>) v options)"
    "parsed_ok (uint_option key 0 (2 ^ 63 - 1) (\<lambda>n options. options \<lparr> po_alignment_tolerance := int n \<rparr>) v options)"
    "parsed_ok (uint_option key 0 (2 ^ 63 - 1) (\<lambda>n options. options \<lparr> po_execution_timeout := int n \<rparr>) v options)"
    "parsed_ok (uint_option key 0 (2 ^ 64 - 1) (\<lambda>n options. options \<lparr> po_queue_capacity := n \<rparr>) v options)"
    "parsed_ok (uint_option key 1 255 (\<lambda>n options. options \<lparr> po_num_workers := word_of_nat n \<rparr>) v options)" if "options_ok options" for options v key
    using that int64_ok workers_ok by (auto simp: options_ok_def intro!: uint_option_ok)
  have base: "parsed_ok (ResOk default_PipelineOptions)" using options_ok_default by (simp add: parsed_ok_def)
  have bad: "parsed_ok (err InvalidConfiguration message)" for message by (simp add: parsed_ok_def err_def mkError_def)
  have keys: "\<not> void_isOk (checkKnownKeys opts what allowed) \<Longrightarrow> parsed_ok (ResErr (void_error (checkKnownKeys opts what allowed)))" for opts what allowed
    by (simp add: parsed_ok_def known_keys_code)
  have branch: "(c \<Longrightarrow> parsed_ok a) \<Longrightarrow> (\<not> c \<Longrightarrow> parsed_ok b) \<Longrightarrow> parsed_ok (if c then a else b)" for c a b by simp
  show ?thesis
    unfolding parseOptions_def read_options_def Let_def by (rule branch base bad keys on_option_ok leaf number | assumption)+
qed

text \<open>The values the document gives for the options are the values of the result.\<close>

definition named_policy :: "string \<Rightarrow> AlignmentPolicy" where
  "named_policy name = (if name = ''frame_id'' then AlignFrameId else if name = ''stream_frame_id'' then AlignStreamFrameId else AlignTimestamp)"

definition options_from :: "'d json \<Rightarrow> PipelineOptions \<Rightarrow> bool" where
  "options_from opts options \<longleftrightarrow>
     (js_contains opts ''mode'' \<longrightarrow> po_mode options = (if js_string (js_member opts ''mode'') = ''batch'' then BATCH else STREAM)) \<and>
     (js_contains opts ''num_workers'' \<longrightarrow> unat (po_num_workers options) = js_uint64 (js_member opts ''num_workers'')) \<and>
     (js_contains opts ''execution_timeout_ms'' \<longrightarrow> po_execution_timeout options = int (js_uint64 (js_member opts ''execution_timeout_ms''))) \<and>
     (js_contains opts ''queue_capacity'' \<longrightarrow> po_queue_capacity options = js_uint64 (js_member opts ''queue_capacity'')) \<and>
     (js_contains opts ''drop_strategy'' \<longrightarrow> po_drop_strategy options = js_string (js_member opts ''drop_strategy'')) \<and>
     (js_contains opts ''enable_sync_coordination'' \<longrightarrow> po_enable_sync_coordination options = js_bool (js_member opts ''enable_sync_coordination'')) \<and>
     (js_contains opts ''enable_statistics'' \<longrightarrow> po_enable_statistics options = js_bool (js_member opts ''enable_statistics'')) \<and>
     (js_contains opts ''alignment_policy'' \<longrightarrow> po_alignment_policy options = named_policy (js_string (js_member opts ''alignment_policy''))) \<and>
     (js_contains opts ''alignment_tolerance_us'' \<longrightarrow> po_alignment_tolerance options = int (js_uint64 (js_member opts ''alignment_tolerance_us''))) \<and>
     (js_contains opts ''join_wait_timeout_ms'' \<longrightarrow> po_join_wait_timeout options = int (js_uint64 (js_member opts ''join_wait_timeout_ms''))) \<and>
     (js_contains opts ''join_timeout_policy'' \<longrightarrow>
        po_join_timeout_policy options = (if js_string (js_member opts ''join_timeout_policy'') = ''partial_inputs'' then PartialInputs else SkipFrame))"

lemma option_setters:
  "uint_option key lo hi upd v options0 = ResOk options \<Longrightarrow> options = upd (js_uint64 v) options0"
  "bool_option key updb v options0 = ResOk options \<Longrightarrow> options = updb (js_bool v) options0"
  "drop_strategy_option v options0 = ResOk options \<Longrightarrow> options = options0 \<lparr> po_drop_strategy := js_string v \<rparr>"
  "mode_option v options0 = ResOk options \<Longrightarrow> po_mode options = (if js_string v = ''batch'' then BATCH else STREAM)"
  "alignment_policy_option v options0 = ResOk options \<Longrightarrow> options = options0 \<lparr> po_alignment_policy := named_policy (js_string v) \<rparr>"
  "join_timeout_policy_option v options0 = ResOk options \<Longrightarrow>
     options = options0 \<lparr> po_join_timeout_policy := (if js_string v = ''partial_inputs'' then PartialInputs else SkipFrame) \<rparr>"
  by (auto simp: uint_option_def parseUintOption_def bool_option_def drop_strategy_option_def mode_option_def alignment_policy_option_def
      join_timeout_policy_option_def batch_options_def stream_options_def named_policy_def err_def Let_def
      split: if_splits)

definition gives :: "(PipelineOptions \<Rightarrow> 'f) \<Rightarrow> 'f \<Rightarrow> bool \<Rightarrow> PipelineOptions result \<Rightarrow> bool" where
  "gives field x c r \<longleftrightarrow> (\<forall>options. r = ResOk options \<longrightarrow> c \<longrightarrow> field options = x)"

lemma gives_set:
  "(\<And>options0 options. f (js_member opts key) options0 = ResOk options \<Longrightarrow> field options = x) \<Longrightarrow>
     gives field x (js_contains opts key) (on_option opts key f r)"
  by (auto simp: gives_def on_option_def split: result.splits)

lemma gives_keep:
  "gives field x c r \<Longrightarrow> (\<And>v options0 options. f v options0 = ResOk options \<Longrightarrow> field options = field options0) \<Longrightarrow>
     gives field x c (on_option opts key f r)"
  by (auto simp: gives_def on_option_def split: result.splits if_splits)

lemma workers_value:
  "uint_option key 1 255 (\<lambda>n options. options \<lparr> po_num_workers := word_of_nat n \<rparr>) v options0 = ResOk options \<Longrightarrow> unat (po_num_workers options) = js_uint64 v"
  by (auto simp: uint_option_def parseUintOption_def err_def Let_def unat_of_nat split: if_splits)

lemma read_options_from:
  assumes "read_options opts = ResOk options"
  shows "options_from opts options"
proof -
  have given: "gives field x c (read_options opts) \<Longrightarrow> c \<longrightarrow> field options = x" for c x and field :: "PipelineOptions \<Rightarrow> 'f"
    using assms by (simp add: gives_def)
  show ?thesis
    unfolding options_from_def
    by (intro conjI; rule given, unfold read_options_def, (rule gives_set gives_keep)+,
        (erule workers_value | (drule option_setters, (hypsubst | simp only:), simp?))+)
qed

lemma parseOptions_from: "parseOptions doc = ResOk options \<Longrightarrow> js_contains doc ''options'' \<Longrightarrow> options_from (js_member doc ''options'') options"
  by (rule read_options_from) (simp add: parseOptions_def Let_def err_def split: if_splits)

lemma parseOptions_none: "\<not> js_contains doc ''options'' \<Longrightarrow> parseOptions doc = ResOk default_PipelineOptions"
  by (simp add: parseOptions_def)

text \<open>What a loaded graph has to do with the document, and how a load may end otherwise.\<close>

definition assembled_from :: "node_env \<Rightarrow> (int \<Rightarrow> 'd) \<Rightarrow> ('d config_value, 'h) NodeRegistry \<Rightarrow> 'd json \<Rightarrow> 'h \<Rightarrow> 'h \<Rightarrow> Graph \<Rightarrow> bool" where
  "assembled_from ni dbl registry doc h h' g \<longleftrightarrow> wf_graph ni g \<and> acyclic (graph_rel g) \<and> m_nodes g \<noteq> [] \<and>
     (\<exists>nodes. map (parse_node dbl) (doc_nodes doc) = map ResOk nodes \<and> created registry nodes h (m_nodes g) h') \<and>
     map2 parse_edge [0..<length (doc_edges doc)] (doc_edges doc) = map (\<lambda>e. Returned (ResOk (link_of ni e))) (m_edges g)"

definition load_error :: "error_t \<Rightarrow> bool" where
  "load_error e \<longleftrightarrow> err_code e \<in> {InvalidConfiguration, GraphCycleDetected}"

text \<open>An exception left the load: raised by the factory of an entry, or, with all nodes created, by an edge with a bad port.\<close>

definition load_exception :: "(int \<Rightarrow> 'd) \<Rightarrow> ('d config_value, 'h) NodeRegistry \<Rightarrow> 'd json \<Rightarrow> 'h \<Rightarrow> string option \<Rightarrow> 'h \<Rightarrow> bool" where
  "load_exception dbl registry doc h x h' \<longleftrightarrow> factory_threw dbl registry (doc_nodes doc) h x h' \<or>
     (\<exists>nodes ps. map (parse_node dbl) (doc_nodes doc) = map ResOk nodes \<and> created registry nodes h ps h') \<and>
     (\<exists>before entry after. doc_edges doc = before @ entry # after \<and> raised (parse_edge (length before) entry) = Some x \<and>
        (bad_port (js_member entry ''from'') \<or> bad_port (js_member entry ''to'')))"

text \<open>How a load ends that does not return a graph.\<close>

definition load_failure :: "(int \<Rightarrow> 'd) \<Rightarrow> ('d config_value, 'h) NodeRegistry \<Rightarrow> 'd json \<Rightarrow> 'h \<Rightarrow> 'a result attempt \<Rightarrow> 'h \<Rightarrow> bool" where
  "load_failure dbl registry doc h out h' \<longleftrightarrow> (\<exists>e. out = Returned (ResErr e) \<and> load_error e) \<or> (\<exists>x. raised out = Some x \<and> load_exception dbl registry doc h x h')"

lemma link_graph_outcome:
  assumes "wf_graph ni g" and "m_edges g = []"
  shows "\<exists>out. link_graph ni doc g = Some out \<and>
    ((\<exists>g'. out = Returned (ResOk g') \<and> wf_graph ni g' \<and> acyclic (graph_rel g') \<and> m_nodes g' = m_nodes g \<and>
        map2 parse_edge [0..<length (doc_edges doc)] (doc_edges doc) = map (\<lambda>e. Returned (ResOk (link_of ni e))) (m_edges g')) \<or>
     (\<exists>e. out = Returned (ResErr e) \<and> load_error e) \<or>
     (\<exists>x before entry after. raised out = Some x \<and> doc_edges doc = before @ entry # after \<and> raised (parse_edge (length before) entry) = Some x \<and>
        (bad_port (js_member entry ''from'') \<or> bad_port (js_member entry ''to''))))"
proof (cases "load_edges ni 0 (doc_edges doc) g")
  case edges: (Returned r)
  show ?thesis
  proof (cases r)
    case (ResErr e)
    then show ?thesis
      using edges load_edges_code [of ni 0 "doc_edges doc" g e] by (simp add: link_graph_def load_error_def err_def mkError_def)
  next
    case (ResOk g')
    from load_edges_ok [OF edges [unfolded ResOk] assms(1)] obtain links where
        links: "map2 parse_edge [0..<0 + length (doc_edges doc)] (doc_edges doc) = map (\<lambda>l. Returned (ResOk l)) links"
        "map (link_of ni) (m_edges g') = map (link_of ni) (m_edges g) @ links" "m_nodes g' = m_nodes g" "wf_graph ni g'"
      by blast
    then have "links = map (link_of ni) (m_edges g')" using assms(2) by simp
    with links(1) [unfolded add_0]
    have "map2 parse_edge [0..<length (doc_edges doc)] (doc_edges doc) = map (\<lambda>e. Returned (ResOk (link_of ni e))) (m_edges g')"
      by (simp add: comp_def)
    then show ?thesis
      using edges ResOk links(3,4) hasCycle_wf [OF links(4)]
      by (cases "acyclic (graph_rel g')") (auto simp: link_graph_def load_error_def err_def mkError_def)
  qed
qed (use load_edges_throws [of ni 0 "doc_edges doc" g] in
  \<open>fastforce simp: link_graph_def load_error_def err_def mkError_def\<close>)+

lemma created_length: "created registry nodes h ps h' \<Longrightarrow> length nodes = length ps"
  by (induction rule: created.induct) simp_all

lemma assembleGraph_outcome:
  "\<exists>out h'. assembleGraph ni dbl registry doc h = Some (out, h') \<and>
    ((\<exists>g. out = Returned (ResOk g) \<and> assembled_from ni dbl registry doc h h' g) \<or> load_failure dbl registry doc h out h')"
proof -
  define known where "known = checkKnownKeys doc ''top-level document'' [''nodes'', ''edges'', ''options'']"
  define bad where "bad \<longleftrightarrow> \<not> js_is_object doc \<or> \<not> void_isOk known \<or> \<not> js_contains doc ''nodes'' \<or> \<not> js_is_array (js_member doc ''nodes'') \<or> doc_nodes doc = []"
  obtain out1 h1 where nodes: "load_nodes ni dbl registry (doc_nodes doc) emptyGraph h = (out1, h1)" by fastforce
  have at_once: "\<exists>e. assembleGraph ni dbl registry doc h = Some (Returned (ResErr e), h) \<and> err_code e = InvalidConfiguration" if bad
    using that known_keys_code [of doc "''top-level document''" "[''nodes'', ''edges'', ''options'']"]
    by (auto simp: assembleGraph_def bad_def known_def [symmetric] err_def mkError_def Let_def)
  have stage: "assembleGraph ni dbl registry doc h =
      (case out1 of ThrewStd what \<Rightarrow> Some (ThrewStd what, h1) | ThrewUnknown \<Rightarrow> Some (ThrewUnknown, h1)
       | Returned (ResErr e) \<Rightarrow> Some (Returned (ResErr e), h1)
       | Returned (ResOk g) \<Rightarrow> map_option (\<lambda>out. (out, h1)) (link_graph ni doc g))" if "\<not> bad"
    using that nodes by (auto simp: assembleGraph_def bad_def known_def [symmetric] Let_def split: attempt.split result.split)
  consider (refused) bad | (threw) x where "\<not> bad" "raised out1 = Some x" | (error) e where "\<not> bad" "out1 = Returned (ResErr e)"
    | (linked) g where "\<not> bad" "out1 = Returned (ResOk g)"
    by (metis attempt.exhaust result.exhaust raised.simps(1,2))
  then show ?thesis
  proof cases
    case refused
    then show ?thesis using at_once by (auto simp: load_error_def load_failure_def)
  next
    case threw
    then have "load_failure dbl registry doc h out1 h1"
      using load_nodes_throws [OF nodes threw(2)] by (auto simp: load_failure_def load_exception_def)
    then show ?thesis using threw stage by (cases out1) (auto simp: load_failure_def)
  next
    case error
    then show ?thesis using stage nodes load_nodes_code by (auto simp: load_error_def load_failure_def)
  next
    case linked
    from load_nodes_ok [OF nodes [unfolded linked(2)] wf_emptyGraph] obtain ns ps where
      ns: "map (parse_node dbl) (doc_nodes doc) = map ResOk ns" "created registry ns h ps h1" "m_nodes g = ps" "m_edges g = []" "wf_graph ni g"
      by (auto simp: emptyGraph_def)
    have "length ns = length (doc_nodes doc)" using ns(1) by (metis length_map)
    then have ps: "ps \<noteq> []" using created_length [OF ns(2)] linked(1) by (auto simp: bad_def)
    have made: "\<exists>nodes. map (parse_node dbl) (doc_nodes doc) = map ResOk nodes \<and> created registry nodes h (m_nodes g) h1"
      using ns(1-3) by blast
    obtain out where out: "link_graph ni doc g = Some out" and cases: "(\<exists>g'. out = Returned (ResOk g') \<and> wf_graph ni g' \<and> acyclic (graph_rel g') \<and> m_nodes g' = m_nodes g \<and>
        map2 parse_edge [0..<length (doc_edges doc)] (doc_edges doc) = map (\<lambda>e. Returned (ResOk (link_of ni e))) (m_edges g')) \<or>
     (\<exists>e. out = Returned (ResErr e) \<and> load_error e) \<or>
     (\<exists>x before entry after. raised out = Some x \<and> doc_edges doc = before @ entry # after \<and> raised (parse_edge (length before) entry) = Some x \<and>
        (bad_port (js_member entry ''from'') \<or> bad_port (js_member entry ''to'')))"
      using link_graph_outcome [OF ns(5,4), of doc] by blast
    have failed: "load_failure dbl registry doc h out h1" if "raised out = Some x" "doc_edges doc = before @ entry # after" "raised (parse_edge (length before) entry) = Some x"
        "bad_port (js_member entry ''from'') \<or> bad_port (js_member entry ''to'')" for x before entry after
      using that ns(1,2) unfolding load_failure_def load_exception_def by blast
    have "(\<exists>g. out = Returned (ResOk g) \<and> assembled_from ni dbl registry doc h h1 g) \<or> load_failure dbl registry doc h out h1"
      using cases
    proof (elim disjE)
      assume "\<exists>g'. out = Returned (ResOk g') \<and> wf_graph ni g' \<and> acyclic (graph_rel g') \<and> m_nodes g' = m_nodes g \<and>
        map2 parse_edge [0..<length (doc_edges doc)] (doc_edges doc) = map (\<lambda>e. Returned (ResOk (link_of ni e))) (m_edges g')"
      then show ?thesis using made ps ns(3) by (auto simp: assembled_from_def)
    next
      assume "\<exists>x before entry after. raised out = Some x \<and> doc_edges doc = before @ entry # after \<and> raised (parse_edge (length before) entry) = Some x \<and>
        (bad_port (js_member entry ''from'') \<or> bad_port (js_member entry ''to''))"
      then show ?thesis using failed by blast
    qed (simp add: load_failure_def)
    moreover have "assembleGraph ni dbl registry doc h = Some (out, h1)" using stage [OF linked(1)] linked(2) out(1) by simp
    ultimately show ?thesis by blast
  qed
qed

text \<open>The compact form of an endpoint reads back what it was written from.\<close>

lemma find_char_split: "c \<notin> set s \<Longrightarrow> find_char c (s @ c # t) = Some (length s)"
  by (induction s) (auto simp: find_char_def)

lemma compact_endpoint:
  assumes "js_is_string endpoint" and "js_string endpoint = node @ CHR ''.'' # port"
    and "CHR ''.'' \<notin> set node" and "CHR ''.'' \<notin> set port" and "node \<noteq> []" and "port \<noteq> []"
  shows "parseEndpoint endpoint side i = Returned (ResOk (node, port))"
proof -
  have "find_char CHR ''.'' (node @ CHR ''.'' # port) = Some (length node)" using assms(3) by (rule find_char_split)
  moreover have "rfind_char CHR ''.'' (node @ CHR ''.'' # port) = Some (length node)"
    using assms(4) find_char_split [of "CHR ''.''" "rev port" "rev node"] by (simp add: rfind_char_def)
  ultimately show ?thesis using assms by (simp add: parseEndpoint_def Let_def)
qed

section \<open>Properties\<close>

lemma sint_high:
  fixes w :: "64 word"
  assumes "2 ^ 63 \<le> unat w"
  shows "sint w = int (unat w) - 2 ^ 64"
proof -
  have nat: "int (unat w) = uint w" by simp
  have "int (2 ^ 63) \<le> int (unat w)" using assms by (simp only: of_nat_le_iff)
  then have low: "2 ^ 63 \<le> uint w" unfolding nat by simp
  have high: "uint w < 2 ^ 64" using uint_bounded [of w] by simp
  have "uint w div 2 ^ 63 = 1" using low high by (intro int_div_pos_eq [of _ _ _ "uint w - 2 ^ 63"]) auto
  then have "bit (uint w) 63" by (simp add: bit_iff_odd)
  moreover have "take_bit 64 (uint w) = uint w" using high by (intro take_bit_int_eq_self) auto
  ultimately have "signed_take_bit 63 (uint w) = uint w - 2 ^ 64"
    unfolding signed_take_bit_eq_take_bit_minus by simp
  then show ?thesis unfolding sint_uint nat by simp
qed

text \<open>The range check of a single number does not extend to the elements of an array: an unsigned element is stored with its sign changed.\<close>

lemma array_element_wraps:
  fixes w :: "64 word"
  assumes "2 ^ 63 \<le> unat w"
  shows "\<not> void_isOk (fst (setConfigParam dbl config name key (JNumberUnsigned w)))"
    and "setConfigParam dbl config name key (JArray [JNumberUnsigned w]) =
      (void_ok, setParam ''std::vector<std::int64_t>'' config key (CfgInts [int (unat w) - 2 ^ 64]))"
proof -
  show "setConfigParam dbl config name key (JArray [JNumberUnsigned w]) =
      (void_ok, setParam ''std::vector<std::int64_t>'' config key (CfgInts [int (unat w) - 2 ^ 64]))"
    by (simp add: setConfigParam_def js_is_string_def js_is_number_integer_def sint_high [OF assms])
  show "\<not> void_isOk (fst (setConfigParam dbl config name key (JNumberUnsigned w)))"
    using assms by (simp add: setConfigParam_def loader_err_def)
qed


text \<open>Two nodes and an edge; the port of the second endpoint is the argument.\<close>

definition demo_doc :: "nat json \<Rightarrow> nat json" where
  "demo_doc port = JObject [(''edges'', JArray [JObject [(''from'', JObject [(''node'', JString ''a'')]), (''to'', JObject [(''node'', JString ''b''), (''port'', port)])]]),
     (''nodes'', JArray [JObject [(''name'', JString ''a''), (''type'', JString ''T'')], JObject [(''name'', JString ''b''), (''type'', JString ''T'')]]),
     (''options'', JObject [(''mode'', JString ''stream''), (''num_workers'', JNumberUnsigned 2)])]"

definition demo_registry :: "(nat config_value, nat) NodeRegistry" where
  "demo_registry = snd (registerNode (\<lambda>name h. (Returned h, h + 1)) ''T'' empty_registry)"

definition loader_env :: node_env where
  "loader_env p = \<lparr> getName = (if p = 0 then ''a'' else ''b''), getExpectedInputPorts = (if p = 0 then [] else [''in'']), getExpectedOutputPorts = [],
     portPayloadType = (\<lambda>_. TypeVoid) \<rparr>"

definition demo_graph :: Graph where
  "demo_graph = snd (addEdge loader_env (snd (addNode loader_env (snd (addNode loader_env emptyGraph (Some 0))) (Some 1))) ''a'' [] ''b'' ''in'')"

abbreviation demo_parser :: "string \<Rightarrow> string + nat json" where
  "demo_parser \<equiv> \<lambda>_. Inr (demo_doc (JString ''in''))"

lemmas js_defs = js_is_string_def js_is_object_def js_is_array_def js_is_boolean_def js_is_number_unsigned_def js_is_number_integer_def js_is_number_def
  js_contains_def js_member_def js_get_string_def js_value_string_def

lemma demo_nodes:
  "load_nodes loader_env nat demo_registry (doc_nodes (demo_doc (JString ''in''))) emptyGraph 0 =
     (Returned (ResOk (snd (addNode loader_env (snd (addNode loader_env emptyGraph (Some 0))) (Some 1)))), 2)"
  by (simp add: doc_nodes_def js_defs demo_doc_def demo_registry_def loader_env_def parse_node_def checkKnownKeys_def registry_create_def registerNode_def
      registerFactory_def empty_registry_def constructed_def addNode_def emptyGraph_def Let_def)

lemma demo_edges:
  "load_edges loader_env 0 (doc_edges (demo_doc (JString ''in''))) (snd (addNode loader_env (snd (addNode loader_env emptyGraph (Some 0))) (Some 1))) =
     Returned (ResOk demo_graph) \<and> m_edges demo_graph = [mkEdge 0 [] 1 ''in'']"
  by (simp add: doc_edges_def js_defs demo_doc_def parse_edge_def parseEndpoint_def checkKnownKeys_def demo_graph_def addEdge_def
      addNode_def loader_env_def emptyGraph_def mkEdge_def Let_def)

lemma demo_loaded:
  "\<exists>options h'. loadPipelineFromJson loader_env demo_parser nat demo_registry json_text 0 =
     Some (Returned (ResOk \<lparr> pd_graph = demo_graph, pd_options = options \<rparr>), h') \<and> po_mode options = STREAM \<and> po_num_workers options = 2"
proof -
  let ?doc = "demo_doc (JString ''in'')"
  have "graph_rel demo_graph = {(0, 1)}" using demo_edges by (simp add: graph_rel_def mkEdge_def)
  then have "acyclic (graph_rel demo_graph)" by (auto simp: acyclic_def elim: tranclE converse_tranclE)
  moreover have "wf_graph loader_env demo_graph" unfolding demo_graph_def by (intro wf_addEdge wf_addNode wf_emptyGraph)
  ultimately have "hasCycle demo_graph = Some False" using hasCycle_wf by simp
  moreover have "js_is_object ?doc" "js_contains ?doc ''nodes''" "js_is_array (js_member ?doc ''nodes'')" "doc_nodes ?doc \<noteq> []"
    "void_isOk (checkKnownKeys ?doc ''top-level document'' [''nodes'', ''edges'', ''options''])" "js_is_array (js_member ?doc ''edges'')"
    by (simp_all add: js_defs demo_doc_def checkKnownKeys_def doc_nodes_def)
  ultimately have "assembleGraph loader_env nat demo_registry ?doc 0 = Some (Returned (ResOk demo_graph), 2)"
    using demo_nodes demo_edges by (simp add: assembleGraph_def link_graph_def Let_def)
  moreover have "\<exists>options. parseOptions ?doc = ResOk options \<and> po_mode options = STREAM \<and> po_num_workers options = 2"
    by (simp add: parseOptions_def js_defs demo_doc_def checkKnownKeys_def read_options_def on_option_def uint_option_def parseUintOption_def mode_option_def
        stream_options_def Let_def)
  ultimately show ?thesis by (auto simp: loadPipelineFromJson_def parseDocument_def)
qed

text \<open>
  C40. Loading a pipeline description always ends, and in one of three ways.  A graph that is returned is well formed
  and acyclic, its nodes are what the registry created from the entries of \<open>nodes\<close>, in their order, its edges are the entries
  of \<open>edges\<close>, in their order; the options name at least one worker and fit their types, every value the document gives for an
  option is the value in the result, and without \<open>options\<close> they are the defaults.  An error is \<open>InvalidConfiguration\<close> or
  \<open>GraphCycleDetected\<close>.  An exception is the one that the factory of an entry raised after the entries before it had been created,
  or, with all nodes created, the one of an edge with an endpoint whose port is not a string; and an endpoint that is an object with
  a node, no unknown key and such a port does raise one, although the type is checked right afterwards.
\<close>

theorem load_pipeline_outcome:
  "(\<exists>out h'. loadPipelineFromJson ni parser dbl registry json_text h = Some (out, h') \<and>
      (case parser json_text of
         Inl what \<Rightarrow> out = Returned (err InvalidConfiguration (''JSON parse error: '' @ what)) \<and> h' = h
       | Inr doc \<Rightarrow>
           (\<exists>pd. out = Returned (ResOk pd) \<and> assembled_from ni dbl registry doc h h' (pd_graph pd) \<and> options_ok (pd_options pd) \<and>
              (if js_contains doc ''options'' then options_from (js_member doc ''options'') (pd_options pd) else pd_options pd = default_PipelineOptions)) \<or>
           (\<exists>e. out = Returned (ResErr e) \<and> load_error e) \<or>
           (\<exists>x. raised out = Some x \<and> load_exception dbl registry doc h x h'))) \<and>
    (bad_port endpoint \<and> fst ` set (js_items endpoint) \<subseteq> {''node'', ''port''} \<and> js_contains endpoint ''node'' \<and> js_is_string (js_member endpoint ''node'')
     \<longrightarrow> (\<exists>what. parseEndpoint endpoint side i = ThrewStd what))"
proof (intro conjI impI)
  show "\<exists>out h'. loadPipelineFromJson ni parser dbl registry json_text h = Some (out, h') \<and>
      (case parser json_text of
         Inl what \<Rightarrow> out = Returned (err InvalidConfiguration (''JSON parse error: '' @ what)) \<and> h' = h
       | Inr doc \<Rightarrow>
           (\<exists>pd. out = Returned (ResOk pd) \<and> assembled_from ni dbl registry doc h h' (pd_graph pd) \<and> options_ok (pd_options pd) \<and>
              (if js_contains doc ''options'' then options_from (js_member doc ''options'') (pd_options pd) else pd_options pd = default_PipelineOptions)) \<or>
           (\<exists>e. out = Returned (ResErr e) \<and> load_error e) \<or>
           (\<exists>x. raised out = Some x \<and> load_exception dbl registry doc h x h'))"
  proof (cases "parser json_text")
    case (Inr doc)
    obtain out h' where out: "assembleGraph ni dbl registry doc h = Some (out, h')"
      "(\<exists>g. out = Returned (ResOk g) \<and> assembled_from ni dbl registry doc h h' g) \<or> load_failure dbl registry doc h out h'"
      using assembleGraph_outcome [of ni dbl registry doc h] by blast
    show ?thesis
    proof (cases "\<exists>g. out = Returned (ResOk g) \<and> assembled_from ni dbl registry doc h h' g")
      case True
      then obtain g where g: "out = Returned (ResOk g)" "assembled_from ni dbl registry doc h h' g" by blast
      show ?thesis
      proof (cases "parseOptions doc")
        case (ResOk options)
        then have "options_ok options" "if js_contains doc ''options'' then options_from (js_member doc ''options'') options else options = default_PipelineOptions"
          using parseOptions_ok [of doc] parseOptions_from [of doc] parseOptions_none [of doc] by (auto simp: parsed_ok_def)
        then show ?thesis using Inr out(1) g ResOk by (simp add: loadPipelineFromJson_def parseDocument_def)
      next
        case (ResErr e)
        then show ?thesis
          using Inr out(1) g parseOptions_ok [of doc] by (simp add: loadPipelineFromJson_def parseDocument_def parsed_ok_def load_error_def)
      qed
    next
      case False
      then show ?thesis
        using Inr out by (cases out) (auto simp: load_failure_def loadPipelineFromJson_def parseDocument_def)
    qed
  qed (simp add: loadPipelineFromJson_def parseDocument_def err_def)
next
  assume bad: "bad_port endpoint \<and> fst ` set (js_items endpoint) \<subseteq> {''node'', ''port''} \<and> js_contains endpoint ''node'' \<and> js_is_string (js_member endpoint ''node'')"
  then have "find (\<lambda>item. fst item \<notin> set [''node'', ''port'']) (js_items endpoint) = None" by (auto simp: find_None_iff)
  then have "checkKnownKeys endpoint place [''node'', ''port''] = void_ok" for place by (simp add: checkKnownKeys_def)
  moreover have "\<not> js_is_string endpoint" "js_is_object endpoint" using bad by (auto simp: bad_port_def js_is_string_def js_is_object_def split: json.splits)
  moreover have "\<exists>what. js_value_string endpoint ''port'' [] = ThrewStd what"
    using bad by (auto simp: bad_port_def js_value_string_object js_get_string_def)
  ultimately show "\<exists>what. parseEndpoint endpoint side i = ThrewStd what"
    using bad by (auto simp: parseEndpoint_def Let_def)
qed

theorem load_pipeline_outcome_witness:
  "(\<exists>pd h'. loadPipelineFromJson loader_env demo_parser nat demo_registry [] 0 = Some (Returned (ResOk pd), h') \<and>
     assembled_from loader_env nat demo_registry (demo_doc (JString ''in'')) 0 h' (pd_graph pd) \<and> options_ok (pd_options pd) \<and>
     options_from (js_member (demo_doc (JString ''in'')) ''options'') (pd_options pd)) \<and>
   (\<exists>what. parseEndpoint (JObject [(''node'', JString ''b''), (''port'', JNumberUnsigned 5)] :: nat json) ''to'' 0 = ThrewStd what)"
proof -
  let ?endpoint = "JObject [(''node'', JString ''b''), (''port'', JNumberUnsigned 5)] :: nat json"
  have "bad_port ?endpoint" "fst ` set (js_items ?endpoint) \<subseteq> {''node'', ''port''}" "js_contains ?endpoint ''node''" "js_is_string (js_member ?endpoint ''node'')"
    "js_contains (demo_doc (JString ''in'')) ''options''"
    by (simp_all add: bad_port_def js_defs demo_doc_def)
  then show ?thesis
    using load_pipeline_outcome [of loader_env demo_parser nat demo_registry "[]" 0 ?endpoint "''to''" 0] demo_loaded [of "[]"]
    by fastforce
qed

end
