(* ===== verification/Spec2Isabelle.thy ===== *)
theory Spec2Isabelle
  imports Errors Graphs Compiled_Graphs Ring_Concurrent Port_Queue Frame_Alignment Schedulers Join_Drops Pool_Concurrent Engine_Liveness Pipelines Graph_Loader
begin

text \<open>
  A verification library of ai-pipe, a C++ framework that runs a graph of processing nodes on a pool of
  threads, in batches or as a stream.

  \<^bold>\<open>The program.\<close>  An application builds a \<open>Graph\<close> of nodes, by hand or from a JSON description through the registry
  of node types, and hands it to a \<open>Pipeline\<close>.  The pipeline owns an
  \<open>ExecutionEngine\<close>.  The engine compiles the graph into index tables, gives every input port a bounded lock-free queue, and
  submits a task to the work-stealing pool when a node is ready.  A task takes the inputs of its node from the queues, aligning the frames of a
  join, calls the node, and routes the outputs to the queues downstream.  A scheduler strategy decides when a node runs; a
  synchronization strategy makes the branches of a join drop the same frames.  A stream ends when the end of
  every source has travelled to all sinks.

  \<^bold>\<open>Theories and sources\<close> (paths under \<open>src/\<close>).

  \<^item> \<open>Pipe_Prelude\<close>: machine types and generic lemmas.  \<open>Kahn\<close>: Kahn's algorithm over a store of counters, used by both graph theories.
  \<^item> \<open>Errors\<close> (\<open>include/ai_pipe/error.hpp\<close>): error codes, \<open>Error\<close>, \<open>Result<T>\<close> and \<open>Result<void>\<close>; errors are values.
  \<^item> \<open>Graphs\<close> (\<open>src/graph.cpp\<close>, \<open>graph.hpp\<close>, \<open>edge.hpp\<close>, \<open>i_logic_node.hpp\<close>) and \<open>Compiled_Graphs\<close> (\<open>compiled_graph.hpp\<close>): nodes are addresses, a parameter gives the
    interface of the object at an address.
  \<^item> \<open>Ring_Queue\<close>, \<open>Ring_Concurrent\<close>, \<open>Node_Queue\<close>, \<open>Port_Queue\<close> (\<open>src/lock_free_queue.hpp\<close>): the ring buffer run by one thread and, as a step relation, by any
    number of threads; the queue with its drop policies; and the list queue that the engine's model uses in its place, with the proof that it answers alike.
  \<^item> \<open>Packets\<close> (\<open>frame_metadata.hpp\<close>, \<open>data_packet.hpp\<close>, \<open>data_types.hpp\<close>), \<open>Frame_Alignment\<close> (\<open>src/frame_alignment.hpp\<close>).
  \<^item> \<open>Exec_Types\<close> (\<open>execution_types.hpp\<close>), \<open>Schedulers\<close> (\<open>i_scheduler_strategy.hpp\<close>, \<open>strategies.hpp\<close>, \<open>scheduler_strategies.hpp\<close>).
  \<^item> \<open>Sync_Groups\<close> (\<open>src/sync_coordinator.hpp\<close>), \<open>Join_Sync\<close> and \<open>Join_Drops\<close> (\<open>src/join_aware_sync_strategy.hpp\<close>, \<open>src/sync_strategies.hpp\<close>).
  \<^item> \<open>Thread_Pool\<close> and \<open>Pool_Concurrent\<close> (\<open>src/work_stealing_thread_pool.hpp\<close>): one call at a time, and the steps of workers, submitters and a shutdown interleaved.
  \<^item> \<open>Engine_State\<close>, \<open>Join_Gather\<close>, \<open>Engine_Exec\<close>, \<open>Engine_Api\<close> (\<open>src/execution_engine_impl.hpp\<close>, \<open>src/execution_engine_impl.cpp\<close>): the record \<open>Engine\<close> holds the
    members of the implementation class; one definition per member function, in the order state and set-up, gathering, scheduling and execution, public operations.
    The record \<open>hooks\<close> stands for what the engine calls and does not own: the nodes, the clock, the order of unordered containers.
  \<^item> \<open>Engine_Frames\<close>, \<open>Engine_Streams\<close>, \<open>Engine_Runs\<close>, \<open>Engine_Liveness\<close>: no code, but what holds of runs of the engine.
  \<^item> \<open>Pipelines\<close> (\<open>pipeline.hpp\<close>, \<open>src/pipeline_impl.cpp\<close>): the facade over the model of the engine, its observers and futures, and the builder.
  \<^item> \<open>Node_Registry\<close> (\<open>node_registry.hpp\<close>) and \<open>Graph_Loader\<close> (\<open>config/graph_loader.cpp\<close>, with the accessors of \<open>3rdparty/nlohmann/json.hpp\<close> that it calls).

  \<^bold>\<open>What is shown.\<close>  Graphs: every sequence of calls keeps the derived tables consistent, the cycle search and the compilation are totally correct, the
  routing tables are the edges.  Queues: under every interleaving the ring is free of data races and delivers each item once and in order; run alone it
  is a bounded FIFO across the wrap-around of its 64-bit positions; the node queue loses nothing it does not report.  Alignment and coordination: a
  discarded packet could never have been paired, heads that do not match always name one to discard, a frame dropped on one branch
  is dropped on the others, the search for the fork of a join is exact.  Pool: submissions and claims are exact, no wake-up is lost, a graceful shutdown
  runs what it accepted; and two interleavings are exhibited in which it does not keep its promise.  Engine: the gather of a join refines the alignment rule on the real
  queues; the recursive end-of-stream check terminates; after any sequence of events the counters agree with the queued tasks; a stream whose
  sources are closed ends exactly once; a stopped engine drains; a batch runs at most one task per node.  Facade and loader: calls in the wrong state
  change nothing and report the code of the state, promises are kept once, a loaded graph is the one described.

  \<^bold>\<open>Interfaces.\<close>  Where a component relies on another the laws are a locale, interpreted on the model: \<open>counter_store\<close> (the in-degree
  tables of both graphs), \<open>bounded_queue\<close> (the ring), \<open>queue_impl\<close> (the node queue), \<open>alignment_policy\<close>, \<open>join_ports\<close> and \<open>aligned_gather\<close> (the three rules, and the
  queues of the engine), \<open>task_deque\<close> (the deques of the pool), \<open>eos_handler\<close> (the end-of-stream check that scheduling and routing call).

  \<^bold>\<open>Loops and fuel.\<close>  Bounded loops are structural recursion.  The search loops of the graphs are \<open>while_option\<close>; the retry loops of the queues and the
  gather of a join are partial functions with \<open>None\<close> for a loop that does not return, and the properties show that they return.  Two loops carry a bound: the
  peek of a join head, which removes a packet per round, the number of packets in the queue; the recursive end-of-stream check, which flushes a node per
  nested call, one more than the number of nodes, with the proof that more fuel changes nothing.

  \<^bold>\<open>Concurrency.\<close>  The ring and the pool are modelled step by step.  A call of the engine runs from its start to its end; threads interleave between
  calls.  A wait is split at its condition variable, and what the other threads do meanwhile is an argument.  Memory orders are not distinguished.

  \<^bold>\<open>Not modelled.\<close>  \<open>PipelineContext\<close> (\<open>context.hpp\<close>, \<open>context.cpp\<close>) beyond its cancellation flag: its stores, metrics and progress
  reporters are used by node code only.  The plugin loader (\<open>plugin_loader.cpp\<close>, \<open>plugin.hpp\<close>): calls of the platform around the snapshot of the registry.  Logging
  (\<open>logger.cpp\<close>, \<open>logger.hpp\<close>, \<open>engine_log.cpp\<close>) and tracing (\<open>trace.hpp\<close>): output only.  The JSON parser is an argument of the loader.  Examples, benchmarks and tests are not part of the library.
\<close>

end
